(* ===== verification/Prelude.thy ===== *)
theory Prelude
  imports Main "HOL-Library.Word" "HOL-Library.Sublist"
begin

text \<open>
  Shared vocabulary of the development: the machine types the Go source uses, the collections of
  simplification rules the component theories extend, and Go channels that are closed to wake
  their waiters.
\<close>

subsection \<open>Collections\<close>

named_theorems go_defs \<open>definitions of small Go helpers that proofs unfold\<close>
named_theorems ring_inv_intros \<open>operations that keep the ring invariant\<close>

subsection \<open>Machine types\<close>

type_synonym byte = "8 word"
type_synonym u64 = "64 word"
type_synonym u32 = "32 word"

text \<open>
  A value of Go's \<^verbatim>\<open>int\<close> is a mathematical \<^typ>\<open>int\<close> where the code keeps it within 63 bits;
  the conversion \<^verbatim>\<open>int(x)\<close> of an unsigned 64 bit value reinterprets the bits.
\<close>

definition int_of_u64 :: "u64 \<Rightarrow> int" where
  [go_defs]: "int_of_u64 x = sint x"

abbreviation u64_of_nat :: "nat \<Rightarrow> u64" where
  "u64_of_nat n \<equiv> of_nat n"

subsection \<open>Channels used as wake-up signals\<close>

text \<open>
  A \<^verbatim>\<open>chan struct{}\<close> that is only ever closed and replaced. The generation counts the
  replacements, so a waiter that picked up generation \<open>g\<close> is woken exactly when that channel has
  been closed. Closing a closed channel panics in Go; the model keeps that as a state of its own,
  which every later use leaves in place.
\<close>

datatype chan_state = Open | Closed | ClosePanic

datatype wake_chan = WakeChan (chan_gen: nat) (chan_state: chan_state)

definition make_chan :: wake_chan where
  "make_chan = WakeChan 0 Open"

fun close_chan :: "wake_chan \<Rightarrow> wake_chan" where
  "close_chan (WakeChan g Open) = WakeChan g Closed"
| "close_chan (WakeChan g Closed) = WakeChan g ClosePanic"
| "close_chan (WakeChan g ClosePanic) = WakeChan g ClosePanic"

text \<open>\<^verbatim>\<open>close(c); c = make(chan struct{})\<close>.\<close>

fun renew_chan :: "wake_chan \<Rightarrow> wake_chan" where
  "renew_chan (WakeChan g Open) = WakeChan (Suc g) Open"
| "renew_chan (WakeChan g Closed) = WakeChan g ClosePanic"
| "renew_chan (WakeChan g ClosePanic) = WakeChan g ClosePanic"

definition woken :: "wake_chan \<Rightarrow> nat \<Rightarrow> bool" where
  "woken c g \<longleftrightarrow> g < chan_gen c \<or> (g = chan_gen c \<and> chan_state c = Closed)"

subsection \<open>Lemmas on machine words\<close>

lemma unat_u64_of_nat [simp]: "n < 2 ^ 64 \<Longrightarrow> unat (u64_of_nat n) = n"
  by (simp add: unat_of_nat take_bit_nat_eq_self)

lemma unat_u64_less [simp]: "unat (x :: u64) < 18446744073709551616"
  by (rule order_less_le_trans [OF unsigned_less]) simp

lemma unat_u64_add: "unat (a :: u64) + unat b < 2 ^ 64 \<Longrightarrow> unat (a + b) = unat a + unat b"
  by (simp add: unat_word_ariths)

lemma unat_u64_add_of_nat:
  "unat (a :: u64) + n < 2 ^ 64 \<Longrightarrow> unat (a + of_nat n) = unat a + n"
  by (simp add: unat_u64_add)

lemma unat_u64_diff: "(b :: u64) \<le> a \<Longrightarrow> unat (a - b) = unat a - unat b"
  by (rule unat_sub)

lemma unat_u64_max: "unat (max a b :: u64) = max (unat a) (unat b)"
  by (simp add: max_def word_le_nat_alt)

lemma int_of_u64_small:
  assumes "unat x < 2 ^ 63"
  shows "int_of_u64 x = int (unat x)"
proof -
  from assms have "uint x < 2 ^ 63"
    by (metis of_nat_less_numeral_power_cancel_iff uint_nat)
  moreover have "sint x = signed_take_bit 63 (uint x)"
    by (simp only: sint_uint) simp
  moreover have "- (2 ^ 63) \<le> uint x"
    by (rule order_trans [OF _ uint_ge_0]) simp
  ultimately have "sint x = uint x"
    by (metis signed_take_bit_int_eq_self)
  then show ?thesis
    by (simp only: int_of_u64_def uint_nat)
qed

lemma int_of_u64_large:
  assumes "2 ^ 63 \<le> unat x"
  shows "int_of_u64 x < 0"
proof -
  from assms have lo: "2 ^ 63 \<le> uint x"
    by (metis numeral_power_le_of_nat_cancel_iff uint_nat)
  have hi: "uint x < 2 ^ 64"
    using uint_bounded [of x] by simp
  have "uint x div 2 ^ 63 = 1"
    using lo hi by (intro int_div_pos_eq [where r = "uint x - 2 ^ 63"]) auto
  then have "bit (uint x) 63"
    by (simp only: bit_iff_odd) simp
  then have "bit x (LENGTH(64) - Suc 0)"
    by (simp only: bit_uint_iff) simp
  then show ?thesis
    by (simp only: int_of_u64_def bit_last_iff)
qed

lemma int_of_u64_le: "int_of_u64 x \<le> int (unat x)"
proof (cases "unat x < 2 ^ 63")
  case True
  then show ?thesis by (simp only: int_of_u64_small)
next
  case False
  then have "int_of_u64 x < 0"
    by (intro int_of_u64_large) simp
  then show ?thesis by linarith
qed

subsection \<open>Lemmas on lists\<close>

lemma take_drop_split:
  assumes "a \<le> b" and "b \<le> c"
  shows "take (b - a) (drop a xs) @ take (c - b) (drop b xs) = take (c - a) (drop a xs)"
  using assms take_add [of "b - a" "c - b" "drop a xs"] by simp

subsection \<open>Lemmas on channels\<close>

lemma chan_state_close_Open [simp]:
  "chan_state c = Open \<Longrightarrow> chan_state (close_chan c) = Closed"
  by (cases c) auto

lemma chan_gen_close [simp]: "chan_gen (close_chan c) = chan_gen c"
  by (cases c rule: close_chan.cases) auto

lemma chan_state_renew_Open [simp]:
  "chan_state c = Open \<Longrightarrow> chan_state (renew_chan c) = Open"
  by (cases c) auto

lemma chan_gen_renew [simp]:
  "chan_state c = Open \<Longrightarrow> chan_gen (renew_chan c) = Suc (chan_gen c)"
  by (cases c) auto

subsection \<open>Predicates that every step preserves\<close>

text \<open>What a step relation promises about a predicate, and what then holds along every run.\<close>

locale preserved =
  fixes step :: "'s \<Rightarrow> 's \<Rightarrow> bool" and inv :: "'s \<Rightarrow> bool"
  assumes step_keeps: "step s s' \<Longrightarrow> inv s \<Longrightarrow> inv s'"
begin

lemma run_keeps: "step\<^sup>*\<^sup>* s s' \<Longrightarrow> inv s \<Longrightarrow> inv s'"
  by (induction rule: rtranclp_induct) (auto intro: step_keeps)

end

end
