(* ===== verification/OutputRing.thy ===== *)
theory OutputRing
  imports Prelude
begin

text \<open>
  The bounded, append-only byte buffer of \<^verbatim>\<open>pkg/output_ring.go\<close>. Every method holds the ring's
  mutex for one critical section, so each section is one function from ring to ring; a method that
  blocks returns the generation of the channel it waits on and is entered again after the wake-up.
\<close>

subsection \<open>State and operations\<close>

record output_ring =
  r_buf :: "byte list"
  r_start :: u64
  r_capacity :: int
  r_closed :: bool
  r_notify :: wake_chan
  r_lossless :: bool
  r_released :: u64
  r_space :: wake_chan

datatype ring_error = RingClosed

definition newOutputRing :: "int \<Rightarrow> output_ring" where
  "newOutputRing cap =
     \<lparr>r_buf = [], r_start = 0, r_capacity = cap, r_closed = False, r_notify = make_chan,
      r_lossless = False, r_released = 0, r_space = make_chan\<rparr>"

definition setLossless :: "output_ring \<Rightarrow> output_ring" where
  "setLossless r = r\<lparr>r_lossless := True\<rparr>"

definition setReleased :: "output_ring \<Rightarrow> u64 \<Rightarrow> output_ring" where
  "setReleased r offset =
     (if offset \<le> r_released r then r
      else
        let r1 = r\<lparr>r_released := offset\<rparr> in
        if r_closed r1 then r1
        else r1\<lparr>r_space := renew_chan (r_space r1)\<rparr>)"

text \<open>\<^verbatim>\<open>writeEvicting\<close> returns the ring, the count and the error of the Go method.\<close>

definition writeEvicting :: "output_ring \<Rightarrow> byte list \<Rightarrow> output_ring \<times> nat \<times> ring_error option" where
  "writeEvicting r p =
     (if r_closed r then (r, 0, Some RingClosed)
      else
        let r1 =
          (if int (length p) \<ge> r_capacity r then
             let skip = int (length p) - r_capacity r in
             r\<lparr>r_start := r_start r + (of_nat (length (r_buf r)) + of_int skip),
               r_buf := drop (nat skip) p\<rparr>
           else
             let buf1 = r_buf r @ p; over = int (length buf1) - r_capacity r in
             if over > 0
             then r\<lparr>r_start := r_start r + of_int over, r_buf := drop (nat over) buf1\<rparr>
             else r\<lparr>r_buf := buf1\<rparr>)
        in (r1\<lparr>r_notify := renew_chan (r_notify r1)\<rparr>, length p, None))"

text \<open>
  One pass through the loop of \<^verbatim>\<open>writeLossless\<close>: the critical section between \<^verbatim>\<open>r.mu.Lock()\<close> and
  \<^verbatim>\<open>r.mu.Unlock()\<close>, entered with \<open>written < length p\<close>.
\<close>

datatype lossless_pass =
    PassClosed
  | PassWait nat
  | PassWrote output_ring nat

definition evictable :: "output_ring \<Rightarrow> int" where
  "evictable r =
     (if r_released r > r_start r
      then min (int_of_u64 (r_released r - r_start r)) (int (length (r_buf r)))
      else 0)"

definition freeSpace :: "output_ring \<Rightarrow> int" where
  "freeSpace r = r_capacity r - int (length (r_buf r)) + evictable r"

definition losslessPass :: "output_ring \<Rightarrow> byte list \<Rightarrow> nat \<Rightarrow> lossless_pass" where
  "losslessPass r p written =
     (if r_closed r then PassClosed
      else
        let sp = freeSpace r in
        if sp \<le> 0 then PassWait (chan_gen (r_space r))
        else
          let n = min sp (int (length p) - int written);
              over = int (length (r_buf r)) + n - r_capacity r;
              r1 = (if over > 0
                    then r\<lparr>r_start := r_start r + of_int over, r_buf := drop (nat over) (r_buf r)\<rparr>
                    else r);
              r2 = r1\<lparr>r_buf := r_buf r1 @ take (nat n) (drop written p)\<rparr>
          in PassWrote (r2\<lparr>r_notify := renew_chan (r_notify r2)\<rparr>) (written + nat n))"

lemma losslessPass_progress:
  assumes "losslessPass r p written = PassWrote r' written'" and "written < length p"
  shows "written < written'" and "written' \<le> length p"
  using assms by (auto simp: losslessPass_def Let_def split: if_splits)

text \<open>
  The whole loop up to the point where it returns or blocks. A writer that blocks on generation
  \<open>g\<close> of the space channel re-enters the loop with the same \<open>written\<close> once it is woken.
\<close>

datatype write_outcome =
    WriteDone
  | WriteFailed ring_error
  | WriteBlocked nat

function writeLossless ::
  "output_ring \<Rightarrow> byte list \<Rightarrow> nat \<Rightarrow> output_ring \<times> nat \<times> write_outcome"
where
  "writeLossless r p written =
     (if written < length p then
        (case losslessPass r p written of
           PassClosed \<Rightarrow> (r, written, WriteFailed RingClosed)
         | PassWait g \<Rightarrow> (r, written, WriteBlocked g)
         | PassWrote r' written' \<Rightarrow> writeLossless r' p written')
      else (r, written, WriteDone))"
  by pat_completeness auto
termination
  by (relation "measure (\<lambda>(r, p, written). length p - written)")
     (auto dest: losslessPass_progress)

declare writeLossless.simps [simp del]

definition Write :: "output_ring \<Rightarrow> byte list \<Rightarrow> output_ring \<times> nat \<times> write_outcome" where
  "Write r p =
     (if \<not> r_lossless r then
        (case writeEvicting r p of
           (r', n, None) \<Rightarrow> (r', n, WriteDone)
         | (r', n, Some e) \<Rightarrow> (r', n, WriteFailed e))
      else writeLossless r p 0)"

definition Close :: "output_ring \<Rightarrow> output_ring" where
  "Close r =
     (if r_closed r then r
      else r\<lparr>r_closed := True, r_notify := close_chan (r_notify r), r_space := close_chan (r_space r)\<rparr>)"

definition StartOffset :: "output_ring \<Rightarrow> u64" where
  "StartOffset r = r_start r"

definition EndOffset :: "output_ring \<Rightarrow> u64" where
  "EndOffset r = r_start r + of_nat (length (r_buf r))"

definition RetainedBytes :: "output_ring \<Rightarrow> int" where
  "RetainedBytes r = int (length (r_buf r))"

text \<open>
  One pass through the loop of \<^verbatim>\<open>ReadAt\<close>. The select that follows a \<open>ReadWait\<close> is resolved by the
  environment: the channel wakes, or the caller cancels.
\<close>

datatype read_outcome =
    ReadData "byte list" u64
  | ReadEOF u64
  | ReadWait u64 nat

definition ReadAt :: "output_ring \<Rightarrow> u64 \<Rightarrow> read_outcome" where
  "ReadAt r offset =
     (let offset = (if offset < r_start r then r_start r else offset) in
      if offset < r_start r + of_nat (length (r_buf r))
      then ReadData (drop (unat (offset - r_start r)) (r_buf r)) offset
      else if r_closed r then ReadEOF offset
      else ReadWait offset (chan_gen (r_notify r)))"

subsection \<open>The invariant and the log a ring represents\<close>

definition ring_ok :: "output_ring \<Rightarrow> bool" where
  "ring_ok r \<longleftrightarrow>
     0 \<le> r_capacity r \<and> r_capacity r < 2 ^ 63 \<and> int (length (r_buf r)) \<le> r_capacity r \<and>
     chan_state (r_notify r) = (if r_closed r then Closed else Open) \<and>
     chan_state (r_space r) = (if r_closed r then Closed else Open)"

definition represents :: "output_ring \<Rightarrow> byte list \<Rightarrow> bool" where
  "represents r log \<longleftrightarrow>
     ring_ok r \<and> length log < 2 ^ 64 \<and> unat (r_start r) \<le> length log \<and>
     r_buf r = drop (unat (r_start r)) log"

definition retains_tail :: "output_ring \<Rightarrow> byte list \<Rightarrow> bool" where
  "retains_tail r log \<longleftrightarrow> r_buf r = drop (length log - nat (r_capacity r)) log"

lemma ring_okD:
  assumes "ring_ok r"
  shows "0 \<le> r_capacity r" and "int (length (r_buf r)) \<le> r_capacity r"
    and "chan_state (r_notify r) = (if r_closed r then Closed else Open)"
    and "chan_state (r_space r) = (if r_closed r then Closed else Open)"
  using assms by (auto simp: ring_ok_def)

lemma representsD:
  assumes "represents r log"
  shows "ring_ok r" and "length log < 2 ^ 64" and "unat (r_start r) \<le> length log"
    and "r_buf r = drop (unat (r_start r)) log"
    and "unat (r_start r) + length (r_buf r) = length log"
  using assms by (auto simp: represents_def)

lemma ring_ok_new [ring_inv_intros]: "0 \<le> cap \<Longrightarrow> cap < 2 ^ 63 \<Longrightarrow> ring_ok (newOutputRing cap)"
  by (simp add: ring_ok_def newOutputRing_def make_chan_def)

lemma ring_ok_setLossless [ring_inv_intros]: "ring_ok r \<Longrightarrow> ring_ok (setLossless r)"
  by (simp add: ring_ok_def setLossless_def)

lemma ring_ok_setReleased [ring_inv_intros]: "ring_ok r \<Longrightarrow> ring_ok (setReleased r off)"
  by (simp add: ring_ok_def setReleased_def Let_def)

lemma ring_ok_Close [ring_inv_intros]: "ring_ok r \<Longrightarrow> ring_ok (Close r)"
  by (simp add: ring_ok_def Close_def)

lemma r_fields_setReleased [simp]:
  "r_buf (setReleased r off) = r_buf r" "r_start (setReleased r off) = r_start r"
  "r_capacity (setReleased r off) = r_capacity r" "r_closed (setReleased r off) = r_closed r"
  "r_notify (setReleased r off) = r_notify r" "r_lossless (setReleased r off) = r_lossless r"
  "r_released (setReleased r off) = max (r_released r) off"
  by (auto simp: setReleased_def Let_def max_def)

lemma r_fields_Close [simp]:
  "r_buf (Close r) = r_buf r" "r_start (Close r) = r_start r"
  "r_capacity (Close r) = r_capacity r" "r_closed (Close r)"
  "r_lossless (Close r) = r_lossless r" "r_released (Close r) = r_released r"
  by (auto simp: Close_def)

lemma r_fields_setLossless [simp]:
  "r_buf (setLossless r) = r_buf r" "r_start (setLossless r) = r_start r"
  "r_capacity (setLossless r) = r_capacity r" "r_closed (setLossless r) = r_closed r"
  "r_lossless (setLossless r)" "r_released (setLossless r) = r_released r"
  by (auto simp: setLossless_def)

lemma represents_new [ring_inv_intros]:
  "0 \<le> cap \<Longrightarrow> cap < 2 ^ 63 \<Longrightarrow> represents (newOutputRing cap) []"
  by (simp add: represents_def ring_ok_new) (simp add: newOutputRing_def)

lemma represents_setLossless [ring_inv_intros]: "represents r log \<Longrightarrow> represents (setLossless r) log"
  by (simp add: represents_def ring_ok_setLossless)

lemma represents_setReleased [ring_inv_intros]: "represents r log \<Longrightarrow> represents (setReleased r off) log"
  by (simp add: represents_def ring_ok_setReleased)

lemma represents_Close [ring_inv_intros]: "represents r log \<Longrightarrow> represents (Close r) log"
  by (simp add: represents_def ring_ok_Close)

lemma EndOffset_represents: "represents r log \<Longrightarrow> unat (EndOffset r) = length log"
  using representsD(2,5) [of r log] by (simp add: EndOffset_def unat_u64_add_of_nat)

subsection \<open>Evicting writes\<close>

lemma u64_of_int_nat: "0 \<le> i \<Longrightarrow> (of_int i :: u64) = of_nat (nat i)"
  by simp

lemma writeEvicting_open:
  fixes r :: output_ring and p :: "byte list"
  assumes "\<not> r_closed r" "0 \<le> r_capacity r"
    and "int (length (r_buf r)) \<le> r_capacity r"
  defines "over \<equiv> length (r_buf r) + length p - nat (r_capacity r)"
  shows "writeEvicting r p =
    (r\<lparr>r_start := r_start r + of_nat over, r_buf := drop over (r_buf r @ p),
       r_notify := renew_chan (r_notify r)\<rparr>, length p, None)"
proof (cases "int (length p) \<ge> r_capacity r")
  case True
  with assms have "nat (int (length p) - r_capacity r) = over - length (r_buf r)" "length (r_buf r) \<le> over"
    by auto
  moreover have "of_nat (length (r_buf r)) + of_int (int (length p) - r_capacity r) = (of_nat over :: u64)"
  proof -
    have "int (length (r_buf r)) + (int (length p) - r_capacity r) = int over"
      using True assms by simp
    then show ?thesis by (metis of_int_add of_int_of_nat_eq)
  qed
  ultimately show ?thesis
    using True assms by (simp add: writeEvicting_def Let_def)
next
  case False
  have "nat (int (length (r_buf r) + length p) - r_capacity r) = over"
    using assms by simp
  moreover have "of_int (int (length (r_buf r) + length p) - r_capacity r) = (of_nat over :: u64)"
    if "0 < int (length (r_buf r) + length p) - r_capacity r"
  proof -
    have "int (length (r_buf r) + length p) - r_capacity r = int over"
      using that assms by simp
    then show ?thesis by (metis of_int_of_nat_eq)
  qed
  ultimately show ?thesis
    using False assms by (auto simp: writeEvicting_def Let_def over_def)
qed

lemma writeEvicting_represents:
  assumes "represents r log" and "\<not> r_closed r" and "length log + length p < 2 ^ 64"
  obtains r' where "writeEvicting r p = (r', length p, None)" and "represents r' (log @ p)"
    and "\<not> r_closed r'" and "r_capacity r' = r_capacity r" and "r_lossless r' = r_lossless r"
proof -
  note ok = representsD [OF assms(1)]
  define over where "over = length (r_buf r) + length p - nat (r_capacity r)"
  define r' where "r' = r\<lparr>r_start := r_start r + of_nat over, r_buf := drop over (r_buf r @ p),
       r_notify := renew_chan (r_notify r)\<rparr>"
  have le: "over \<le> length (r_buf r) + length p"
    by (simp add: over_def)
  have st: "unat (r_start r') = unat (r_start r) + over"
    unfolding r'_def using ok(5) assms(3) le by (simp add: unat_u64_add_of_nat del: of_nat_add)
  have "r_buf r' = drop (unat (r_start r')) (log @ p)"
    using ok(3,4) by (simp add: st) (simp add: r'_def add.commute)
  moreover have "ring_ok r'"
    using ok(1) assms(2) by (auto simp: ring_ok_def r'_def over_def)
  ultimately have "represents r' (log @ p)"
    using ok(5) assms(3) le by (simp add: represents_def st)
  moreover have "writeEvicting r p = (r', length p, None)"
    unfolding r'_def over_def using ok(1) assms(2) by (intro writeEvicting_open) (auto simp: ring_ok_def)
  ultimately show ?thesis
    using that assms(2) by (simp add: r'_def)
qed

lemma drop_tail_shift:
  "drop (min (length log) c + k - c + (length log - c)) log = drop (length log + k - c) log"
  by (cases "length log \<le> c") (simp_all add: min_def add.commute)

lemma writeEvicting_retains_tail:
  assumes "represents r log" and "\<not> r_closed r" and "retains_tail r log"
  shows "retains_tail (fst (writeEvicting r p)) (log @ p)"
proof -
  note ok = representsD [OF assms(1)]
  have "length (r_buf r) = min (length log) (nat (r_capacity r))"
    using assms(3) by (auto simp: retains_tail_def)
  then show ?thesis
    using assms(3) ok(1) assms(2)
    by (subst writeEvicting_open) (auto simp: retains_tail_def ring_ok_def drop_tail_shift)
qed

subsection \<open>Lossless writes\<close>

lemma evictable_le: "evictable r \<le> int (length (r_buf r))"
  by (simp add: evictable_def)

lemma evictable_le_released:
  assumes "r_start r \<le> r_released r"
  shows "evictable r \<le> int (unat (r_released r) - unat (r_start r))"
proof (cases "r_released r > r_start r")
  case True
  then have "int_of_u64 (r_released r - r_start r) \<le> int (unat (r_released r) - unat (r_start r))"
    using int_of_u64_le [of "r_released r - r_start r"] unat_u64_diff [OF assms] by simp
  then show ?thesis
    using True by (simp add: evictable_def)
next
  case False
  then show ?thesis by (simp add: evictable_def)
qed

text \<open>
  What one pass of the loop writes: \<open>n\<close> bytes, after evicting \<open>over\<close> of the retained ones.
\<close>

lemma losslessPass_WroteE:
  assumes "losslessPass r p written = PassWrote r' written'" and "written < length p"
    and "int (length (r_buf r)) \<le> r_capacity r"
  obtains n over where "0 < n" and "written' = written + n" and "written' \<le> length p"
    and "over \<le> length (r_buf r)" and "int over \<le> max 0 (evictable r)" and "int n \<le> freeSpace r"
    and "length (r_buf r) - over + n \<le> nat (r_capacity r)"
    and "r' = r\<lparr>r_start := r_start r + of_nat over,
               r_buf := drop over (r_buf r) @ take n (drop written p),
               r_notify := renew_chan (r_notify r)\<rparr>"
proof -
  define n where "n = min (freeSpace r) (int (length p) - int written)"
  define over where "over = int (length (r_buf r)) + n - r_capacity r"
  have sp: "\<not> r_closed r" "\<not> freeSpace r \<le> 0"
    using assms(1) by (auto simp: losslessPass_def Let_def split: if_splits)
  have n: "0 < n" "n \<le> freeSpace r" "n \<le> int (length p) - int written"
    using sp(2) assms(2) by (auto simp: n_def)
  have ov: "over \<le> evictable r"
    using n(2) by (simp add: over_def freeSpace_def)
  have "r' = (let r1 = (if over > 0
                  then r\<lparr>r_start := r_start r + of_int over, r_buf := drop (nat over) (r_buf r)\<rparr>
                  else r)
         in r1\<lparr>r_buf := r_buf r1 @ take (nat n) (drop written p), r_notify := renew_chan (r_notify r1)\<rparr>)"
    and w: "written' = written + nat n"
    using assms(1) sp unfolding losslessPass_def Let_def n_def over_def by (auto split: if_splits)
  then have r': "r' = r\<lparr>r_start := r_start r + of_nat (nat over),
               r_buf := drop (nat over) (r_buf r) @ take (nat n) (drop written p),
               r_notify := renew_chan (r_notify r)\<rparr>"
    by (cases "over > 0") (simp_all add: Let_def)
  show ?thesis
  proof (rule that [of "nat n" "nat over"])
    show "nat over \<le> length (r_buf r)"
      using ov evictable_le [of r] by simp
    show "length (r_buf r) - nat over + nat n \<le> nat (r_capacity r)"
      using n assms(3) ov evictable_le [of r] by (simp add: over_def)
  qed (use n w r' ov assms(2) in auto)
qed

lemma losslessPass_represents:
  assumes "represents r log" and pass: "losslessPass r p written = PassWrote r' written'"
    and "written < length p" and "length log + (written' - written) < 2 ^ 64"
  shows "represents r' (log @ take (written' - written) (drop written p))"
proof -
  note ok = representsD [OF assms(1)]
  obtain n over where n: "written' = written + n" "written' \<le> length p" "over \<le> length (r_buf r)"
      "length (r_buf r) - over + n \<le> nat (r_capacity r)"
    and r': "r' = r\<lparr>r_start := r_start r + of_nat over,
               r_buf := drop over (r_buf r) @ take n (drop written p),
               r_notify := renew_chan (r_notify r)\<rparr>"
    using losslessPass_WroteE [OF pass assms(3)] ok(1) by (metis ring_okD(2))
  have st: "unat (r_start r') = unat (r_start r) + over"
    using ok(5,2) n(3) by (simp add: r' unat_u64_add_of_nat)
  have len: "length (take n (drop written p)) = n"
    using n(1,2) by simp
  have "ring_ok r'"
    using ok(1) n(4) pass len by (auto simp: ring_ok_def r' losslessPass_def split: if_splits)
  moreover have "r_buf r' = drop (unat (r_start r')) (log @ take n (drop written p))"
    using n(3) ok(3,4,5) by (simp add: st) (simp add: r' add.commute)
  ultimately show ?thesis
    using st n ok(2,5) assms(4) by (simp add: represents_def)
qed

lemma losslessPass_released:
  assumes "losslessPass r p written = PassWrote r' written'" and "written < length p"
    and "represents r log" and "r_start r \<le> r_released r"
  shows "r_start r' \<le> r_released r'" and "r_released r' = r_released r"
    and "r_lossless r' = r_lossless r" and "r_capacity r' = r_capacity r" and "\<not> r_closed r'"
    and "r_space r' = r_space r"
proof -
  note ok = representsD [OF assms(3)]
  obtain n over where n: "over \<le> length (r_buf r)" "int over \<le> max 0 (evictable r)"
    and r': "r' = r\<lparr>r_start := r_start r + of_nat over,
               r_buf := drop over (r_buf r) @ take n (drop written p),
               r_notify := renew_chan (r_notify r)\<rparr>"
    using losslessPass_WroteE [OF assms(1,2)] ok(1) by (metis ring_okD(2))
  have "unat (r_start r') = unat (r_start r) + over"
    using ok(5,2) n(1) by (simp add: r' unat_u64_add_of_nat)
  moreover have "over \<le> unat (r_released r) - unat (r_start r)"
    using n(2) evictable_le_released [OF assms(4)] by (simp add: max_def split: if_splits)
  ultimately show "r_start r' \<le> r_released r'"
    using assms(4) by (simp add: word_le_nat_alt) (simp add: r')
  show "r_released r' = r_released r" "r_lossless r' = r_lossless r" "r_capacity r' = r_capacity r"
    "r_space r' = r_space r"
    by (simp_all add: r')
  show "\<not> r_closed r'"
    using assms(1) by (auto simp: r' losslessPass_def)
qed

text \<open>The ring of a lossless writer: it represents a log and has evicted confirmed bytes only.\<close>

definition lossless_rep :: "output_ring \<Rightarrow> byte list \<Rightarrow> bool" where
  "lossless_rep r log \<longleftrightarrow> represents r log \<and> r_lossless r \<and> r_start r \<le> r_released r"

lemma lossless_rep_setReleased [ring_inv_intros]:
  "lossless_rep r log \<Longrightarrow> lossless_rep (setReleased r off) log"
  by (auto simp: lossless_rep_def represents_setReleased le_max_iff_disj)

lemma lossless_rep_Close [ring_inv_intros]: "lossless_rep r log \<Longrightarrow> lossless_rep (Close r) log"
  by (auto simp: lossless_rep_def represents_Close)

lemma lossless_rep_new [ring_inv_intros]:
  "0 \<le> cap \<Longrightarrow> cap < 2 ^ 63 \<Longrightarrow> lossless_rep (setLossless (newOutputRing cap)) []"
  by (simp add: lossless_rep_def represents_setLossless represents_new) (simp add: newOutputRing_def)

lemma lossless_rep_pass [ring_inv_intros]:
  assumes "lossless_rep r log" and "losslessPass r p written = PassWrote r' written'"
    and "written < length p" and "length log + (written' - written) < 2 ^ 64"
  shows "lossless_rep r' (log @ take (written' - written) (drop written p))"
  using assms losslessPass_represents losslessPass_released unfolding lossless_rep_def by metis

lemma writeLossless_correct:
  assumes "lossless_rep r log" and "written \<le> length p"
    and "length log + (length p - written) < 2 ^ 64"
    and "writeLossless r p written = (r', written', out)"
  shows "written \<le> written' \<and> written' \<le> length p
    \<and> lossless_rep r' (log @ take (written' - written) (drop written p))
    \<and> r_released r' = r_released r \<and> r_capacity r' = r_capacity r \<and> r_space r' = r_space r
    \<and> (case out of WriteDone \<Rightarrow> written' = length p
       | WriteFailed _ \<Rightarrow> r_closed r'
       | WriteBlocked g \<Rightarrow> freeSpace r' \<le> 0 \<and> \<not> r_closed r' \<and> g = chan_gen (r_space r')
                         \<and> written' < length p)"
  using assms
proof (induction r p written arbitrary: log rule: writeLossless.induct)
  case (1 r p written)
  show ?case
  proof (cases "written < length p")
    case False
    then have "writeLossless r p written = (r, written, WriteDone)"
      by (simp add: writeLossless.simps)
    with False "1.prems" show ?thesis by auto
  next
    case True
    show ?thesis
    proof (cases "losslessPass r p written")
      case PassClosed
      then have "r_closed r"
        by (auto simp: losslessPass_def Let_def split: if_splits)
      moreover have "writeLossless r p written = (r, written, WriteFailed RingClosed)"
        using True PassClosed by (simp add: writeLossless.simps)
      ultimately show ?thesis
        using True "1.prems" by auto
    next
      case (PassWait g)
      then have "freeSpace r \<le> 0" "\<not> r_closed r" "g = chan_gen (r_space r)"
        by (auto simp: losslessPass_def Let_def split: if_splits)
      moreover have "writeLossless r p written = (r, written, WriteBlocked g)"
        using True PassWait by (simp add: writeLossless.simps)
      ultimately show ?thesis
        using True "1.prems" by auto
    next
      case (PassWrote r1 w1)
      note prog = losslessPass_progress [OF PassWrote True]
      let ?l1 = "log @ take (w1 - written) (drop written p)"
      have rep: "lossless_rep r1 ?l1"
        using "1.prems"(1,3) PassWrote True prog by (intro lossless_rep_pass) auto
      have rel: "r_released r1 = r_released r" "r_capacity r1 = r_capacity r" "r_space r1 = r_space r"
        using losslessPass_released [OF PassWrote True] "1.prems"(1) by (auto simp: lossless_rep_def)
      have run: "writeLossless r1 p w1 = (r', written', out)"
        using "1.prems"(4) True PassWrote by (simp add: writeLossless.simps [of r p written])
      have len: "length ?l1 + (length p - w1) < 2 ^ 64"
        using "1.prems"(3) prog by simp
      have split: "?l1 @ take (written' - w1) (drop w1 p) = log @ take (written' - written) (drop written p)"
        if "w1 \<le> written'"
        using prog that by (simp add: take_drop_split)
      show ?thesis
        using "1.IH" [OF True PassWrote rep prog(2) len run] prog(1) split rel by auto
    qed
  qed
qed

subsection \<open>Reads\<close>

lemma ReadAt_represents:
  assumes "represents r log"
  shows "ReadAt r offset =
    (let o' = max offset (r_start r) in
     if unat o' < length log then ReadData (drop (unat o') log) o'
     else if r_closed r then ReadEOF o' else ReadWait o' (chan_gen (r_notify r)))"
proof -
  note ok = representsD [OF assms]
  define o' where "o' = max offset (r_start r)"
  have o': "(if offset < r_start r then r_start r else offset) = o'"
    by (auto simp: o'_def max_def)
  have ge: "r_start r \<le> o'"
    by (simp add: o'_def)
  have lim: "o' < r_start r + of_nat (length (r_buf r)) \<longleftrightarrow> unat o' < length log"
    using EndOffset_represents [OF assms] by (simp add: EndOffset_def word_less_nat_alt)
  have "drop (unat (o' - r_start r)) (r_buf r) = drop (unat o') log"
    using ge ok(4) by (simp add: unat_u64_diff word_le_nat_alt)
  then show ?thesis
    using o' lim by (simp add: ReadAt_def Let_def o'_def [symmetric])
qed

subsection \<open>Interleavings of critical sections\<close>

text \<open>Any thread may run one critical section between two passes of a blocked method.\<close>

inductive ring_step :: "output_ring \<Rightarrow> output_ring \<Rightarrow> bool" where
  evict: "\<not> r_lossless r \<Longrightarrow> writeEvicting r p = (r', n, e) \<Longrightarrow> ring_step r r'"
| pass: "r_lossless r \<Longrightarrow> written < length p \<Longrightarrow> losslessPass r p written = PassWrote r' w
    \<Longrightarrow> ring_step r r'"
| release: "ring_step r (setReleased r off)"
| close: "ring_step r (Close r)"

lemma writeEvicting_closed: "r_closed r \<Longrightarrow> writeEvicting r p = (r, 0, Some RingClosed)"
  by (simp add: writeEvicting_def)

lemma writeEvicting_ok:
  assumes "ring_ok r" and "\<not> r_closed r" and "writeEvicting r p = (r', n, e)"
  obtains over where "r' = r\<lparr>r_start := r_start r + of_nat over, r_buf := drop over (r_buf r @ p),
       r_notify := renew_chan (r_notify r)\<rparr>"
    and "over = length (r_buf r) + length p - nat (r_capacity r)" and "n = length p" and "e = None"
proof -
  have "writeEvicting r p =
    (r\<lparr>r_start := r_start r + of_nat (length (r_buf r) + length p - nat (r_capacity r)),
       r_buf := drop (length (r_buf r) + length p - nat (r_capacity r)) (r_buf r @ p),
       r_notify := renew_chan (r_notify r)\<rparr>, length p, None)"
    using writeEvicting_open [OF assms(2)] ring_okD(1,2) [OF assms(1)] by blast
  then show ?thesis
    using assms(3) by (intro that [OF _ refl]) (simp_all only: prod.inject)
qed

lemma ring_ok_writeEvicting:
  assumes "ring_ok r" and w: "writeEvicting r p = (r', n, e)"
  shows "ring_ok r'"
proof (cases "r_closed r")
  case True
  with assms show ?thesis by (simp add: writeEvicting_closed)
next
  case False
  show ?thesis
    by (rule writeEvicting_ok [OF assms(1) False w]) (use assms(1) False in \<open>auto simp: ring_ok_def\<close>)
qed

lemma ring_ok_pass:
  assumes "ring_ok r" and "losslessPass r p written = PassWrote r' w" and "written < length p"
  shows "ring_ok r'"
proof -
  obtain n over where len: "w = written + n" "w \<le> length p" "over \<le> length (r_buf r)"
      "length (r_buf r) - over + n \<le> nat (r_capacity r)"
    and r': "r' = r\<lparr>r_start := r_start r + of_nat over,
               r_buf := drop over (r_buf r) @ take n (drop written p),
               r_notify := renew_chan (r_notify r)\<rparr>"
    using losslessPass_WroteE [OF assms(2,3)] assms(1) by (metis ring_okD(2))
  have "\<not> r_closed r"
    using assms(2) by (auto simp: losslessPass_def)
  then show ?thesis
    using assms(1) len by (auto simp: r' ring_ok_def)
qed

lemma ring_step_ok: "ring_step r r' \<Longrightarrow> ring_ok r \<Longrightarrow> ring_ok r'"
  by (induction rule: ring_step.induct)
     (auto dest: ring_ok_writeEvicting ring_ok_pass intro: ring_inv_intros)

lemma ring_steps_ok: "ring_step\<^sup>*\<^sup>* r r' \<Longrightarrow> ring_ok r \<Longrightarrow> ring_ok r'"
  by (induction rule: rtranclp_induct) (auto dest: ring_step_ok)

text \<open>
  A step that leaves a wake-up channel in its generation and open leaves alone what the waiters on
  that channel look at.
\<close>

lemma ring_step_notify:
  assumes "ring_step r r'" and "ring_ok r"
  shows "chan_gen (r_notify r) \<le> chan_gen (r_notify r')" and "r_closed r \<Longrightarrow> r_closed r'"
    and "chan_gen (r_notify r') = chan_gen (r_notify r) \<Longrightarrow> r_buf r' = r_buf r \<and> r_start r' = r_start r"
proof -
  have "chan_gen (r_notify r) \<le> chan_gen (r_notify r') \<and> (r_closed r \<longrightarrow> r_closed r') \<and>
    (chan_gen (r_notify r') = chan_gen (r_notify r) \<longrightarrow> r_buf r' = r_buf r \<and> r_start r' = r_start r)"
    using assms
  proof (cases rule: ring_step.cases)
    case (evict p n e)
    show ?thesis
    proof (cases "r_closed r")
      case True
      with evict show ?thesis by (simp add: writeEvicting_closed)
    next
      case False
      show ?thesis
        by (rule writeEvicting_ok [OF assms(2) False evict(2)])
           (use assms(2) False in \<open>auto simp: ring_ok_def\<close>)
    qed
  next
    case (pass written p w)
    have "\<not> r_closed r"
      using pass by (auto simp: losslessPass_def)
    moreover obtain n over where "r' = r\<lparr>r_start := r_start r + of_nat over,
               r_buf := drop over (r_buf r) @ take n (drop written p),
               r_notify := renew_chan (r_notify r)\<rparr>"
      using losslessPass_WroteE [OF pass(3,2)] assms(2) by (metis ring_okD(2))
    ultimately show ?thesis
      using assms(2) by (auto simp: ring_ok_def)
  next
    case (release off)
    then show ?thesis by simp
  next
    case close
    then show ?thesis by (auto simp: Close_def)
  qed
  then show "chan_gen (r_notify r) \<le> chan_gen (r_notify r')" and "r_closed r \<Longrightarrow> r_closed r'"
    and "chan_gen (r_notify r') = chan_gen (r_notify r) \<Longrightarrow> r_buf r' = r_buf r \<and> r_start r' = r_start r"
    by auto
qed

lemma ring_steps_notify:
  assumes "ring_step\<^sup>*\<^sup>* r r'" and "ring_ok r"
  shows "chan_gen (r_notify r) \<le> chan_gen (r_notify r')
    \<and> (chan_gen (r_notify r') = chan_gen (r_notify r) \<longrightarrow> r_buf r' = r_buf r \<and> r_start r' = r_start r)"
  using assms
proof (induction rule: rtranclp_induct)
  case base
  then show ?case by simp
next
  case (step y z)
  have "ring_ok y"
    using step by (blast intro: ring_steps_ok)
  from ring_step_notify [OF step(2) this] step show ?case
    by auto
qed

lemma reader_no_lost_wakeup:
  assumes "ring_ok r" and "ReadAt r offset = ReadWait o' g" and "ring_step\<^sup>*\<^sup>* r r'"
    and "\<not> woken (r_notify r') g"
  shows "ReadAt r' o' = ReadWait o' g"
proof -
  have ok': "ring_ok r'"
    using assms by (blast intro: ring_steps_ok)
  have g: "g = chan_gen (r_notify r)" "\<not> r_start r + of_nat (length (r_buf r)) > o'" "\<not> o' < r_start r"
    using assms(2) by (auto simp: ReadAt_def Let_def split: if_splits)
  with ring_steps_notify [OF assms(3,1)] assms(4)
  have "chan_gen (r_notify r') = g" "r_buf r' = r_buf r" "r_start r' = r_start r"
    by (auto simp: woken_def)
  moreover have "\<not> r_closed r'"
    using assms(4) calculation ok' by (auto simp: woken_def ring_ok_def)
  ultimately show ?thesis
    using g by (auto simp: ReadAt_def Let_def)
qed

text \<open>A blocked lossless writer: nothing but a release or a close can change the ring it waits on.\<close>

lemma losslessPass_wait_iff:
  "losslessPass r p written = PassWait g \<longleftrightarrow>
     \<not> r_closed r \<and> freeSpace r \<le> 0 \<and> g = chan_gen (r_space r)"
  by (cases "r_closed r"; cases "freeSpace r \<le> 0") (auto simp: losslessPass_def Let_def)

lemma losslessPass_no_space: "freeSpace r \<le> 0 \<Longrightarrow> losslessPass r p written \<noteq> PassWrote r' w"
  by (cases "r_closed r") (auto simp: losslessPass_def Let_def)

lemma ring_step_blocked:
  assumes "ring_step r r'" and "r_lossless r" and "freeSpace r \<le> 0"
  obtains off where "r' = setReleased r off" | "r' = Close r"
  using assms by (cases rule: ring_step.cases) (auto simp: losslessPass_no_space)

lemma setReleased_space:
  assumes "ring_ok r" and "\<not> r_closed r" and "setReleased r off \<noteq> r"
  shows "chan_gen (r_space (setReleased r off)) = Suc (chan_gen (r_space r))"
  using assms by (cases "off \<le> r_released r") (simp_all add: setReleased_def Let_def ring_ok_def)

lemma Close_space: "ring_ok r \<Longrightarrow> \<not> r_closed r \<Longrightarrow> woken (r_space (Close r)) (chan_gen (r_space r))"
  by (simp add: Close_def woken_def ring_ok_def)

lemma woken_step:
  assumes "ring_step r r'" and "ring_ok r" and "woken (r_space r) g"
  shows "woken (r_space r') g"
  using assms(1)
proof (cases rule: ring_step.cases)
  case (evict p n e)
  have "r_space r' = r_space r"
  proof (cases "r_closed r")
    case True
    with evict show ?thesis by (simp add: writeEvicting_closed)
  next
    case False
    show ?thesis by (rule writeEvicting_ok [OF assms(2) False evict(2)]) simp
  qed
  with assms(3) show ?thesis by simp
next
  case (pass written p w)
  have "r_space r' = r_space r"
    by (rule losslessPass_WroteE [OF pass(3,2) ring_okD(2) [OF assms(2)]]) simp
  with assms(3) show ?thesis by simp
next
  case (release off)
  then show ?thesis
    using assms(2,3) by (cases "r_closed r") (auto simp: setReleased_def Let_def woken_def ring_ok_def)
next
  case close
  then show ?thesis
    using assms(2,3) by (auto simp: Close_def woken_def ring_ok_def)
qed

lemma writer_no_lost_wakeup:
  assumes "ring_ok r" and "r_lossless r" and "losslessPass r p written = PassWait g"
    and "ring_step\<^sup>*\<^sup>* r r'"
  shows "woken (r_space r') g \<or> r' = r"
  using assms(4)
proof (induction rule: rtranclp_induct)
  case base
  show ?case by simp
next
  case (step y z)
  have g: "\<not> r_closed r" "freeSpace r \<le> 0" "g = chan_gen (r_space r)"
    using assms(3) by (auto simp: losslessPass_wait_iff)
  show ?case
  proof (cases "y = r")
    case True
    show ?thesis
    proof (rule ring_step_blocked [OF step(2) [unfolded True] assms(2) g(2)])
      fix off assume "z = setReleased r off"
      then show ?thesis
        using setReleased_space [OF assms(1) g(1), of off] g(3) by (auto simp: woken_def)
    next
      assume "z = Close r"
      then show ?thesis
        using Close_space [OF assms(1) g(1)] g(3) by simp
    qed
  next
    case False
    with step have "woken (r_space y) g" by simp
    moreover have "ring_ok y"
      using step(1) assms(1) by (rule ring_steps_ok)
    ultimately show ?thesis
      using woken_step [OF step(2)] by blast
  qed
qed

subsection \<open>Confirmations and blocked writers\<close>

lemma evictable_small:
  assumes "r_start r < r_released r" and "unat (r_released r) - unat (r_start r) < 2 ^ 63"
  shows "evictable r = int (min (unat (r_released r) - unat (r_start r)) (length (r_buf r)))"
proof -
  have "unat (r_released r - r_start r) = unat (r_released r) - unat (r_start r)"
    using assms(1) by (intro unat_u64_diff) simp
  then have "int_of_u64 (r_released r - r_start r) = int (unat (r_released r) - unat (r_start r))"
    using assms(2) int_of_u64_small by metis
  then show ?thesis
    using assms(1) by (simp add: evictable_def of_nat_min)
qed

lemma represents_diff_small:
  assumes "represents r log" and "unat off \<le> length log"
  shows "unat off - unat (r_start r) \<le> length (r_buf r)"
    and "unat off - unat (r_start r) < 2 ^ 63"
proof -
  note ok = representsD [OF assms(1)]
  show "unat off - unat (r_start r) \<le> length (r_buf r)"
    using ok(5) assms(2) by simp
  moreover have "int (length (r_buf r)) < 2 ^ 63"
    using ok(1) by (auto simp: ring_ok_def)
  then have "length (r_buf r) < 2 ^ 63"
    by (metis of_nat_less_numeral_power_cancel_iff)
  ultimately show "unat off - unat (r_start r) < 2 ^ 63"
    by simp
qed

lemma blocked_released:
  assumes "represents r log" and "unat (r_released r) \<le> length log" and "freeSpace r \<le> 0"
    and "r_buf r \<noteq> []"
  shows "r_released r \<le> r_start r"
proof (rule ccontr)
  assume "\<not> r_released r \<le> r_start r"
  then have less: "r_start r < r_released r" by simp
  then have "0 < unat (r_released r) - unat (r_start r)"
    by (simp add: word_less_nat_alt)
  then have "evictable r > 0"
    using evictable_small [OF less represents_diff_small(2) [OF assms(1,2)]] assms(4) by simp
  with assms(3) representsD(1) [OF assms(1)] show False
    by (simp add: freeSpace_def ring_ok_def)
qed

lemma confirm_frees_space:
  assumes "represents r log" and "r_start r < r_released r" and "unat (r_released r) \<le> length log"
  shows "0 < freeSpace r"
proof -
  have "0 < unat (r_released r) - unat (r_start r)"
    using assms(2) by (simp add: word_less_nat_alt)
  moreover have "0 < length (r_buf r)"
    using represents_diff_small(1) [OF assms(1,3)] calculation by linarith
  ultimately have "evictable r > 0"
    using evictable_small [OF assms(2) represents_diff_small(2) [OF assms(1,3)]] by simp
  with representsD(1) [OF assms(1)] show ?thesis
    by (simp add: freeSpace_def ring_ok_def)
qed

lemma losslessPass_writes:
  assumes "\<not> r_closed r" and "0 < freeSpace r"
  obtains r' w where "losslessPass r p written = PassWrote r' w"
  using assms by (auto simp: losslessPass_def Let_def)

text \<open>
  An acknowledgement \<open>2 ^ 63\<close> bytes past the start of the ring makes \<^verbatim>\<open>int(r.released-r.start)\<close>
  negative, and the writer's space with it.
\<close>

definition over_acked :: "output_ring \<Rightarrow> bool" where
  "over_acked r \<longleftrightarrow> ring_ok r \<and> r_lossless r \<and> int (length (r_buf r)) = r_capacity r
     \<and> unat (r_start r) + 2 ^ 63 \<le> unat (r_released r)"

lemma over_acked_blocked:
  assumes "over_acked r"
  shows "freeSpace r \<le> 0"
proof -
  have "r_start r \<le> r_released r" "2 ^ 63 \<le> unat (r_released r) - unat (r_start r)"
    using assms by (auto simp: over_acked_def word_le_nat_alt)
  then have "int_of_u64 (r_released r - r_start r) < 0"
    by (metis int_of_u64_large unat_u64_diff)
  then have "evictable r \<le> 0"
    by (simp add: evictable_def)
  then show ?thesis
    using assms by (simp add: freeSpace_def over_acked_def)
qed

lemma over_acked_steps:
  assumes "ring_step\<^sup>*\<^sup>* r r'" and "over_acked r"
  shows "over_acked r'"
  using assms
proof (induction rule: rtranclp_induct)
  case base
  then show ?case .
next
  case (step y z)
  then have y: "over_acked y" by simp
  then have l: "r_lossless y" "ring_ok z"
    using ring_step_ok [OF step(2)] by (auto simp: over_acked_def)
  show ?case
    by (rule ring_step_blocked [OF step(2) l(1) over_acked_blocked [OF y]])
       (use y l(2) in \<open>auto simp: over_acked_def unat_u64_max\<close>)
qed

subsection \<open>The ring as a replay buffer\<close>

text \<open>
  A ring that represents a log and always retains some of it, as every ring of positive capacity
  does; and one append to it, by an evicting write or by one pass of a lossless one.
\<close>

definition streams :: "output_ring \<Rightarrow> byte list \<Rightarrow> bool" where
  "streams r log \<longleftrightarrow> represents r log \<and> 0 < r_capacity r \<and> (log \<noteq> [] \<longrightarrow> r_buf r \<noteq> [])"

definition lossless_streams :: "output_ring \<Rightarrow> byte list \<Rightarrow> bool" where
  "lossless_streams r log \<longleftrightarrow> streams r log \<and> r_lossless r \<and> r_start r \<le> r_released r"

inductive ring_appends :: "output_ring \<Rightarrow> byte list \<Rightarrow> output_ring \<Rightarrow> bool" where
  evicting: "\<not> r_lossless r \<Longrightarrow> \<not> r_closed r \<Longrightarrow> writeEvicting r d = (r', n, None) \<Longrightarrow> ring_appends r d r'"
| lossless: "r_lossless r \<Longrightarrow> written < length p \<Longrightarrow> losslessPass r p written = PassWrote r' w \<Longrightarrow>
    d = take (w - written) (drop written p) \<Longrightarrow> ring_appends r d r'"

lemma ring_appends_open: "ring_appends r d r' \<Longrightarrow> \<not> r_closed r"
  by (induction rule: ring_appends.induct) (auto simp: losslessPass_def split: if_splits)

lemma ring_appends_step: "ring_appends r d r' \<Longrightarrow> ring_step r r'"
  by (induction rule: ring_appends.induct) (auto intro: ring_step.evict ring_step.pass)

text \<open>
  The laws a reader relies on, over any buffer that represents a log: a read returns what is
  retained at or after the offset, and an end only when the whole log has been read.
\<close>

locale replay_buffer =
  fixes rep :: "'r \<Rightarrow> byte list \<Rightarrow> bool"
    and start_of :: "'r \<Rightarrow> u64"
    and closed_of :: "'r \<Rightarrow> bool"
    and read_at :: "'r \<Rightarrow> u64 \<Rightarrow> read_outcome"
    and confirm :: "'r \<Rightarrow> u64 \<Rightarrow> 'r"
  assumes rep_length: "rep r log \<Longrightarrow> length log < 2 ^ 64"
    and start_le: "rep r log \<Longrightarrow> unat (start_of r) \<le> length log"
    and start_less: "rep r log \<Longrightarrow> log \<noteq> [] \<Longrightarrow> unat (start_of r) < length log"
    and read_data: "rep r log \<Longrightarrow> read_at r off = ReadData d o' \<Longrightarrow>
      o' = max off (start_of r) \<and> d = drop (unat o') log"
    and read_eof: "rep r log \<Longrightarrow> read_at r off = ReadEOF o' \<Longrightarrow>
      closed_of r \<and> length log \<le> unat (max off (start_of r))"
    and confirm_rep: "rep r log \<Longrightarrow> rep (confirm r off) log"
    and confirm_start: "start_of (confirm r off) = start_of r"
begin

lemma read_next:
  assumes "rep r log" and "read_at r off = ReadData d off" and "unat off \<le> length log"
  shows "d = drop (unat off) log" and "unat (off + of_nat (length d)) = unat off + length d"
    and "unat off + length d = length log"
proof -
  show d: "d = drop (unat off) log"
    using read_data [OF assms(1,2)] by simp
  then show "unat off + length d = length log"
    using assms(3) by simp
  then show "unat (off + of_nat (length d)) = unat off + length d"
    using rep_length [OF assms(1)] by (simp add: unat_u64_add_of_nat)
qed

lemma read_end:
  assumes "rep r log" and "read_at r off = ReadEOF o'" and "unat off \<le> length log"
  shows "closed_of r" and "unat off = length log"
proof -
  show "closed_of r"
    using read_eof [OF assms(1,2)] by simp
  have "length log \<le> max (unat off) (unat (start_of r))"
    using read_eof [OF assms(1,2)] by (simp add: unat_u64_max)
  then show "unat off = length log"
    using assms(3) start_less [OF assms(1)] by (cases "log = []") auto
qed

lemma replay_from:
  assumes "rep r log" and "unat off \<le> length log"
  shows "off \<le> max off (start_of (confirm r off))" and "unat (max off (start_of (confirm r off))) \<le> length log"
  using assms start_le [OF assms(1)] by (simp_all add: confirm_start unat_u64_max)

end

text \<open>
  The further laws of a buffer that frees only what has been confirmed: a reader whose offset has
  reached every confirmation is never outrun and resumes exactly where it was.
\<close>

locale lossless_buffer = replay_buffer +
  fixes released_of :: "'a \<Rightarrow> u64"
  assumes start_released: "rep r log \<Longrightarrow> start_of r \<le> released_of r"
    and confirm_released: "released_of (confirm r off) = max (released_of r) off"
begin

lemma read_not_outrun:
  assumes "rep r log" and "released_of r \<le> off" and "read_at r off = ReadData d o'"
  shows "o' = off"
  using read_data [OF assms(1,3)] start_released [OF assms(1)] assms(2) by (auto simp: max_def)

lemma replay_exact:
  assumes "rep r log" and "released_of r \<le> off"
  shows "max off (start_of (confirm r off)) = off"
  using start_released [OF assms(1)] assms(2) by (auto simp: confirm_start max_def)

lemma confirm_bound:
  assumes "released_of r \<le> bound" and "off \<le> bound"
  shows "released_of (confirm r off) \<le> bound"
  using assms by (simp add: confirm_released)

end

lemma streamsD:
  assumes "streams r log"
  shows "represents r log" and "0 < r_capacity r" and "log \<noteq> [] \<Longrightarrow> r_buf r \<noteq> []"
  using assms by (auto simp: streams_def)

lemma ReadAt_Data:
  assumes "represents r log" and "ReadAt r off = ReadData d o'"
  shows "o' = max off (r_start r) \<and> d = drop (unat o') log"
  using assms ReadAt_represents [OF assms(1), of off] by (auto simp: Let_def split: if_splits)

lemma ReadAt_EOF:
  assumes "represents r log" and "ReadAt r off = ReadEOF o'"
  shows "r_closed r \<and> length log \<le> unat (max off (r_start r))"
  using assms ReadAt_represents [OF assms(1), of off] by (auto simp: Let_def split: if_splits)

lemma streams_setReleased [ring_inv_intros]: "streams r log \<Longrightarrow> streams (setReleased r off) log"
  by (simp add: streams_def represents_setReleased)

lemma streams_Close [ring_inv_intros]: "streams r log \<Longrightarrow> streams (Close r) log"
  by (simp add: streams_def represents_Close)

interpretation ring: replay_buffer streams r_start r_closed ReadAt setReleased
proof
  fix r log off d o'
  show "streams r log \<Longrightarrow> length log < 2 ^ 64" "streams r log \<Longrightarrow> unat (r_start r) \<le> length log"
    "streams r log \<Longrightarrow> log \<noteq> [] \<Longrightarrow> unat (r_start r) < length log"
    by (auto simp: streams_def represents_def)
  show "streams r log \<Longrightarrow> ReadAt r off = ReadData d o' \<Longrightarrow> o' = max off (r_start r) \<and> d = drop (unat o') log"
    by (rule ReadAt_Data [OF streamsD(1)])
  show "streams r log \<Longrightarrow> ReadAt r off = ReadEOF o' \<Longrightarrow> r_closed r \<and> length log \<le> unat (max off (r_start r))"
    by (rule ReadAt_EOF [OF streamsD(1)])
qed (simp_all add: streams_setReleased)

interpretation lossless_ring: lossless_buffer lossless_streams r_start r_closed ReadAt setReleased r_released
proof
  fix r log off d o'
  show "lossless_streams r log \<Longrightarrow> length log < 2 ^ 64"
    using ring.rep_length [of r log] by (simp add: lossless_streams_def)
  show "lossless_streams r log \<Longrightarrow> ReadAt r off = ReadData d o' \<Longrightarrow> o' = max off (r_start r) \<and> d = drop (unat o') log"
    by (rule ring.read_data) (simp add: lossless_streams_def)
  show "lossless_streams r log \<Longrightarrow> ReadAt r off = ReadEOF o' \<Longrightarrow> r_closed r \<and> length log \<le> unat (max off (r_start r))"
    by (rule ring.read_eof) (simp add: lossless_streams_def)
qed (auto simp: lossless_streams_def streams_setReleased le_max_iff_disj ring.start_le ring.start_less)

lemma streams_append:
  assumes "ring_appends r d r'" and "streams r log" and "length log + length d < 2 ^ 64"
  shows "streams r' (log @ d)"
  using assms
proof (induction rule: ring_appends.induct)
  case (evicting r d r' n)
  note s = streamsD [OF evicting(4)]
  obtain r1 where r1: "writeEvicting r d = (r1, length d, None)" "represents r1 (log @ d)" "r_capacity r1 = r_capacity r"
    using writeEvicting_represents [OF s(1) evicting(2,5)] by metis
  have "r_buf r' = drop (length (r_buf r) + length d - nat (r_capacity r)) (r_buf r @ d)"
    using evicting(3) s(1,2) evicting(2)
    by (subst (asm) writeEvicting_open) (auto simp: represents_def ring_ok_def)
  moreover have "length (r_buf r) + length d - nat (r_capacity r) < length (r_buf r @ d)" if "log @ d \<noteq> []"
    using s that by (cases "d = []") auto
  ultimately have "log @ d \<noteq> [] \<Longrightarrow> r_buf r' \<noteq> []"
    by (metis drop_eq_Nil linorder_not_le)
  then show ?case
    using r1 evicting(3) s(2) by (simp add: streams_def)
next
  case (lossless r written p r' w d)
  note s = streamsD [OF lossless(5)]
  have ok: "int (length (r_buf r)) \<le> r_capacity r"
    using representsD(1) [OF s(1)] by (rule ring_okD(2))
  have prog: "written < w" "w \<le> length p"
    using losslessPass_progress [OF lossless(3,2)] .
  have buf: "r_buf r' \<noteq> []" "r_capacity r' = r_capacity r"
    by (rule losslessPass_WroteE [OF lossless(3,2) ok], use prog lossless(2) in auto)+
  have "length log + (w - written) < 2 ^ 64"
    using lossless(4,6) prog by simp
  then have "represents r' (log @ d)"
    unfolding lossless(4) by (rule losslessPass_represents [OF s(1) lossless(3,2)])
  then show ?case
    using buf s(2) by (simp add: streams_def)
qed

lemma ring_appends_released:
  assumes "ring_appends r d r'"
  shows "r_released r' = r_released r" and "r_lossless r' = r_lossless r" and "r_closed r' = r_closed r"
    and "r_capacity r' = r_capacity r"
  using assms
  by (induction rule: ring_appends.induct)
     (auto simp: writeEvicting_def losslessPass_def Let_def split: if_splits)

lemma lossless_streams_append [ring_inv_intros]:
  assumes "ring_appends r d r'" and "lossless_streams r log" and "length log + length d < 2 ^ 64"
  shows "lossless_streams r' (log @ d)"
proof -
  have s: "streams r log" "r_lossless r" "r_start r \<le> r_released r"
    using assms(2) by (auto simp: lossless_streams_def)
  obtain p written w where pass: "losslessPass r p written = PassWrote r' w" "written < length p"
    using assms(1) s(2) by (auto elim: ring_appends.cases)
  have "r_start r' \<le> r_released r'"
    using losslessPass_released(1) [OF pass streamsD(1) [OF s(1)] s(3)] .
  then show ?thesis
    using streams_append [OF assms(1) s(1) assms(3)] ring_appends_released(2) [OF assms(1)] s(2)
    by (simp add: lossless_streams_def)
qed

lemma lossless_streams_setReleased [ring_inv_intros]:
  "lossless_streams r log \<Longrightarrow> lossless_streams (setReleased r off) log"
  by (rule lossless_ring.confirm_rep)

lemma lossless_streams_Close [ring_inv_intros]: "lossless_streams r log \<Longrightarrow> lossless_streams (Close r) log"
  by (simp add: lossless_streams_def streams_Close)

lemma streams_new [ring_inv_intros]: "0 < cap \<Longrightarrow> cap < 2 ^ 63 \<Longrightarrow> streams (newOutputRing cap) []"
  by (simp add: streams_def represents_new) (simp add: newOutputRing_def)

lemma streams_setLossless [ring_inv_intros]: "streams r log \<Longrightarrow> streams (setLossless r) log"
  unfolding streams_def by (simp add: represents_setLossless)

lemma lossless_streams_new [ring_inv_intros]:
  "0 < cap \<Longrightarrow> cap < 2 ^ 63 \<Longrightarrow> lossless_streams (setLossless (newOutputRing cap)) []"
  by (simp add: lossless_streams_def streams_setLossless streams_new) (simp add: newOutputRing_def)

subsection \<open>Properties\<close>

text \<open>The sequence of writes a drain makes to a ring that is not lossless.\<close>

lemma evicting_writes:
  assumes "represents r log" and "\<not> r_closed r" and "retains_tail r log" and "length log + length (concat ps) < 2 ^ 64"
  defines "r' \<equiv> foldl (\<lambda>r p. fst (writeEvicting r p)) r ps"
  shows "represents r' (log @ concat ps) \<and> retains_tail r' (log @ concat ps) \<and> r_capacity r' = r_capacity r"
  using assms(1-4) unfolding r'_def
proof (induction ps arbitrary: r log)
  case (Cons p ps)
  have "length log + length p < 2 ^ 64"
    using Cons.prems(4) by simp
  from writeEvicting_represents [OF Cons.prems(1,2) this] obtain r1
    where r1: "writeEvicting r p = (r1, length p, None)" "represents r1 (log @ p)" "\<not> r_closed r1"
      "r_capacity r1 = r_capacity r" by metis
  have "retains_tail r1 (log @ p)"
    using writeEvicting_retains_tail [OF Cons.prems(1-3), of p] r1(1) by simp
  then show ?case
    using Cons.IH [OF r1(2,3)] Cons.prems(4) r1(1,4) by simp
qed simp

text \<open>
  C5. A ring that is not lossless keeps exactly the end of what was written. After any sequence of
  writes to a fresh ring, its buffer is the last \<^verbatim>\<open>capacity\<close> bytes of everything written, and its
  offsets are the true positions of that buffer in the whole output.
\<close>

theorem evicting_ring_is_tail:
  assumes "0 \<le> cap" and "cap < 2 ^ 63" and "length (concat ps) < 2 ^ 64"
  shows "let r = foldl (\<lambda>r p. fst (writeEvicting r p)) (newOutputRing cap) ps; log = concat ps in
    r_buf r = drop (length log - nat cap) log \<and> unat (StartOffset r) = length log - nat cap
    \<and> unat (EndOffset r) = length log \<and> RetainedBytes r = int (min (length log) (nat cap))"
proof -
  let ?r = "foldl (\<lambda>r p. fst (writeEvicting r p)) (newOutputRing cap) ps"
  have new: "retains_tail (newOutputRing cap) []" "\<not> r_closed (newOutputRing cap)"
    by (simp_all add: retains_tail_def newOutputRing_def)
  have r: "represents ?r (concat ps)" "retains_tail ?r (concat ps)" "r_capacity ?r = cap"
    using evicting_writes [OF represents_new [OF assms(1,2)] new(2,1), of ps] assms(3)
    by (simp_all add: newOutputRing_def)
  have buf: "r_buf ?r = drop (length (concat ps) - nat cap) (concat ps)"
    using r(2,3) by (simp add: retains_tail_def)
  then have "unat (r_start ?r) = length (concat ps) - nat cap"
    using representsD(5) [OF r(1)] by simp
  then show ?thesis
    using buf EndOffset_represents [OF r(1)] by (simp add: Let_def StartOffset_def RetainedBytes_def)
qed

theorem evicting_ring_is_tail_witness:
  "let r = foldl (\<lambda>r p. fst (writeEvicting r p)) (newOutputRing 2) [[1, 2], [3 :: byte]] in
    r_buf r = [2, 3] \<and> unat (EndOffset r) = 3"
  using evicting_ring_is_tail [of 2 "[[1, 2], [3]]"] by (simp add: Let_def)



text \<open>
  A read returns the retained part of the log from the offset on. It starts at the first retained
  byte when the offset has been evicted, reports the end only on a closed ring, and otherwise waits
  on the channel the next write or close will close.
\<close>

theorem read_returns_the_log:
  assumes "represents r log"
  shows "ReadAt r offset =
    (let from = max offset (r_start r) in
     if unat from < length log then ReadData (drop (unat from) log) from
     else if r_closed r then ReadEOF from else ReadWait from (chan_gen (r_notify r)))"
  using ReadAt_represents [OF assms] by simp

text \<open>
  C21. No wake-up is lost. However critical sections
  of other threads interleave after a reader or a lossless writer decided to wait, as long as the
  channel it waits on has not been closed, a reader that looked again would still find nothing and a
  writer's ring is unchanged.
\<close>

theorem no_lost_wakeups:
  assumes "ring_ok r" and "ring_step\<^sup>*\<^sup>* r r'"
  shows "(ReadAt r offset = ReadWait from g \<and> \<not> woken (r_notify r') g \<longrightarrow> ReadAt r' from = ReadWait from g)
    \<and> (r_lossless r \<and> losslessPass r p written = PassWait h \<and> \<not> woken (r_space r') h \<longrightarrow> r' = r)"
  using reader_no_lost_wakeup [OF assms(1) _ assms(2)] writer_no_lost_wakeup [OF assms(1) _ _ assms(2)] by blast

theorem no_lost_wakeups_witness:
  "ReadAt (newOutputRing 2) 0 = ReadWait 0 0 \<and> ReadAt (setReleased (newOutputRing 2) 1) 0 = ReadWait 0 0"
proof -
  let ?r = "newOutputRing 2"
  have ok: "ring_ok ?r" and step: "ring_step\<^sup>*\<^sup>* ?r (setReleased ?r 1)" and wait: "ReadAt ?r 0 = ReadWait 0 0"
    using ring_step.release [of ?r 1]
    by (auto simp: ring_ok_def newOutputRing_def make_chan_def ReadAt_def)
  have "\<not> woken (r_notify (setReleased ?r 1)) 0"
    by (simp add: newOutputRing_def make_chan_def woken_def)
  with no_lost_wakeups [OF ok step, of 0 0 0] wait show ?thesis by blast
qed

text \<open>
  C24. A ring's channels are never closed twice. In every state reachable from a fresh ring by any
  interleaving of writes, confirmations and closes, both channels are open while the ring is open
  and closed exactly once with it, so no operation panics, and the buffer never exceeds its capacity.
\<close>

theorem ring_channels_never_panic:
  assumes "0 \<le> cap" and "cap < 2 ^ 63"
    and "ring_step\<^sup>*\<^sup>* (newOutputRing cap) r \<or> ring_step\<^sup>*\<^sup>* (setLossless (newOutputRing cap)) r"
  shows "chan_state (r_notify r) = (if r_closed r then Closed else Open)
    \<and> chan_state (r_space r) = (if r_closed r then Closed else Open)
    \<and> RetainedBytes r \<le> r_capacity r"
proof -
  have "ring_ok r"
    using assms(3) ring_steps_ok ring_ok_new [OF assms(1,2)] ring_ok_setLossless by blast
  then show ?thesis
    by (simp add: ring_okD RetainedBytes_def)
qed

theorem ring_channels_never_panic_witness:
  "chan_state (r_notify (Close (Close (newOutputRing 2)))) = Closed"
proof -
  have "ring_step\<^sup>*\<^sup>* (newOutputRing 2) (Close (Close (newOutputRing 2)))"
    by (meson ring_step.close rtranclp.rtrancl_into_rtrancl rtranclp.rtrancl_refl)
  then show ?thesis
    using ring_channels_never_panic [of 2 "Close (Close (newOutputRing 2))"] by simp
qed

text \<open>
  C22. A confirmation resumes a blocked writer. If a lossless writer waits for space and the client
  confirms any byte the ring still retains, the writer's channel is closed and its next pass writes
  at least one byte.
\<close>

theorem confirmation_resumes_writer:
  assumes "represents r log" and "r_lossless r" and "unat (r_released r) \<le> length log"
    and "losslessPass r p written = PassWait g" and "written < length p"
    and "r_start r < off" and "unat off \<le> length log"
  shows "woken (r_space (setReleased r off)) g
    \<and> (\<exists>r' w. losslessPass (setReleased r off) p written = PassWrote r' w \<and> written < w)"
proof -
  have wait: "\<not> r_closed r" "freeSpace r \<le> 0" "g = chan_gen (r_space r)"
    using assms(4) by (auto simp: losslessPass_def Let_def split: if_splits)
  have "r_buf r \<noteq> []"
    using represents_diff_small(1) [OF assms(1,7)] assms(6) by (auto simp: word_less_nat_alt)
  then have "r_released r \<le> r_start r"
    by (rule blocked_released [OF assms(1,3) wait(2)])
  then have rel: "r_released r < off" "r_released (setReleased r off) = off"
    using assms(6) by (auto simp: max_def)
  have wake: "woken (r_space (setReleased r off)) g"
    using rel(1) wait(1,3) representsD(1) [OF assms(1)]
    by (simp add: setReleased_def Let_def woken_def ring_ok_def)
  have "0 < freeSpace (setReleased r off)"
    using assms(6,7) rel(2) by (intro confirm_frees_space [OF represents_setReleased [OF assms(1)]]) simp_all
  moreover have "\<not> r_closed (setReleased r off)"
    using wait(1) by simp
  ultimately obtain r' w where "losslessPass (setReleased r off) p written = PassWrote r' w"
    using losslessPass_writes by metis
  with wake show ?thesis
    using losslessPass_progress(1) [OF _ assms(5)] by blast
qed

theorem confirmation_resumes_writer_witness:
  "\<exists>r g. losslessPass r [1, 2] 1 = PassWait g \<and> woken (r_space (setReleased r 1)) g"
proof -
  let ?r = "(setLossless (newOutputRing 1))\<lparr>r_buf := [1], r_notify := WakeChan 1 Open\<rparr>"
  have rep: "represents ?r [1]" and l: "r_lossless ?r"
    and wait: "losslessPass ?r [1, 2] 1 = PassWait 0"
    by (simp_all add: represents_def ring_ok_def setLossless_def newOutputRing_def make_chan_def
        losslessPass_def freeSpace_def evictable_def)
  have "woken (r_space (setReleased ?r 1)) 0"
    using confirmation_resumes_writer [OF rep l _ wait, of 1]
    by (simp add: setLossless_def newOutputRing_def)
  with wait show ?thesis by blast
qed

text \<open>
  A confirmation far beyond the output blocks a lossless writer for good. Once the ring is full
  and the confirmed offset is \<open>2 ^ 63\<close> or more above its start, no later confirmation and no
  interleaving makes room: every pass of an open ring waits.
\<close>

theorem excessive_confirmation_blocks_forever:
  assumes "over_acked r" and "ring_step\<^sup>*\<^sup>* r r'" and "\<not> r_closed r'"
  shows "\<exists>g. losslessPass r' p written = PassWait g"
  using over_acked_blocked [OF over_acked_steps [OF assms(2,1)]] assms(3) by (simp add: losslessPass_def)

end
