(* ===== verification/GoStrings.thy ===== *)
theory GoStrings
  imports Prelude
begin

text \<open>
  The part of Go's \<^verbatim>\<open>strings\<close>, \<^verbatim>\<open>strconv\<close> and \<^verbatim>\<open>encoding/hex\<close> packages the program uses. A Go
  string is a sequence of bytes, here a list of characters. Case conversion and white space are
  those of the ASCII range; other bytes are left as they are.
\<close>

subsection \<open>Prefixes, separators and white space\<close>

definition HasPrefix :: "string \<Rightarrow> string \<Rightarrow> bool" where
  [go_defs]: "HasPrefix s p \<longleftrightarrow> prefix p s"

definition HasSuffix :: "string \<Rightarrow> string \<Rightarrow> bool" where
  [go_defs]: "HasSuffix s p \<longleftrightarrow> prefix (rev p) (rev s)"

definition TrimPrefix :: "string \<Rightarrow> string \<Rightarrow> string" where
  "TrimPrefix s p = (if HasPrefix s p then drop (length p) s else s)"

definition TrimSuffix :: "string \<Rightarrow> string \<Rightarrow> string" where
  "TrimSuffix s p = (if HasSuffix s p then take (length s - length p) s else s)"

fun Contains :: "string \<Rightarrow> string \<Rightarrow> bool" where
  "Contains [] p = (p = [])"
| "Contains (c # s) p = (prefix p (c # s) \<or> Contains s p)"

text \<open>\<^verbatim>\<open>strings.Split\<close> at a separator of one byte; the result is never empty.\<close>

fun Split :: "char \<Rightarrow> string \<Rightarrow> string list" where
  "Split c [] = [[]]"
| "Split c (x # xs) =
     (if x = c then [] # Split c xs
      else case Split c xs of [] \<Rightarrow> [[x]] | y # ys \<Rightarrow> (x # y) # ys)"

fun Join :: "string \<Rightarrow> string list \<Rightarrow> string" where
  "Join sep [] = []"
| "Join sep [x] = x"
| "Join sep (x # y # ys) = x @ sep @ Join sep (y # ys)"

text \<open>\<^verbatim>\<open>strings.Cut\<close> at a separator of one byte.\<close>

fun Cut :: "char \<Rightarrow> string \<Rightarrow> (string \<times> string) option" where
  "Cut c [] = None"
| "Cut c (x # xs) =
     (if x = c then Some ([], xs)
      else map_option (\<lambda>(before, after). (x # before, after)) (Cut c xs))"

definition IsSpace :: "char \<Rightarrow> bool" where
  "IsSpace c \<longleftrightarrow> (of_char c :: nat) \<in> {9, 10, 11, 12, 13, 32}"

fun FieldsAux :: "string \<Rightarrow> string \<Rightarrow> string list" where
  "FieldsAux acc [] = (if acc = [] then [] else [rev acc])"
| "FieldsAux acc (c # s) =
     (if IsSpace c then (if acc = [] then FieldsAux [] s else rev acc # FieldsAux [] s)
      else FieldsAux (c # acc) s)"

definition Fields :: "string \<Rightarrow> string list" where
  "Fields s = FieldsAux [] s"

definition TrimSpace :: "string \<Rightarrow> string" where
  "TrimSpace s = rev (dropWhile IsSpace (rev (dropWhile IsSpace s)))"

definition ToUpperChar :: "char \<Rightarrow> char" where
  "ToUpperChar c =
     (let n = (of_char c :: nat) in if 97 \<le> n \<and> n \<le> 122 then char_of (n - 32) else c)"

definition ToLowerChar :: "char \<Rightarrow> char" where
  "ToLowerChar c =
     (let n = (of_char c :: nat) in if 65 \<le> n \<and> n \<le> 90 then char_of (n + 32) else c)"

definition ToUpper :: "string \<Rightarrow> string" where
  "ToUpper s = map ToUpperChar s"

definition ToLower :: "string \<Rightarrow> string" where
  "ToLower s = map ToLowerChar s"

subsection \<open>Numbers\<close>

definition digit_char :: "nat \<Rightarrow> char" where
  "digit_char d = char_of (if d < 10 then 48 + d else 87 + d)"

definition char_digit :: "char \<Rightarrow> nat option" where
  "char_digit c =
     (let n = (of_char c :: nat) in
      if 48 \<le> n \<and> n \<le> 57 then Some (n - 48)
      else if 97 \<le> n \<and> n \<le> 122 then Some (n - 87)
      else if 65 \<le> n \<and> n \<le> 90 then Some (n - 55)
      else None)"

fun utoa :: "nat \<Rightarrow> string" where
  "utoa n = (if n < 10 then [digit_char n] else utoa (n div 10) @ [digit_char (n mod 10)])"

declare utoa.simps [simp del]

definition Itoa :: "int \<Rightarrow> string" where
  "Itoa i = (if i < 0 then CHR ''-'' # utoa (nat (- i)) else utoa (nat i))"

fun digits_value :: "nat \<Rightarrow> nat \<Rightarrow> string \<Rightarrow> nat option" where
  "digits_value base acc [] = Some acc"
| "digits_value base acc (c # s) =
     (case char_digit c of
        None \<Rightarrow> None
      | Some d \<Rightarrow> if d < base then digits_value base (acc * base + d) s else None)"

definition parse_digits :: "nat \<Rightarrow> string \<Rightarrow> nat option" where
  "parse_digits base s = (if s = [] then None else digits_value base 0 s)"

text \<open>\<^verbatim>\<open>strconv.ParseUint(s, base, bits)\<close>: no sign is accepted and the value must fit.\<close>

definition ParseUint :: "string \<Rightarrow> nat \<Rightarrow> nat \<Rightarrow> nat option" where
  "ParseUint s base bits =
     (case parse_digits base s of
        None \<Rightarrow> None
      | Some n \<Rightarrow> if n < 2 ^ bits then Some n else None)"

text \<open>\<^verbatim>\<open>strconv.ParseInt(s, base, bits)\<close>; \<^verbatim>\<open>strconv.Atoi(s)\<close> is the case of base 10 and 64 bits.\<close>

definition ParseInt :: "string \<Rightarrow> nat \<Rightarrow> nat \<Rightarrow> int option" where
  "ParseInt s base bits =
     (case s of
        [] \<Rightarrow> None
      | c # rest \<Rightarrow>
          let neg = (c = CHR ''-''); ds = (if c = CHR ''+'' \<or> c = CHR ''-'' then rest else s) in
          (case parse_digits base ds of
             None \<Rightarrow> None
           | Some n \<Rightarrow>
               if neg then (if n \<le> 2 ^ (bits - 1) then Some (- int n) else None)
               else (if n < 2 ^ (bits - 1) then Some (int n) else None)))"

definition Atoi :: "string \<Rightarrow> int option" where
  "Atoi s = ParseInt s 10 64"

definition hex_char :: "nat \<Rightarrow> char" where
  "hex_char d = digit_char d"

fun EncodeToString :: "byte list \<Rightarrow> string" where
  "EncodeToString [] = []"
| "EncodeToString (b # bs) = hex_char (unat b div 16) # hex_char (unat b mod 16) # EncodeToString bs"

fun DecodeString :: "string \<Rightarrow> byte list option" where
  "DecodeString [] = Some []"
| "DecodeString [c] = None"
| "DecodeString (c # d # s) =
     (case (char_digit c, char_digit d) of
        (Some h, Some l) \<Rightarrow>
          if h < 16 \<and> l < 16 then map_option (\<lambda>bs. of_nat (16 * h + l) # bs) (DecodeString s) else None
      | _ \<Rightarrow> None)"

subsection \<open>Lemmas\<close>

lemma Split_not_Nil [simp]: "Split c s \<noteq> []"
  by (induction s) (auto split: list.split)

lemma Split_no_sep: "c \<notin> set s \<Longrightarrow> Split c s = [s]"
  by (induction s) auto

lemma Split_append: "c \<notin> set s \<Longrightarrow> Split c (s @ c # t) = s # Split c t"
  by (induction s) auto

lemma Join_Split: "Join [c] (Split c s) = s"
proof (induction s)
  case (Cons x xs)
  obtain y ys where "Split c xs = y # ys"
    using Split_not_Nil by (metis list.exhaust)
  with Cons show ?case
    by (cases ys) auto
qed simp

lemma Split_Join:
  assumes "xs \<noteq> []" and "\<forall>x\<in>set xs. c \<notin> set x"
  shows "Split c (Join [c] xs) = xs"
  using assms
proof (induction xs rule: list_nonempty_induct)
  case (single x)
  then show ?case by (simp add: Split_no_sep)
next
  case (cons x xs)
  then show ?case
    by (cases xs) (auto simp: Split_append)
qed

lemma Split_pieces: "x \<in> set (Split c s) \<Longrightarrow> c \<notin> set x"
  by (induction s arbitrary: x) (auto split: if_splits list.splits)

lemma Cut_append: "c \<notin> set a \<Longrightarrow> Cut c (a @ c # b) = Some (a, b)"
  by (induction a) auto

lemma Cut_SomeD: "Cut c s = Some (a, b) \<Longrightarrow> s = a @ c # b \<and> c \<notin> set a"
  by (induction s arbitrary: a) (auto split: if_splits)

lemma Cut_Some_iff: "Cut c s = Some (a, b) \<longleftrightarrow> s = a @ c # b \<and> c \<notin> set a"
  using Cut_append Cut_SomeD by metis

lemma Cut_None_iff: "Cut c s = None \<longleftrightarrow> c \<notin> set s"
  by (induction s) auto

lemma HasPrefix_iff: "HasPrefix s p \<longleftrightarrow> (\<exists>t. s = p @ t)"
  by (auto simp: HasPrefix_def prefix_def)

lemma HasSuffix_iff: "HasSuffix s p \<longleftrightarrow> (\<exists>t. s = t @ p)"
  unfolding HasSuffix_def prefix_def
  by (metis rev_append rev_rev_ident)

lemma TrimPrefix_append [simp]: "TrimPrefix (p @ s) p = s"
  by (simp add: TrimPrefix_def HasPrefix_def)

lemma TrimSuffix_append [simp]: "TrimSuffix (s @ p) p = s"
  by (simp add: TrimSuffix_def HasSuffix_def)

text \<open>Decimal numbers are read back as they were printed.\<close>

lemma char_digit_digit_char: "d < 10 \<Longrightarrow> char_digit (digit_char d) = Some d"
  by (simp add: char_digit_def digit_char_def Let_def)

lemma utoa_not_Nil [simp]: "utoa n \<noteq> []"
  by (subst utoa.simps) simp

lemma digits_value_append:
  "digits_value b acc (s @ t) = Option.bind (digits_value b acc s) (\<lambda>v. digits_value b v t)"
  by (induction s arbitrary: acc) (auto split: option.split)

lemma digits_value_utoa: "digits_value 10 0 (utoa n) = Some n"
proof (induction n rule: utoa.induct)
  case (1 n)
  show ?case
  proof (cases "n < 10")
    case True
    then show ?thesis
      by (subst utoa.simps) (simp add: char_digit_digit_char)
  next
    case False
    then show ?thesis
      using 1 by (subst utoa.simps) (simp add: digits_value_append char_digit_digit_char)
  qed
qed

lemma ParseUint_utoa: "n < 2 ^ bits \<Longrightarrow> ParseUint (utoa n) 10 bits = Some n"
  by (simp add: ParseUint_def parse_digits_def digits_value_utoa)

lemma utoa_inject: "utoa m = utoa n \<longleftrightarrow> m = n"
  using digits_value_utoa by (metis option.inject)

end
