(* ===== verification/LocalCommand.thy ===== *)
theory LocalCommand
  imports GoStrings
begin

text \<open>
  Commands a daemon runs on its own host, \<^verbatim>\<open>pkg/running_command_local.go\<close>: signalling the process
  group, the command lines handed to the shell, the wiring of the output streams, and the parser of
  \<^verbatim>\<open>/proc/net\<close>. The operating system's \<^verbatim>\<open>kill\<close> is a parameter that says whether a call succeeds;
  the calls made are recorded.
\<close>

subsection \<open>Signals\<close>

datatype signal =
    SIGTERM | SIGKILL | SIGINT | SIGHUP | SIGQUIT | SIGUSR1 | SIGUSR2 | SIGSTOP | SIGCONT | SIGWINCH

datatype local_error =
    UnknownSignal string
  | KillFailed
  | CannotSetEnvVar
  | NotPseudoterminal
  | StdinClosed
  | DoubleRedirectOnMacOS
  | NoShellPath
  | UserUnknown
  | PasswdUnreadable

record local_command =
  lc_pid :: int
  lc_isPty :: bool
  lc_sharedOutput :: bool
  lc_stdin :: "byte list"
  lc_stdinClosed :: bool
  lc_kills :: "(int \<times> signal) list"
  lc_winsize :: "(16 word \<times> 16 word) option"
  lc_released :: bool
  lc_outputsClosed :: bool

definition signalFromName :: "string \<Rightarrow> local_error + signal" where
  "signalFromName sig =
     (let name = TrimPrefix (ToUpper sig) ''SIG'' in
      if name = ''TERM'' then Inr SIGTERM
      else if name = ''KILL'' then Inr SIGKILL
      else if name = ''INT'' then Inr SIGINT
      else if name = ''HUP'' then Inr SIGHUP
      else if name = ''QUIT'' then Inr SIGQUIT
      else if name = ''USR1'' then Inr SIGUSR1
      else if name = ''USR2'' then Inr SIGUSR2
      else if name = ''STOP'' then Inr SIGSTOP
      else if name = ''CONT'' then Inr SIGCONT
      else if name = ''WINCH'' then Inr SIGWINCH
      else Inl (UnknownSignal sig))"

definition sys_kill :: "int \<Rightarrow> signal \<Rightarrow> local_command \<Rightarrow> local_command" where
  "sys_kill target sig rc = rc\<lparr>lc_kills := lc_kills rc @ [(target, sig)]\<rparr>"

definition Signal ::
  "(int \<Rightarrow> signal \<Rightarrow> bool) \<Rightarrow> local_command \<Rightarrow> string \<Rightarrow> local_command \<times> local_error option"
where
  "Signal kill_ok rc sig =
     (case signalFromName sig of
        Inl e \<Rightarrow> (rc, Some e)
      | Inr sigNum \<Rightarrow>
          let rc1 = sys_kill (- lc_pid rc) sigNum rc in
          if kill_ok (- lc_pid rc) sigNum then (rc1, None)
          else
            let rc2 = sys_kill (lc_pid rc) sigNum rc1 in
            if kill_ok (lc_pid rc) sigNum then (rc2, None) else (rc2, Some KillFailed))"

subsection \<open>Input, environment and window size\<close>

text \<open>
  \<^verbatim>\<open>Stdin()\<close> wraps the pseudoterminal in a writer whose \<^verbatim>\<open>Close\<close> does nothing, so only a pipe is
  closed by \<open>closeStdin\<close>.
\<close>

definition writeStdin :: "local_command \<Rightarrow> byte list \<Rightarrow> local_command \<times> local_error option" where
  "writeStdin rc data =
     (if lc_stdinClosed rc then (rc, Some StdinClosed)
      else (rc\<lparr>lc_stdin := lc_stdin rc @ data\<rparr>, None))"

definition closeStdin :: "local_command \<Rightarrow> local_command \<times> local_error option" where
  "closeStdin rc =
     (if lc_isPty rc then (rc, None)
      else if lc_stdinClosed rc then (rc, Some StdinClosed)
      else (rc\<lparr>lc_stdinClosed := True\<rparr>, None))"

definition SetEnvVar :: "local_command \<Rightarrow> string \<Rightarrow> string \<Rightarrow> local_error option" where
  "SetEnvVar rc key val = Some CannotSetEnvVar"

definition NotifyWindowChange :: "local_command \<Rightarrow> int \<Rightarrow> int \<Rightarrow> local_command \<times> local_error option" where
  "NotifyWindowChange rc h w =
     (if \<not> lc_isPty rc then (rc, Some NotPseudoterminal)
      else (rc\<lparr>lc_winsize := Some (of_int h, of_int w)\<rparr>, None))"

definition Release :: "local_command \<Rightarrow> local_command" where
  "Release rc = rc\<lparr>lc_released := True\<rparr>"

definition ForceCloseOutputs :: "local_command \<Rightarrow> local_command" where
  "ForceCloseOutputs rc = rc\<lparr>lc_outputsClosed := True\<rparr>"

subsection \<open>Wiring of the streams of a started command\<close>

text \<open>
  The choice \<^verbatim>\<open>ExecuteLocalCommand\<close> makes for each stream. \<open>OutPipe\<close> and \<open>ErrPipe\<close> are the two pipes
  a redirection or \<^verbatim>\<open>StdoutPipe\<close>/\<^verbatim>\<open>StderrPipe\<close> creates, \<open>Tty\<close> the pseudoterminal pair, \<open>EmptyReader\<close>
  the reader that is at its end from the start and \<open>NoopCloser\<close> the closer that does nothing.
\<close>

datatype endpoint = OutPipe | ErrPipe | InPipe | Tty | EmptyReader | NoopCloser

record wiring =
  w_childStdin :: endpoint
  w_childStdout :: endpoint
  w_childStderr :: endpoint
  w_stdin :: endpoint
  w_stdoutR :: endpoint
  w_stdoutW :: endpoint
  w_stderrR :: endpoint
  w_stderrW :: endpoint

definition wireStreams :: "bool \<Rightarrow> bool \<Rightarrow> bool \<Rightarrow> bool \<Rightarrow> local_error + wiring" where
  "wireStreams darwin allocatePty redirectStdout redirectStderr =
     (if darwin \<and> redirectStdout \<and> redirectStderr then Inl DoubleRedirectOnMacOS
      else
        let stdoutR = (if redirectStdout then Some OutPipe else None);
            stderrR = (if redirectStderr then Some ErrPipe else None)
        in
        if allocatePty then
          let errR = (case stderrR of
                        Some e \<Rightarrow> (e, NoopCloser)
                      | None \<Rightarrow> if stdoutR = None then (EmptyReader, NoopCloser) else (Tty, Tty));
              outR = (case stdoutR of Some e \<Rightarrow> (e, NoopCloser) | None \<Rightarrow> (Tty, Tty))
          in Inr \<lparr>w_childStdin = Tty,
                  w_childStdout = (if redirectStdout then OutPipe else Tty),
                  w_childStderr = (if redirectStderr then ErrPipe else Tty),
                  w_stdin = Tty,
                  w_stdoutR = fst outR, w_stdoutW = snd outR,
                  w_stderrR = fst errR, w_stderrW = snd errR\<rparr>
        else
          Inr \<lparr>w_childStdin = InPipe, w_childStdout = OutPipe, w_childStderr = ErrPipe,
               w_stdin = InPipe,
               w_stdoutR = OutPipe, w_stdoutW = NoopCloser,
               w_stderrR = ErrPipe, w_stderrW = NoopCloser\<rparr>)"

definition commandEnv :: "string list \<Rightarrow> bool \<Rightarrow> string list \<Rightarrow> string list" where
  "commandEnv environ allocatePty extraEnv =
     environ @ [''_GRAFT_SPAWNED=true''] @ (if allocatePty then [''TERM=xterm-256color''] else []) @ extraEnv"

subsection \<open>Shell command lines\<close>

definition makeShellCommand :: "string \<Rightarrow> string \<Rightarrow> string list" where
  "makeShellCommand shellPath cwd =
     (if length cwd = 0 then [shellPath]
      else [shellPath, ''-c'', ''cd '' @ cwd @ '' && '' @ shellPath])"

text \<open>\<^verbatim>\<open>%q\<close>, that is \<^verbatim>\<open>strconv.Quote\<close>.\<close>

definition quoteChar :: "char \<Rightarrow> string" where
  "quoteChar c =
     (let n = (of_char c :: nat); bs = char_of (92 :: nat) in
      if n = 34 \<or> n = 92 then [bs, c]
      else if n = 7 then [bs, CHR ''a''] else if n = 8 then [bs, CHR ''b'']
      else if n = 12 then [bs, CHR ''f''] else if n = 10 then [bs, CHR ''n'']
      else if n = 13 then [bs, CHR ''r''] else if n = 9 then [bs, CHR ''t'']
      else if n = 11 then [bs, CHR ''v'']
      else if n < 32 \<or> n = 127 then [bs, CHR ''x'', digit_char (n div 16), digit_char (n mod 16)]
      else [c])"

definition Quote :: "string \<Rightarrow> string" where
  "Quote s = char_of (34 :: nat) # concat (map quoteChar s) @ [char_of (34 :: nat)]"

definition wrapArgument :: "string \<Rightarrow> string" where
  "wrapArgument arg = '' '' @ (if list_ex IsSpace arg then Quote arg else arg)"

definition makeCommandWrappedInShell ::
  "string \<Rightarrow> string \<Rightarrow> string \<Rightarrow> string list \<Rightarrow> bool \<Rightarrow> string \<Rightarrow> string list"
where
  "makeCommandWrappedInShell shellPath cwd rawCommand arguments withSudo shellHookPrefix =
     (let wrappedCmd =
        (if shellHookPrefix \<noteq> '''' then [shellHookPrefix] else []) @
        (if length cwd \<noteq> 0 then [''cd '' @ cwd @ '' && ''] else []) @
        (if withSudo then [''sudo ''] else []) @
        [rawCommand] @
        map wrapArgument arguments
      in [shellPath, ''-c'', concat wrappedCmd])"

text \<open>
  \<^verbatim>\<open>findShellPath\<close>, with the environment variable, the user name and the contents of the password
  file as arguments. Lines are those of \<^verbatim>\<open>bufio.Scanner\<close>, which drops a final carriage return.
\<close>

definition scanLines :: "string \<Rightarrow> string list" where
  "scanLines s =
     (let ls = Split CHR 0x0A s;
          ls1 = (if last ls = [] then butlast ls else ls)
      in map (\<lambda>l. TrimSuffix l [CHR 0x0D]) ls1)"

fun passwdShell :: "string \<Rightarrow> string list \<Rightarrow> string" where
  "passwdShell username [] = ''''"
| "passwdShell username (line # lines) =
     (let lineSplit = Split (CHR '':'') line in
      if length lineSplit \<noteq> 7 then passwdShell username lines
      else if lineSplit ! 0 \<noteq> username then passwdShell username lines
      else lineSplit ! 6)"

definition findShellPath ::
  "string option \<Rightarrow> string option \<Rightarrow> string option \<Rightarrow> local_error + string"
where
  "findShellPath shellEnv currentUser passwd =
     (case shellEnv of
        Some shellPath \<Rightarrow> Inr shellPath
      | None \<Rightarrow>
          (case currentUser of
             None \<Rightarrow> Inl UserUnknown
           | Some username \<Rightarrow>
               (case passwd of
                  None \<Rightarrow> Inl PasswdUnreadable
                | Some contents \<Rightarrow>
                    let shellPath = passwdShell username (scanLines contents) in
                    if shellPath = '''' then Inl NoShellPath else Inr shellPath)))"

end
