(* ===== verification/CommandRegistry.thy ===== *)
theory CommandRegistry
  imports OutputRing LocalCommand "HOL-Library.Multiset" "HOL-Library.List_Lexorder"
    "HOL-Library.Char_ord" "HOL-Library.Product_Lexorder"
begin

text \<open>
  The managed commands of a daemon, \<^verbatim>\<open>pkg/command_registry.go\<close>. A \<^verbatim>\<open>ManagedCommand\<close> is an object
  shared by the registry's map, the goroutine that reaps it and the streams attached to it; the
  model keeps the objects in a heap indexed by numbers and the map as an association list from
  identifiers to them, in the order in which Go happens to iterate. Times are nanoseconds. A
  critical section under \<^verbatim>\<open>mc.mu\<close> or \<^verbatim>\<open>reg.mu\<close> is one function.
\<close>

subsection \<open>Persistence\<close>

datatype commandPersistence = persistenceKill | persistenceKeep

datatype CommandPersistence =
    COMMAND_PERSISTENCE_UNKNOWN
  | COMMAND_PERSISTENCE_KILL
  | COMMAND_PERSISTENCE_KEEP
  | COMMAND_PERSISTENCE_OTHER int

fun persistence_proto :: "commandPersistence \<Rightarrow> CommandPersistence" where
  "persistence_proto p =
     (if p = persistenceKeep then COMMAND_PERSISTENCE_KEEP else COMMAND_PERSISTENCE_KILL)"

fun resolvePersistence :: "CommandPersistence \<Rightarrow> bool \<Rightarrow> bool \<Rightarrow> commandPersistence" where
  "resolvePersistence COMMAND_PERSISTENCE_KEEP pty shell = persistenceKeep"
| "resolvePersistence COMMAND_PERSISTENCE_KILL pty shell = persistenceKill"
| "resolvePersistence requested pty shell =
     (if pty \<or> shell then persistenceKeep else persistenceKill)"

definition defaultOutputRingCapacity :: int where
  "defaultOutputRingCapacity = push_bit 20 1"

definition second :: int where
  "second = 1000000000"

definition defaultKillGrace :: int where
  "defaultKillGrace = 5 * second"

definition defaultDetachKillDelay :: int where
  "defaultDetachKillDelay = 3600 * second"

definition defaultDrainGrace :: int where
  "defaultDrainGrace = 2 * second"

definition unix_time :: "int \<Rightarrow> int" where
  "unix_time t = t div second"

subsection \<open>A managed command\<close>

text \<open>
  An attachment is the index of its \<^verbatim>\<open>canceled\<close> channel in \<open>mc_attachments\<close>. A timer created by
  \<^verbatim>\<open>time.AfterFunc\<close> is armed until it fires; a stopped timer is dropped. Goroutines that run
  \<^verbatim>\<open>killGroupWithGrace\<close> are listed in \<open>mc_killers\<close>.
\<close>

datatype kill_timer = Armed int | Fired

datatype killer = KillStart int | KillGrace int

record ManagedCommand =
  mc_id :: string
  mc_display :: string
  mc_cwd :: string
  mc_pty :: bool
  mc_persistence :: commandPersistence
  mc_startedAt :: int
  mc_cmd :: local_command
  mc_stdoutRing :: output_ring
  mc_stderrRing :: output_ring
  mc_done :: bool
  mc_current :: "nat option"
  mc_attachments :: "chan_state list"
  mc_pendingKill :: "kill_timer option"
  mc_killers :: "killer list"
  mc_exited :: bool
  mc_exitedAt :: int
  mc_exitStatus :: int
  mc_exitErr :: "string option"

fun close_state :: "chan_state \<Rightarrow> chan_state" where
  "close_state Open = Closed"
| "close_state Closed = ClosePanic"
| "close_state ClosePanic = ClosePanic"

definition close_canceled :: "nat \<Rightarrow> chan_state list \<Rightarrow> chan_state list" where
  "close_canceled h atts = atts[h := close_state (atts ! h)]"

definition Canceled :: "ManagedCommand \<Rightarrow> nat \<Rightarrow> bool" where
  "Canceled mc h \<longleftrightarrow> h < length (mc_attachments mc) \<and> mc_attachments mc ! h = Closed"

definition CloseStdinFromClient :: "ManagedCommand \<Rightarrow> ManagedCommand \<times> local_error option" where
  "CloseStdinFromClient mc =
     (if mc_persistence mc \<noteq> persistenceKill then (mc, None)
      else case closeStdin (mc_cmd mc) of (c, e) \<Rightarrow> (mc\<lparr>mc_cmd := c\<rparr>, e))"

definition DetachAndKeep :: "ManagedCommand \<Rightarrow> ManagedCommand \<times> bool" where
  "DetachAndKeep mc =
     (let mc1 = mc\<lparr>mc_pendingKill := None, mc_persistence := persistenceKeep\<rparr> in
      case mc_current mc1 of
        None \<Rightarrow> (mc1, False)
      | Some h \<Rightarrow>
          (mc1\<lparr>mc_attachments := close_canceled h (mc_attachments mc1), mc_current := None\<rparr>, True))"

definition currentIs :: "ManagedCommand \<Rightarrow> nat \<Rightarrow> bool" where
  "currentIs mc h \<longleftrightarrow> mc_current mc = Some h"

definition AckOutput :: "ManagedCommand \<Rightarrow> u64 \<Rightarrow> u64 \<Rightarrow> ManagedCommand" where
  "AckOutput mc stdoutOffset stderrOffset =
     mc\<lparr>mc_stdoutRing := setReleased (mc_stdoutRing mc) stdoutOffset,
        mc_stderrRing := setReleased (mc_stderrRing mc) stderrOffset\<rparr>"

definition ExitStatus :: "ManagedCommand \<Rightarrow> int \<times> bool \<times> string option" where
  "ExitStatus mc = (mc_exitStatus mc, mc_exited mc, mc_exitErr mc)"

definition attach :: "ManagedCommand \<Rightarrow> ManagedCommand \<times> nat" where
  "attach mc =
     (let mc1 = mc\<lparr>mc_pendingKill := None\<rparr>;
          atts = (case mc_current mc1 of
                    None \<Rightarrow> mc_attachments mc1
                  | Some h \<Rightarrow> close_canceled h (mc_attachments mc1));
          h' = length atts
      in (mc1\<lparr>mc_attachments := atts @ [Open], mc_current := Some h'\<rparr>, h'))"

definition ClientGone :: "int \<Rightarrow> int \<Rightarrow> ManagedCommand \<Rightarrow> nat \<Rightarrow> ManagedCommand" where
  "ClientGone detachKillDelay now mc h =
     (if mc_current mc \<noteq> Some h then mc
      else
        let mc1 = mc\<lparr>mc_current := None\<rparr> in
        if mc_exited mc1 \<or> mc_persistence mc1 \<noteq> persistenceKill then mc1
        else mc1\<lparr>mc_pendingKill := Some (Armed (now + detachKillDelay))\<rparr>)"

text \<open>The timer of \<^verbatim>\<open>ClientGone\<close> firing: it starts the goroutine that kills the group.\<close>

definition firePendingKill :: "int \<Rightarrow> int \<Rightarrow> ManagedCommand \<Rightarrow> ManagedCommand" where
  "firePendingKill killGrace now mc =
     (case mc_pendingKill mc of
        Some (Armed t) \<Rightarrow>
          if t \<le> now
          then mc\<lparr>mc_pendingKill := Some Fired, mc_killers := mc_killers mc @ [KillStart killGrace]\<rparr>
          else mc
      | _ \<Rightarrow> mc)"

definition KillWithEscalation :: "int \<Rightarrow> ManagedCommand \<Rightarrow> ManagedCommand" where
  "KillWithEscalation killGrace mc = mc\<lparr>mc_killers := mc_killers mc @ [KillStart killGrace]\<rparr>"

definition SignalTerminate :: string where
  "SignalTerminate = ''SIGTERM''"

definition SignalKill :: string where
  "SignalKill = ''SIGKILL''"

definition mc_Signal :: "(int \<Rightarrow> signal \<Rightarrow> bool) \<Rightarrow> ManagedCommand \<Rightarrow> string \<Rightarrow> ManagedCommand \<times> local_error option" where
  "mc_Signal kill_ok mc sig =
     (case Signal kill_ok (mc_cmd mc) sig of (c, e) \<Rightarrow> (mc\<lparr>mc_cmd := c\<rparr>, e))"

text \<open>
  One step of \<^verbatim>\<open>killGroupWithGrace\<close>: up to the select, and from the select to the end. \<open>None\<close> as
  the new phase means the goroutine has returned. When the command is done and the grace period is
  over, Go picks either case of the select; \<open>pick_done\<close> is that choice.
\<close>

definition killGroupWithGrace ::
  "(int \<Rightarrow> signal \<Rightarrow> bool) \<Rightarrow> bool \<Rightarrow> int \<Rightarrow> ManagedCommand \<Rightarrow> killer \<Rightarrow> ManagedCommand \<times> killer option"
where
  "killGroupWithGrace kill_ok pick_done now mc k =
     (case k of
        KillStart grace \<Rightarrow>
          (if mc_exited mc then (mc, None)
           else (fst (mc_Signal kill_ok mc SignalTerminate), Some (KillGrace (now + grace))))
      | KillGrace deadline \<Rightarrow>
          (if mc_done mc \<and> (now < deadline \<or> pick_done) then (mc, None)
           else if deadline \<le> now then (fst (mc_Signal kill_ok mc SignalKill), None)
           else (mc, Some (KillGrace deadline))))"

record CommandInfo =
  ci_commandId :: string
  ci_command :: string
  ci_cwd :: string
  ci_pty :: bool
  ci_running :: bool
  ci_exitStatus :: int
  ci_startedAtUnix :: int
  ci_attached :: bool
  ci_persistence :: CommandPersistence

definition info :: "ManagedCommand \<Rightarrow> CommandInfo" where
  "info mc =
     \<lparr>ci_commandId = mc_id mc, ci_command = mc_display mc, ci_cwd = mc_cwd mc, ci_pty = mc_pty mc,
      ci_running = (\<not> mc_exited mc), ci_exitStatus = mc_exitStatus mc,
      ci_startedAtUnix = unix_time (mc_startedAt mc), ci_attached = (mc_current mc \<noteq> None),
      ci_persistence = persistence_proto (mc_persistence mc)\<rparr>"

subsection \<open>The registry\<close>

record commandStateEntry =
  cse_id :: string
  cse_pid :: int
  cse_startedAtUnix :: int
  cse_display :: string

record ManagedCommandSpec =
  spec_display :: string
  spec_cwd :: string
  spec_pty :: bool
  spec_persistence :: commandPersistence
  spec_stdoutCapacity :: int
  spec_stderrCapacity :: int

record CommandRegistry =
  reg_statePath :: string
  reg_killGrace :: int
  reg_detachKillDelay :: int
  reg_drainGrace :: int
  reg_commands :: "(string \<times> nat) list"
  reg_closed :: bool

text \<open>The registry together with the command objects and the state file on disk.\<close>

record command_world =
  cw_reg :: CommandRegistry
  cw_heap :: "ManagedCommand list"
  cw_stateFile :: "commandStateEntry list option"

datatype reg_error = RegistryClosed | RandFailed | NoUniqueID

definition NewCommandRegistry :: "string \<Rightarrow> CommandRegistry" where
  "NewCommandRegistry statePath =
     \<lparr>reg_statePath = statePath, reg_killGrace = defaultKillGrace,
      reg_detachKillDelay = defaultDetachKillDelay, reg_drainGrace = defaultDrainGrace,
      reg_commands = [], reg_closed = False\<rparr>"

definition new_world :: "string \<Rightarrow> commandStateEntry list option \<Rightarrow> command_world" where
  "new_world statePath file =
     \<lparr>cw_reg = NewCommandRegistry statePath, cw_heap = [], cw_stateFile = file\<rparr>"

text \<open>
  \<^verbatim>\<open>rand.Read\<close> is a stream of results; each call of \<^verbatim>\<open>newCommandID\<close> takes the next one.
\<close>

definition newCommandID :: "byte list option \<Rightarrow> reg_error + string" where
  "newCommandID raw =
     (case raw of None \<Rightarrow> Inl RandFailed | Some bs \<Rightarrow> Inr (EncodeToString bs))"

fun newUniqueCommandIDLocked ::
  "(string \<times> nat) list \<Rightarrow> (nat \<Rightarrow> byte list option) \<Rightarrow> nat \<Rightarrow> nat \<Rightarrow> reg_error + string"
where
  "newUniqueCommandIDLocked cmds rnd i 0 = Inl NoUniqueID"
| "newUniqueCommandIDLocked cmds rnd i (Suc tries) =
     (case newCommandID (rnd i) of
        Inl e \<Rightarrow> Inl e
      | Inr cid \<Rightarrow>
          if map_of cmds cid = None then Inr cid
          else newUniqueCommandIDLocked cmds rnd (Suc i) tries)"

definition stateEntry :: "ManagedCommand \<Rightarrow> commandStateEntry" where
  "stateEntry mc =
     \<lparr>cse_id = mc_id mc, cse_pid = lc_pid (mc_cmd mc), cse_startedAtUnix = unix_time (mc_startedAt mc),
      cse_display = mc_display mc\<rparr>"

definition registered :: "command_world \<Rightarrow> ManagedCommand list" where
  "registered w = map (\<lambda>(cid, ref). cw_heap w ! ref) (reg_commands (cw_reg w))"

text \<open>
  The entries are written to a temporary file that is renamed over the state file; \<open>write_ok\<close> says
  that both calls succeed, and otherwise the state file is untouched.
\<close>

definition writeStateLocked :: "bool \<Rightarrow> command_world \<Rightarrow> command_world" where
  "writeStateLocked write_ok w =
     (if reg_statePath (cw_reg w) = '''' then w
      else
        let entries = map stateEntry (filter (\<lambda>mc. \<not> mc_exited mc) (registered w)) in
        if write_ok then w\<lparr>cw_stateFile := Some entries\<rparr> else w)"

definition newManagedCommand :: "int \<Rightarrow> local_command \<Rightarrow> ManagedCommandSpec \<Rightarrow> ManagedCommand" where
  "newManagedCommand now cmd spec =
     (let stdoutCapacity = (if spec_stdoutCapacity spec = 0 then defaultOutputRingCapacity
                            else spec_stdoutCapacity spec);
          stderrCapacity = (if spec_stderrCapacity spec = 0 then defaultOutputRingCapacity
                            else spec_stderrCapacity spec);
          out = newOutputRing stdoutCapacity;
          err = newOutputRing stderrCapacity;
          kill = (spec_persistence spec = persistenceKill)
      in \<lparr>mc_id = '''', mc_display = spec_display spec, mc_cwd = spec_cwd spec, mc_pty = spec_pty spec,
          mc_persistence = spec_persistence spec, mc_startedAt = now, mc_cmd = cmd,
          mc_stdoutRing = (if kill then setLossless out else out),
          mc_stderrRing = (if kill then setLossless err else err),
          mc_done = False, mc_current = None, mc_attachments = [], mc_pendingKill = None,
          mc_killers = [], mc_exited = False, mc_exitedAt = 0, mc_exitStatus = 0, mc_exitErr = None\<rparr>)"

definition Register ::
  "bool \<Rightarrow> int \<Rightarrow> (nat \<Rightarrow> byte list option) \<Rightarrow> command_world \<Rightarrow> local_command \<Rightarrow> ManagedCommandSpec \<Rightarrow>
     reg_error + command_world \<times> nat"
where
  "Register write_ok now rnd w cmd spec =
     (let mc = newManagedCommand now cmd spec in
      if reg_closed (cw_reg w) then Inl RegistryClosed
      else
        case newUniqueCommandIDLocked (reg_commands (cw_reg w)) rnd 0 8 of
          Inl e \<Rightarrow> Inl e
        | Inr cid \<Rightarrow>
            let ref = length (cw_heap w);
                w1 = w\<lparr>cw_heap := cw_heap w @ [mc\<lparr>mc_id := cid\<rparr>],
                       cw_reg := (cw_reg w)\<lparr>reg_commands := reg_commands (cw_reg w) @ [(cid, ref)]\<rparr>\<rparr>;
                w2 = writeStateLocked write_ok w1
            in if lc_sharedOutput cmd
               then Inr (w2\<lparr>cw_heap := (cw_heap w2)
                               [ref := (cw_heap w2 ! ref)\<lparr>mc_stderrRing := Close (mc_stderrRing mc)\<rparr>]\<rparr>, ref)
               else Inr (w2, ref))"

text \<open>
  One iteration of \<^verbatim>\<open>drainIntoRing\<close>, given what \<^verbatim>\<open>reader.Read\<close> returned: some bytes and whether an error
  or the end of the stream came with them; then the loop over a sequence of reads, up to the point
  where it returns or blocks. The deferred \<^verbatim>\<open>ring.Close()\<close> runs when the loop returns.
\<close>

datatype drain_outcome = DrainContinue | DrainReturned | DrainBlocked nat nat

definition drainStep :: "output_ring \<Rightarrow> byte list \<Rightarrow> bool \<Rightarrow> output_ring \<times> drain_outcome" where
  "drainStep ring buf readErr =
     (let after = (\<lambda>r. if readErr then (Close r, DrainReturned) else (r, DrainContinue)) in
      if buf = [] then after ring
      else
        case Write ring buf of
          (r, n, WriteDone) \<Rightarrow> after r
        | (r, n, WriteFailed e) \<Rightarrow> (Close r, DrainReturned)
        | (r, n, WriteBlocked g) \<Rightarrow> (r, DrainBlocked n g))"

fun drainIntoRing :: "output_ring \<Rightarrow> (byte list \<times> bool) list \<Rightarrow> output_ring \<times> drain_outcome" where
  "drainIntoRing ring [] = (ring, DrainContinue)"
| "drainIntoRing ring ((buf, readErr) # reads) =
     (case drainStep ring buf readErr of
        (r, DrainContinue) \<Rightarrow> drainIntoRing r reads
      | res \<Rightarrow> res)"

text \<open>
  \<^verbatim>\<open>waitAndReap\<close> in its critical sections: the forced close when the drain outlives its grace
  period, the record of the exit under \<^verbatim>\<open>mc.mu\<close> with the decision to forget the command, and the
  update of the registry under \<^verbatim>\<open>reg.mu\<close> after \<^verbatim>\<open>close(mc.done)\<close>.
\<close>

definition reapForceClose :: "ManagedCommand \<Rightarrow> ManagedCommand" where
  "reapForceClose mc =
     mc\<lparr>mc_cmd := ForceCloseOutputs (mc_cmd mc),
        mc_stdoutRing := Close (mc_stdoutRing mc), mc_stderrRing := Close (mc_stderrRing mc)\<rparr>"

definition reapRecord :: "int \<Rightarrow> int \<Rightarrow> string option \<Rightarrow> ManagedCommand \<Rightarrow> ManagedCommand \<times> bool" where
  "reapRecord now status waitErr mc =
     (let mc1 = mc\<lparr>mc_cmd := Release (mc_cmd mc),
                   mc_stdoutRing := Close (mc_stdoutRing mc),
                   mc_stderrRing := Close (mc_stderrRing mc),
                   mc_pendingKill := None, mc_exited := True, mc_exitedAt := now,
                   mc_exitStatus := status, mc_exitErr := waitErr\<rparr>
      in (mc1, mc_persistence mc1 = persistenceKill \<and> mc_current mc1 = None))"

definition update_heap :: "nat \<Rightarrow> (ManagedCommand \<Rightarrow> ManagedCommand) \<Rightarrow> command_world \<Rightarrow> command_world" where
  "update_heap ref f w = w\<lparr>cw_heap := (cw_heap w)[ref := f (cw_heap w ! ref)]\<rparr>"

definition delete_command :: "string \<Rightarrow> command_world \<Rightarrow> command_world" where
  "delete_command cid w =
     w\<lparr>cw_reg := (cw_reg w)\<lparr>reg_commands := filter (\<lambda>(i, _). i \<noteq> cid) (reg_commands (cw_reg w))\<rparr>\<rparr>"

definition reapFinish :: "bool \<Rightarrow> nat \<Rightarrow> bool \<Rightarrow> command_world \<Rightarrow> command_world" where
  "reapFinish write_ok ref forget w =
     (let w1 = update_heap ref (mc_done_update (\<lambda>_. True)) w;
          w2 = (if forget then delete_command (mc_id (cw_heap w1 ! ref)) w1 else w1)
      in writeStateLocked write_ok w2)"

definition waitAndReap ::
  "bool \<Rightarrow> bool \<Rightarrow> int \<Rightarrow> int \<Rightarrow> string option \<Rightarrow> nat \<Rightarrow> command_world \<Rightarrow> command_world"
where
  "waitAndReap write_ok drainOutlives now status waitErr ref w =
     (let w1 = (if drainOutlives then update_heap ref reapForceClose w else w);
          (mc, forget) = reapRecord now status waitErr (cw_heap w1 ! ref)
      in reapFinish write_ok ref forget (update_heap ref (\<lambda>_. mc) w1))"

definition Get :: "command_world \<Rightarrow> string \<Rightarrow> nat option" where
  "Get w cid = map_of (reg_commands (cw_reg w)) cid"

text \<open>\<^verbatim>\<open>List\<close> sorts by start time; commands started at the same instant may come in any order.\<close>

definition ListCommands :: "command_world \<Rightarrow> CommandInfo list" where
  "ListCommands w = map info (sort_key mc_startedAt (registered w))"

definition Remove :: "bool \<Rightarrow> string \<Rightarrow> command_world \<Rightarrow> command_world" where
  "Remove write_ok cid w = writeStateLocked write_ok (delete_command cid w)"

record reapCandidate =
  rc_id :: string
  rc_exitedAt :: int
  rc_retained :: int

definition retained :: "ManagedCommand \<Rightarrow> int" where
  "retained mc = RetainedBytes (mc_stdoutRing mc) + RetainedBytes (mc_stderrRing mc)"

definition reapable :: "ManagedCommand \<Rightarrow> bool" where
  "reapable mc \<longleftrightarrow> mc_exited mc \<and> mc_current mc = None"

definition reapCandidates :: "command_world \<Rightarrow> reapCandidate list" where
  "reapCandidates w =
     map (\<lambda>(cid, ref). \<lparr>rc_id = cid, rc_exitedAt = mc_exitedAt (cw_heap w ! ref),
                         rc_retained = retained (cw_heap w ! ref)\<rparr>)
       (filter (\<lambda>(cid, ref). reapable (cw_heap w ! ref)) (reg_commands (cw_reg w)))"

fun reapLoop :: "int \<Rightarrow> int \<Rightarrow> reapCandidate list \<Rightarrow> command_world \<Rightarrow> bool \<Rightarrow> command_world \<times> bool" where
  "reapLoop budget tot [] w removed = (w, removed)"
| "reapLoop budget tot (c # cs) w removed =
     (if tot \<le> budget then (w, removed)
      else reapLoop budget (tot - rc_retained c) cs (delete_command (rc_id c) w) True)"

definition ReapExited :: "bool \<Rightarrow> int \<Rightarrow> command_world \<Rightarrow> command_world" where
  "ReapExited write_ok budget w =
     (let tot = sum_list (map retained (registered w));
          candidates = reapCandidates w
      in if tot \<le> budget then w
         else
           case reapLoop budget tot (sort_key (\<lambda>c. (rc_exitedAt c, rc_id c)) candidates) w False of
             (w', removed) \<Rightarrow> if removed then writeStateLocked write_ok w' else w')"

text \<open>
  \<^verbatim>\<open>CloseAll\<close> up to the point where it waits for the commands, and its last critical section.
\<close>

definition CloseAllBegin :: "command_world \<Rightarrow> command_world" where
  "CloseAllBegin w =
     (let refs = map snd (reg_commands (cw_reg w));
          w1 = w\<lparr>cw_reg := (cw_reg w)\<lparr>reg_closed := True\<rparr>\<rparr>
      in fold (\<lambda>ref. update_heap ref
                 (\<lambda>mc. if mc_done mc then mc else KillWithEscalation (reg_killGrace (cw_reg w1)) mc)) refs w1)"

definition CloseAllEnd :: "bool \<Rightarrow> command_world \<Rightarrow> command_world" where
  "CloseAllEnd write_ok w = writeStateLocked write_ok w"

subsection \<open>Process groups left behind by an earlier daemon\<close>

text \<open>
  What the operating system answers: the group of a process that is alive, whether a group has a
  member, whether a process looks like one the daemon spawned, and whether \<^verbatim>\<open>kill\<close> succeeds.
\<close>

record os_view =
  os_getpgid :: "int \<Rightarrow> int option"
  os_groupAlive :: "int \<Rightarrow> bool"
  os_killOk :: "int \<Rightarrow> signal \<Rightarrow> bool"
  os_looksSpawned :: "int \<Rightarrow> int \<Rightarrow> bool"

datatype goos = Linux | Darwin | OtherOS

text \<open>
  \<^verbatim>\<open>processLooksGraftSpawned\<close> from the contents of \<^verbatim>\<open>/proc/<pid>/environ\<close> on Linux and from the parsed
  start time that \<^verbatim>\<open>ps\<close> prints on macOS; \<open>None\<close> when it cannot be read.
\<close>

definition processLooksGraftSpawned :: "goos \<Rightarrow> string option \<Rightarrow> int option \<Rightarrow> int \<Rightarrow> bool" where
  "processLooksGraftSpawned os environ started startedAtUnix =
     (case os of
        Linux \<Rightarrow> (case environ of None \<Rightarrow> False | Some s \<Rightarrow> Contains s ''_GRAFT_SPAWNED=true'')
      | Darwin \<Rightarrow>
          (if startedAtUnix = 0 then False
           else case started of
             None \<Rightarrow> False
           | Some t \<Rightarrow> let diff = t - startedAtUnix in (if diff < 0 then - diff else diff) \<le> 2)
      | OtherOS \<Rightarrow> False)"

definition staleGuard :: "os_view \<Rightarrow> commandStateEntry \<Rightarrow> bool" where
  "staleGuard os e \<longleftrightarrow>
     (if cse_pid e \<le> 0 then False
      else case os_getpgid os (cse_pid e) of
        Some pgid \<Rightarrow> \<not> (pgid \<noteq> cse_pid e \<or> \<not> os_looksSpawned os (cse_pid e) (cse_startedAtUnix e))
      | None \<Rightarrow> os_groupAlive os (cse_pid e))"

text \<open>
  The groups \<^verbatim>\<open>ReconcileStale\<close> sends SIGTERM to, and those for which it starts \<^verbatim>\<open>escalateStaleKill\<close>.
\<close>

fun reconcileLoop :: "os_view \<Rightarrow> commandStateEntry list \<Rightarrow> int list \<times> (int \<times> int) list" where
  "reconcileLoop os [] = ([], [])"
| "reconcileLoop os (e # es) =
     (case reconcileLoop os es of
        (kills, escs) \<Rightarrow>
          if \<not> staleGuard os e then (kills, escs)
          else if \<not> os_killOk os (- cse_pid e) SIGTERM then (- cse_pid e # kills, escs)
          else (- cse_pid e # kills, (cse_pid e, cse_startedAtUnix e) # escs))"

definition ReconcileStale ::
  "bool \<Rightarrow> os_view \<Rightarrow> command_world \<Rightarrow> command_world \<times> int list \<times> (int \<times> int) list"
where
  "ReconcileStale write_ok os w =
     (if reg_statePath (cw_reg w) = '''' then (w, [], [])
      else case cw_stateFile w of
        None \<Rightarrow> (w, [], [])
      | Some entries \<Rightarrow> (writeStateLocked write_ok w, reconcileLoop os entries))"

definition escalateStaleKill :: "os_view \<Rightarrow> int \<Rightarrow> int \<Rightarrow> int list" where
  "escalateStaleKill os pid startedAtUnix =
     (if \<not> os_groupAlive os pid then []
      else case os_getpgid os pid of
        Some pgid \<Rightarrow>
          (if pgid \<noteq> pid \<or> \<not> os_looksSpawned os pid startedAtUnix then [] else [- pid])
      | None \<Rightarrow> [- pid])"

subsection \<open>The invariant of a managed command\<close>

definition managed_ok :: "ManagedCommand \<Rightarrow> bool" where
  "managed_ok mc \<longleftrightarrow>
     ring_ok (mc_stdoutRing mc) \<and> ring_ok (mc_stderrRing mc) \<and>
     ClosePanic \<notin> set (mc_attachments mc) \<and>
     (case mc_current mc of
        None \<Rightarrow> True
      | Some h \<Rightarrow> h < length (mc_attachments mc) \<and> mc_attachments mc ! h = Open) \<and>
     (mc_pendingKill mc \<noteq> None \<longrightarrow>
        mc_current mc = None \<and> mc_persistence mc = persistenceKill \<and> \<not> mc_exited mc) \<and>
     (mc_done mc \<longrightarrow> mc_exited mc) \<and>
     (mc_exited mc \<longrightarrow> r_closed (mc_stdoutRing mc) \<and> r_closed (mc_stderrRing mc))"

text \<open>
  The critical sections that touch one managed command, by whatever thread runs them, under a clock.
  The flag admits explicit kills and signals sent by a client.
\<close>

inductive mc_step ::
  "int \<Rightarrow> int \<Rightarrow> bool \<Rightarrow> int \<times> ManagedCommand \<Rightarrow> int \<times> ManagedCommand \<Rightarrow> bool"
  for delay grace :: int and explicit :: bool
where
  tick: "now \<le> now' \<Longrightarrow> mc_step delay grace explicit (now, mc) (now', mc)"
| attach: "mc_step delay grace explicit (now, mc) (now, fst (attach mc))"
| gone: "mc_step delay grace explicit (now, mc) (now, ClientGone delay now mc h)"
| detach: "mc_step delay grace explicit (now, mc) (now, fst (DetachAndKeep mc))"
| ack: "mc_step delay grace explicit (now, mc) (now, AckOutput mc oo eo)"
| stdin: "mc_step delay grace explicit (now, mc) (now, mc\<lparr>mc_cmd := fst (writeStdin (mc_cmd mc) data)\<rparr>)"
| stdin_eof: "mc_step delay grace explicit (now, mc) (now, fst (CloseStdinFromClient mc))"
| fire: "mc_step delay grace explicit (now, mc) (now, firePendingKill grace now mc)"
| kill: "explicit \<Longrightarrow> mc_step delay grace explicit (now, mc) (now, KillWithEscalation grace mc)"
| sig: "explicit \<Longrightarrow> mc_step delay grace explicit (now, mc) (now, fst (mc_Signal kill_ok mc s))"
| killer: "mc_killers mc = ks1 @ k # ks2 \<Longrightarrow> killGroupWithGrace kill_ok pick now mc k = (mc', k') \<Longrightarrow>
    mc_step delay grace explicit (now, mc)
      (now, mc'\<lparr>mc_killers := ks1 @ (case k' of None \<Rightarrow> [] | Some k'' \<Rightarrow> [k'']) @ ks2\<rparr>)"
| out: "ring_step (mc_stdoutRing mc) r \<Longrightarrow>
    mc_step delay grace explicit (now, mc) (now, mc\<lparr>mc_stdoutRing := r\<rparr>)"
| err: "ring_step (mc_stderrRing mc) r \<Longrightarrow>
    mc_step delay grace explicit (now, mc) (now, mc\<lparr>mc_stderrRing := r\<rparr>)"
| force: "mc_step delay grace explicit (now, mc) (now, reapForceClose mc)"
| exits: "\<not> mc_exited mc \<Longrightarrow>
    mc_step delay grace explicit (now, mc) (now, fst (reapRecord now status waitErr mc))"
| finished: "mc_exited mc \<Longrightarrow>
    mc_step delay grace explicit (now, mc) (now, mc\<lparr>mc_done := True\<rparr>)"

named_theorems managed_defs \<open>operations of a managed command\<close>

lemmas [managed_defs] =
  attach_def ClientGone_def DetachAndKeep_def AckOutput_def CloseStdinFromClient_def firePendingKill_def
  KillWithEscalation_def mc_Signal_def killGroupWithGrace_def reapForceClose_def reapRecord_def Let_def

lemma close_state_Open [simp]: "s = Open \<Longrightarrow> close_state s = Closed"
  by simp

lemma length_close_canceled [simp]: "length (close_canceled h atts) = length atts"
  by (simp add: close_canceled_def)

lemma close_canceled_no_panic:
  "ClosePanic \<notin> set atts \<Longrightarrow> h < length atts \<Longrightarrow> atts ! h = Open \<Longrightarrow>
     ClosePanic \<notin> set (close_canceled h atts)"
  by (auto simp: close_canceled_def dest!: set_update_subset_insert [THEN subsetD])

lemma managed_ok_new:
  assumes "0 \<le> spec_stdoutCapacity spec" and "spec_stdoutCapacity spec < 2 ^ 63"
    and "0 \<le> spec_stderrCapacity spec" and "spec_stderrCapacity spec < 2 ^ 63"
  shows "managed_ok (newManagedCommand now cmd spec)"
  using assms
  by (auto simp: managed_ok_def newManagedCommand_def Let_def defaultOutputRingCapacity_def
      intro!: ring_ok_new ring_ok_setLossless)

lemma managed_ok_attach: "managed_ok mc \<Longrightarrow> managed_ok (fst (attach mc))"
  by (auto simp: managed_ok_def managed_defs close_canceled_no_panic split: option.splits)

lemma managed_ok_DetachAndKeep: "managed_ok mc \<Longrightarrow> managed_ok (fst (DetachAndKeep mc))"
  by (auto simp: managed_ok_def managed_defs close_canceled_no_panic split: option.splits)

lemma managed_ok_ClientGone: "managed_ok mc \<Longrightarrow> managed_ok (ClientGone delay now mc h)"
  by (auto simp: managed_ok_def managed_defs split: option.splits)

lemma managed_ok_AckOutput: "managed_ok mc \<Longrightarrow> managed_ok (AckOutput mc oo eo)"
  by (auto simp: managed_ok_def AckOutput_def ring_ok_setReleased split: option.splits)

lemma managed_ok_fire: "managed_ok mc \<Longrightarrow> managed_ok (firePendingKill grace now mc)"
  by (auto simp: managed_ok_def firePendingKill_def split: option.splits kill_timer.splits)

lemma managed_ok_force: "managed_ok mc \<Longrightarrow> managed_ok (reapForceClose mc)"
  by (auto simp: managed_ok_def reapForceClose_def ring_ok_Close split: option.splits)

lemma managed_ok_record: "managed_ok mc \<Longrightarrow> managed_ok (fst (reapRecord now status waitErr mc))"
  by (auto simp: managed_ok_def reapRecord_def Let_def ring_ok_Close split: option.splits)

lemma managed_ok_cmd: "managed_ok (mc\<lparr>mc_cmd := c\<rparr>) = managed_ok mc"
  by (simp add: managed_ok_def split: option.split)

lemma managed_ok_killers: "managed_ok (mc\<lparr>mc_killers := ks\<rparr>) = managed_ok mc"
  by (simp add: managed_ok_def split: option.split)

lemma mc_Signal_cmd: "fst (mc_Signal kill_ok mc s) = mc\<lparr>mc_cmd := fst (Signal kill_ok (mc_cmd mc) s)\<rparr>"
  by (simp add: mc_Signal_def split: prod.splits)

lemma killGroupWithGrace_cmd:
  assumes "killGroupWithGrace kill_ok pick now mc k = (mc', k')"
  obtains c where "mc' = mc\<lparr>mc_cmd := c\<rparr>"
proof -
  have "mc' = mc\<lparr>mc_cmd := mc_cmd mc'\<rparr>"
    using assms by (auto simp: killGroupWithGrace_def mc_Signal_cmd split: killer.splits if_splits)
  then show ?thesis by (rule that)
qed

lemma ring_step_closed: "ring_step r r' \<Longrightarrow> r_closed r \<Longrightarrow> r_closed r'"
  by (induction rule: ring_step.induct) (auto simp: writeEvicting_def losslessPass_def)


lemma mc_step_ok:
  assumes "mc_step delay grace explicit s s'" and "managed_ok (snd s)"
  shows "managed_ok (snd s')"
  using assms
proof (induction rule: mc_step.induct)
  case (stdin now mc data)
  then show ?case by (simp add: managed_ok_cmd)
next
  case (stdin_eof now mc)
  then show ?case
    by (auto simp: CloseStdinFromClient_def managed_ok_cmd split: prod.splits)
next
  case (killer mc ks1 k ks2 kill_ok pick now mc' k')
  then show ?case
    by (auto elim!: killGroupWithGrace_cmd simp: managed_ok_killers managed_ok_cmd)
next
  case (out mc r now)
  then show ?case
    using ring_step_ok ring_step_closed by (auto simp: managed_ok_def split: option.splits)
next
  case (err mc r now)
  then show ?case
    using ring_step_ok ring_step_closed by (auto simp: managed_ok_def split: option.splits)
next
  case (finished mc now)
  then show ?case by (auto simp: managed_ok_def split: option.splits)
qed (simp_all add: managed_ok_attach managed_ok_DetachAndKeep managed_ok_ClientGone managed_ok_AckOutput
    managed_ok_fire managed_ok_force managed_ok_record managed_ok_cmd managed_ok_killers mc_Signal_cmd
    KillWithEscalation_def)

lemma mc_steps_ok:
  "(mc_step delay grace explicit)\<^sup>*\<^sup>* s s' \<Longrightarrow> managed_ok (snd s) \<Longrightarrow> managed_ok (snd s')"
  by (induction rule: rtranclp_induct) (auto intro: mc_step_ok)

lemma mc_step_clock: "mc_step delay grace explicit s s' \<Longrightarrow> fst s \<le> fst s'"
  by (induction rule: mc_step.induct) auto

subsection \<open>The re-attach window\<close>

text \<open>
  Before \<open>t\<close> no timer can fire, no goroutine is killing the group, and no signal beyond those
  already sent has been sent.
\<close>

definition spared :: "int \<Rightarrow> (int \<times> signal) list \<Rightarrow> ManagedCommand \<Rightarrow> bool" where
  "spared t sent mc \<longleftrightarrow>
     (case mc_pendingKill mc of Some (Armed d) \<Rightarrow> t \<le> d | Some Fired \<Rightarrow> False | None \<Rightarrow> True) \<and>
     mc_killers mc = [] \<and> lc_kills (mc_cmd mc) = sent"

lemma spared_step:
  assumes "mc_step delay grace False s s'" and "spared t sent (snd s)"
    and "fst s' < t" and "t \<le> fst s + delay"
  shows "spared t sent (snd s')"
  using assms
proof (induction rule: mc_step.induct)
  case (stdin_eof now mc)
  then show ?case
    by (auto simp: spared_def CloseStdinFromClient_def closeStdin_def split: option.splits kill_timer.splits)
qed (auto simp: spared_def attach_def DetachAndKeep_def ClientGone_def AckOutput_def firePendingKill_def
    writeStdin_def reapForceClose_def ForceCloseOutputs_def reapRecord_def Release_def Let_def
    split: option.splits kill_timer.splits)

lemma spared_steps:
  assumes "(mc_step delay grace False)\<^sup>*\<^sup>* s s'" and "spared t sent (snd s)"
    and "fst s' < t" and "t \<le> fst s + delay"
  shows "spared t sent (snd s')"
  using assms
proof (induction rule: rtranclp_induct)
  case (step y z)
  have "fst s \<le> fst y"
    using step(1) by (induction rule: rtranclp_induct) (auto dest: mc_step_clock)
  moreover have "fst y \<le> fst z"
    using mc_step_clock [OF step(2)] .
  ultimately show ?case
    using step by (auto intro: spared_step)
qed simp

lemma ClientGone_spared:
  assumes "mc_current mc = Some h" and "mc_killers mc = []" and "managed_ok mc"
  shows "spared (now + delay) (lc_kills (mc_cmd mc)) (ClientGone delay now mc h)"
proof -
  have "mc_pendingKill mc = None"
    using assms(1,3) by (auto simp: managed_ok_def)
  then show ?thesis
    using assms(1,2) by (simp add: spared_def ClientGone_def Let_def)
qed

subsection \<open>Killing a group\<close>

lemma signalFromName_names [simp]:
  "signalFromName SignalTerminate = Inr SIGTERM" "signalFromName SignalKill = Inr SIGKILL"
  by (simp_all add: signalFromName_def SignalTerminate_def SignalKill_def ToUpper_def ToUpperChar_def
      TrimPrefix_def HasPrefix_def)

lemma mc_Signal_group:
  assumes "signalFromName s = Inr sg" and "kill_ok (- lc_pid (mc_cmd mc)) sg"
  shows "lc_kills (mc_cmd (fst (mc_Signal kill_ok mc s))) = lc_kills (mc_cmd mc) @ [(- lc_pid (mc_cmd mc), sg)]"
  using assms by (simp add: mc_Signal_cmd Signal_def sys_kill_def Let_def)

subsection \<open>Rings of a managed command\<close>

lemma ring_step_lossless: "ring_step r r' \<Longrightarrow> r_lossless r' = r_lossless r"
  by (induction rule: ring_step.induct)
     (auto simp: writeEvicting_def losslessPass_def Let_def split: if_splits)

lemma mc_step_lossless:
  "mc_step delay grace explicit s s' \<Longrightarrow>
     r_lossless (mc_stdoutRing (snd s')) = r_lossless (mc_stdoutRing (snd s)) \<and>
     r_lossless (mc_stderrRing (snd s')) = r_lossless (mc_stderrRing (snd s))"
proof (induction rule: mc_step.induct)
  case (killer mc ks1 k ks2 kill_ok pick now mc' k')
  then show ?case by (auto elim!: killGroupWithGrace_cmd)
qed (auto simp: attach_def DetachAndKeep_def ClientGone_def AckOutput_def firePendingKill_def
    CloseStdinFromClient_def KillWithEscalation_def mc_Signal_cmd reapForceClose_def reapRecord_def Let_def
    ring_step_lossless split: option.splits kill_timer.splits prod.splits)

lemma mc_steps_lossless:
  "(mc_step delay grace explicit)\<^sup>*\<^sup>* s s' \<Longrightarrow>
     r_lossless (mc_stdoutRing (snd s')) = r_lossless (mc_stdoutRing (snd s)) \<and>
     r_lossless (mc_stderrRing (snd s')) = r_lossless (mc_stderrRing (snd s))"
  by (induction rule: rtranclp_induct) (auto dest: mc_step_lossless)

lemma Write_evicting_never_blocks:
  "\<not> r_lossless r \<Longrightarrow> Write r p \<noteq> (r', n, WriteBlocked g)"
  by (auto simp: Write_def split: prod.splits option.splits)

lemma drainStep_evicting:
  assumes "\<not> r_lossless r"
  shows "snd (drainStep r buf e) \<noteq> DrainBlocked n g" and "\<not> r_lossless (fst (drainStep r buf e))"
  using assms by (auto simp: drainStep_def Write_def writeEvicting_def Let_def)

lemma drain_evicting_never_blocks:
  "\<not> r_lossless r \<Longrightarrow> snd (drainIntoRing r reads) \<noteq> DrainBlocked n g"
proof (induction r reads rule: drainIntoRing.induct)
  case (2 ring buf readErr reads)
  show ?case
    using drainStep_evicting [OF "2.prems", of buf readErr] "2.IH"
    by (cases "drainStep ring buf readErr") (auto split: drain_outcome.splits)
qed simp

lemma losslessPass_closed: "losslessPass r p written = PassWrote r' w' \<Longrightarrow> r_closed r' = r_closed r"
  by (auto simp: losslessPass_def Let_def split: if_splits)

lemma writeLossless_closed: "writeLossless r p written = (r', w', out) \<Longrightarrow> r_closed r' = r_closed r"
proof (induction r p written rule: writeLossless.induct)
  case (1 r p written)
  have "(if written < length p then
        (case losslessPass r p written of
           PassClosed \<Rightarrow> (r, written, WriteFailed RingClosed)
         | PassWait g \<Rightarrow> (r, written, WriteBlocked g)
         | PassWrote r' written' \<Rightarrow> writeLossless r' p written')
      else (r, written, WriteDone)) = (r', w', out)"
    using "1.prems" by (simp add: writeLossless.simps [of r p written])
  then show ?case
    using "1.IH" by (auto split: if_splits lossless_pass.splits dest: losslessPass_closed)
qed

text \<open>
  The drain into a lossless ring of which nothing is confirmed blocks once its reads exceed the
  ring's capacity.
\<close>

lemma drainStep_unconfirmed:
  assumes "lossless_rep r log" and "r_released r = 0" and "\<not> r_closed r" and "length log + length buf < 2 ^ 64"
  shows "(\<exists>r'. drainStep r buf False = (r', DrainContinue) \<and> lossless_rep r' (log @ buf) \<and> r_released r' = 0
            \<and> \<not> r_closed r' \<and> r_capacity r' = r_capacity r)
    \<or> (\<exists>r' n g. drainStep r buf False = (r', DrainBlocked n g))"
proof (cases "buf = []")
  case True
  then show ?thesis using assms by (simp add: drainStep_def)
next
  case False
  obtain r' n out where run: "writeLossless r buf 0 = (r', n, out)"
    by (cases "writeLossless r buf 0") auto
  have w: "Write r buf = (r', n, out)"
    using run assms(1) by (simp add: Write_def lossless_rep_def)
  note c = writeLossless_correct [OF assms(1) _ _ run] and cl = writeLossless_closed [OF run]
  show ?thesis
  proof (cases out)
    case WriteDone
    then show ?thesis using c cl assms False by (auto simp: drainStep_def w)
  next
    case (WriteFailed e)
    then show ?thesis using c cl assms by simp
  next
    case (WriteBlocked g)
    then show ?thesis using False by (simp add: drainStep_def w)
  qed
qed

lemma drain_unconfirmed_blocks:
  assumes "lossless_rep r log" and "r_released r = 0" and "\<not> r_closed r"
    and "r_capacity r < int (length log + length (concat bufs))" and "length log + length (concat bufs) < 2 ^ 64"
  shows "\<exists>n g. snd (drainIntoRing r (map (\<lambda>b. (b, False)) bufs)) = DrainBlocked n g"
  using assms
proof (induction bufs arbitrary: r log)
  case Nil
  have "r_start r = 0" "represents r log"
    using Nil.prems(1,2) by (auto simp: lossless_rep_def)
  then have "length log = length (r_buf r)"
    by (simp add: represents_def)
  moreover have "int (length (r_buf r)) \<le> r_capacity r"
    using ring_okD(2) [OF representsD(1)] \<open>represents r log\<close> by blast
  ultimately show ?case
    using Nil.prems(4) by simp
next
  case (Cons b bufs)
  have "length log + length b < 2 ^ 64"
    using Cons.prems(5) by simp
  from drainStep_unconfirmed [OF Cons.prems(1-3) this] show ?case
  proof (elim disjE exE conjE)
    fix r'
    assume s: "drainStep r b False = (r', DrainContinue)" and r': "lossless_rep r' (log @ b)" "r_released r' = 0"
      "\<not> r_closed r'" "r_capacity r' = r_capacity r"
    show ?thesis
      using Cons.IH [OF r'(1-3)] Cons.prems(4,5) r'(4) s by simp
  qed simp
qed

subsection \<open>The invariant of the registry\<close>

definition world_ok :: "command_world \<Rightarrow> bool" where
  "world_ok w \<longleftrightarrow>
     distinct (map fst (reg_commands (cw_reg w))) \<and>
     distinct (map snd (reg_commands (cw_reg w))) \<and>
     (\<forall>(cid, ref) \<in> set (reg_commands (cw_reg w)). ref < length (cw_heap w) \<and> mc_id (cw_heap w ! ref) = cid) \<and>
     (\<forall>mc \<in> set (cw_heap w). managed_ok mc)"

definition running_entries :: "command_world \<Rightarrow> commandStateEntry list" where
  "running_entries w = map stateEntry (filter (\<lambda>mc. \<not> mc_exited mc) (registered w))"

lemma writeStateLocked_simps [simp]:
  "cw_reg (writeStateLocked ok w) = cw_reg w" "cw_heap (writeStateLocked ok w) = cw_heap w"
  by (simp_all add: writeStateLocked_def Let_def)

lemma registered_writeStateLocked [simp]: "registered (writeStateLocked ok w) = registered w"
  by (simp add: registered_def)

lemma writeStateLocked_file:
  "reg_statePath (cw_reg w) \<noteq> '''' \<Longrightarrow>
     cw_stateFile (writeStateLocked True w) = Some (running_entries (writeStateLocked True w))"
  by (simp add: writeStateLocked_def running_entries_def) (simp add: registered_def)

lemma writeStateLocked_failed [simp]: "writeStateLocked False w = w"
  by (simp add: writeStateLocked_def)

lemma world_ok_writeState [simp]: "world_ok (writeStateLocked ok w) = world_ok w"
  by (simp add: world_ok_def)

lemma world_ok_new: "world_ok (new_world path file)"
  by (simp add: world_ok_def new_world_def NewCommandRegistry_def)

lemma delete_command_simps [simp]:
  "cw_heap (delete_command cid w) = cw_heap w" "cw_stateFile (delete_command cid w) = cw_stateFile w"
  "reg_statePath (cw_reg (delete_command cid w)) = reg_statePath (cw_reg w)"
  "reg_closed (cw_reg (delete_command cid w)) = reg_closed (cw_reg w)"
  "reg_commands (cw_reg (delete_command cid w)) = filter (\<lambda>(i, _). i \<noteq> cid) (reg_commands (cw_reg w))"
  by (simp_all add: delete_command_def)

lemma distinct_map_filter: "distinct (map f xs) \<Longrightarrow> distinct (map f (filter P xs))"
  by (induction xs) auto

lemma world_ok_delete: "world_ok w \<Longrightarrow> world_ok (delete_command cid w)"
  by (auto simp: world_ok_def distinct_map_filter)

lemma update_heap_simps [simp]:
  "cw_reg (update_heap ref f w) = cw_reg w" "cw_stateFile (update_heap ref f w) = cw_stateFile w"
  "length (cw_heap (update_heap ref f w)) = length (cw_heap w)"
  by (simp_all add: update_heap_def)

lemma world_ok_update:
  assumes "world_ok w" and "\<And>mc. managed_ok mc \<Longrightarrow> managed_ok (f mc)" and "\<And>mc. mc_id (f mc) = mc_id mc"
  shows "world_ok (update_heap ref f w)"
proof (cases "ref < length (cw_heap w)")
  case True
  have "managed_ok (f (cw_heap w ! ref))"
    using assms(1,2) True by (simp add: world_ok_def)
  then have "\<forall>mc \<in> set ((cw_heap w)[ref := f (cw_heap w ! ref)]). managed_ok mc"
    using assms(1) set_update_subset_insert [of "cw_heap w" ref] by (auto simp: world_ok_def)
  moreover have "mc_id ((cw_heap w)[ref := f (cw_heap w ! ref)] ! i) = mc_id (cw_heap w ! i)" if "i < length (cw_heap w)" for i
    using that assms(3) [of "cw_heap w ! ref"] by (cases "i = ref") simp_all
  ultimately show ?thesis
    using assms(1) by (auto simp: world_ok_def update_heap_def)
next
  case False
  then show ?thesis
    using assms(1) by (simp add: update_heap_def list_update_beyond)
qed

lemma newUniqueCommandID_fresh:
  "newUniqueCommandIDLocked cmds rnd i tries = Inr cid \<Longrightarrow>
     cid \<notin> fst ` set cmds \<and> (\<exists>j. i \<le> j \<and> j < i + tries \<and> map_option EncodeToString (rnd j) = Some cid)"
proof (induction tries arbitrary: i)
  case (Suc tries)
  show ?case
  proof (cases "newCommandID (rnd i)")
    case (Inl e)
    with Suc.prems show ?thesis by simp
  next
    case (Inr c)
    then have r: "map_option EncodeToString (rnd i) = Some c"
      by (auto simp: newCommandID_def split: option.splits)
    show ?thesis
    proof (cases "map_of cmds c = None")
      case True
      then have "c = cid" using Suc.prems Inr by simp
      then show ?thesis
        using True r by (auto simp: map_of_eq_None_iff intro!: exI [of _ i])
    next
      case False
      then have "newUniqueCommandIDLocked cmds rnd (Suc i) tries = Inr cid"
        using Suc.prems Inr by auto
      from Suc.IH [OF this] show ?thesis by (auto intro: Suc_leD)
    qed
  qed
qed simp

lemma mc_id_new [simp]: "mc_id (newManagedCommand now cmd spec) = ''''"
  by (simp add: newManagedCommand_def Let_def)

definition spec_ok :: "ManagedCommandSpec \<Rightarrow> bool" where
  "spec_ok spec \<longleftrightarrow>
     0 \<le> spec_stdoutCapacity spec \<and> spec_stdoutCapacity spec < 2 ^ 63 \<and>
     0 \<le> spec_stderrCapacity spec \<and> spec_stderrCapacity spec < 2 ^ 63"

text \<open>What \<^verbatim>\<open>Register\<close> adds to the registry and the heap.\<close>

lemma RegisterE:
  assumes "Register ok now rnd w cmd spec = Inr (w', ref)"
  obtains cid mc where "cid \<notin> fst ` set (reg_commands (cw_reg w))" and "ref = length (cw_heap w)"
    and "cw_heap w' = cw_heap w @ [mc]" and "mc_id mc = cid" and "\<not> mc_exited mc"
    and "spec_ok spec \<Longrightarrow> managed_ok mc"
    and "cw_reg w' = (cw_reg w)\<lparr>reg_commands := reg_commands (cw_reg w) @ [(cid, ref)]\<rparr>"
    and "stateEntry mc = \<lparr>cse_id = cid, cse_pid = lc_pid cmd, cse_startedAtUnix = unix_time now,
                          cse_display = spec_display spec\<rparr>"
    and "ok \<Longrightarrow> reg_statePath (cw_reg w) \<noteq> '''' \<Longrightarrow> cw_stateFile w' = Some (running_entries w')"
proof -
  let ?mc = "newManagedCommand now cmd spec"
  obtain cid where cid: "newUniqueCommandIDLocked (reg_commands (cw_reg w)) rnd 0 8 = Inr cid"
    using assms by (auto simp: Register_def Let_def split: if_splits sum.splits)
  define mc where "mc = (if lc_sharedOutput cmd
      then ?mc\<lparr>mc_id := cid, mc_stderrRing := Close (mc_stderrRing ?mc)\<rparr> else ?mc\<lparr>mc_id := cid\<rparr>)"
  have open_reg: "\<not> reg_closed (cw_reg w)"
    using assms by (auto simp: Register_def Let_def split: if_splits)
  have ref: "ref = length (cw_heap w)" and heap: "cw_heap w' = cw_heap w @ [mc]"
    and reg: "cw_reg w' = (cw_reg w)\<lparr>reg_commands := reg_commands (cw_reg w) @ [(cid, ref)]\<rparr>"
    using assms cid open_reg by (auto simp: Register_def Let_def mc_def split: if_splits)
  have ok: "managed_ok mc" if "spec_ok spec"
    using managed_ok_new [of spec now cmd] that
    by (auto simp: mc_def spec_ok_def managed_ok_def ring_ok_Close split: option.splits)
  have entry: "stateEntry mc = \<lparr>cse_id = cid, cse_pid = lc_pid cmd, cse_startedAtUnix = unix_time now,
                          cse_display = spec_display spec\<rparr>" and run: "\<not> mc_exited mc"
    by (simp_all add: mc_def stateEntry_def newManagedCommand_def Let_def)
  let ?w1 = "w\<lparr>cw_heap := cw_heap w @ [?mc\<lparr>mc_id := cid\<rparr>],
        cw_reg := (cw_reg w)\<lparr>reg_commands := reg_commands (cw_reg w) @ [(cid, ref)]\<rparr>\<rparr>"
  have sfile: "cw_stateFile w' = cw_stateFile (writeStateLocked ok ?w1)"
    using assms cid open_reg by (auto simp: Register_def Let_def split: if_splits)
  have "map stateEntry (filter (\<lambda>mc. \<not> mc_exited mc) (registered w')) =
        map stateEntry (filter (\<lambda>mc. \<not> mc_exited mc) (registered ?w1))"
  proof -
    have same: "stateEntry (cw_heap w' ! i) = stateEntry (cw_heap ?w1 ! i)"
      "mc_exited (cw_heap w' ! i) = mc_exited (cw_heap ?w1 ! i)" for i
      by (cases "i = length (cw_heap w)";
          simp add: heap nth_append mc_def stateEntry_def)+
    show ?thesis
      unfolding registered_def reg
      by (simp add: filter_map o_def same split_def del: map_append filter_append)
  qed
  then have "cw_stateFile w' = Some (running_entries w')" if "ok" "reg_statePath (cw_reg w) \<noteq> ''''"
    using that sfile by (simp add: writeStateLocked_def running_entries_def)
  then show ?thesis
    using that [of cid mc] ref heap reg ok entry run newUniqueCommandID_fresh [OF cid]
    by (simp add: mc_def)
qed

lemma world_ok_Register:
  assumes "Register ok now rnd w cmd spec = Inr (w', ref)" and "world_ok w" and "spec_ok spec"
  shows "world_ok w'"
proof -
  obtain cid mc where r: "cid \<notin> fst ` set (reg_commands (cw_reg w))" "ref = length (cw_heap w)"
      "cw_heap w' = cw_heap w @ [mc]" "mc_id mc = cid" "managed_ok mc"
      "cw_reg w' = (cw_reg w)\<lparr>reg_commands := reg_commands (cw_reg w) @ [(cid, ref)]\<rparr>"
    using RegisterE [OF assms(1)] assms(3) by metis
  have "ref \<notin> snd ` set (reg_commands (cw_reg w))"
    using assms(2) r(2) by (auto simp: world_ok_def)
  then show ?thesis
    using assms(2) r by (auto simp: world_ok_def nth_append)
qed

lemma mc_step_entry:
  assumes "mc_step delay grace explicit s s'"
  shows "stateEntry (snd s') = stateEntry (snd s) \<and> mc_id (snd s') = mc_id (snd s)
    \<and> (mc_exited (snd s) \<longrightarrow> mc_exited (snd s'))"
  using assms
proof (induction rule: mc_step.induct)
  case (killer mc ks1 k ks2 kill_ok pick now mc' k')
  then show ?case
    by (auto simp: stateEntry_def killGroupWithGrace_def mc_Signal_cmd Signal_def sys_kill_def Let_def
        split: killer.splits if_splits sum.splits)
qed (auto simp: stateEntry_def attach_def DetachAndKeep_def ClientGone_def AckOutput_def firePendingKill_def
    CloseStdinFromClient_def closeStdin_def writeStdin_def KillWithEscalation_def mc_Signal_cmd Signal_def
    sys_kill_def reapForceClose_def ForceCloseOutputs_def reapRecord_def Release_def Let_def
    split: option.splits kill_timer.splits sum.splits)

lemma running_entries_update:
  assumes "stateEntry (f (cw_heap w ! ref)) = stateEntry (cw_heap w ! ref)"
    and "mc_exited (cw_heap w ! ref) \<Longrightarrow> mc_exited (f (cw_heap w ! ref))"
  shows "set (running_entries (update_heap ref f w)) \<subseteq> set (running_entries w)"
proof
  fix e
  assume "e \<in> set (running_entries (update_heap ref f w))"
  then obtain cid r where r: "(cid, r) \<in> set (reg_commands (cw_reg w))"
    and e: "e = stateEntry ((cw_heap w)[ref := f (cw_heap w ! ref)] ! r)"
      "\<not> mc_exited ((cw_heap w)[ref := f (cw_heap w ! ref)] ! r)"
    by (auto simp: running_entries_def registered_def update_heap_def)
  have "e = stateEntry (cw_heap w ! r) \<and> \<not> mc_exited (cw_heap w ! r)"
  proof (cases "r = ref \<and> ref < length (cw_heap w)")
    case True
    then show ?thesis using e assms by auto
  next
    case False
    then show ?thesis
      using e by (cases "r = ref") (auto simp: list_update_beyond)
  qed
  with r show "e \<in> set (running_entries w)"
    by (auto simp: running_entries_def registered_def intro!: image_eqI)
qed

subsection \<open>Steps of the registry\<close>

text \<open>
  Critical sections of the registry, with every write of the state file succeeding, interleaved with
  those of its commands.
\<close>

inductive reg_step :: "command_world \<Rightarrow> command_world \<Rightarrow> bool" where
  register: "spec_ok spec \<Longrightarrow> Register True now rnd w cmd spec = Inr (w', ref) \<Longrightarrow> reg_step w w'"
| command: "mc_step delay grace explicit (now, cw_heap w ! ref) (now', mc) \<Longrightarrow> ref < length (cw_heap w) \<Longrightarrow>
    reg_step w (update_heap ref (\<lambda>_. mc) w)"
| finish: "ref < length (cw_heap w) \<Longrightarrow> mc_exited (cw_heap w ! ref) \<Longrightarrow> reg_step w (reapFinish True ref forget w)"
| remove: "reg_step w (Remove True cid w)"
| reap: "reg_step w (ReapExited True budget w)"
| close_begin: "reg_step w (CloseAllBegin w)"
| close_end: "reg_step w (CloseAllEnd True w)"

lemma world_ok_mc:
  assumes "world_ok w" and "ref < length (cw_heap w)" and "managed_ok mc" and "mc_id mc = mc_id (cw_heap w ! ref)"
  shows "world_ok (update_heap ref (\<lambda>_. mc) w)"
proof -
  have "\<forall>m \<in> set ((cw_heap w)[ref := mc]). managed_ok m"
    using assms(1,3) set_update_subset_insert [of "cw_heap w" ref] by (auto simp: world_ok_def)
  moreover have "mc_id ((cw_heap w)[ref := mc] ! i) = mc_id (cw_heap w ! i)" if "i < length (cw_heap w)" for i
    using that assms(2,4) by (cases "i = ref") simp_all
  ultimately show ?thesis
    using assms(1) by (auto simp: world_ok_def update_heap_def)
qed

lemma managed_ok_done: "managed_ok mc \<Longrightarrow> mc_exited mc \<Longrightarrow> managed_ok (mc\<lparr>mc_done := True\<rparr>)"
  by (simp add: managed_ok_def split: option.splits)

lemma world_ok_reapFinish:
  assumes "world_ok w" and "ref < length (cw_heap w)" and "mc_exited (cw_heap w ! ref)"
  shows "world_ok (reapFinish ok ref forget w)"
proof -
  have "managed_ok (cw_heap w ! ref)"
    using assms(1,2) by (simp add: world_ok_def)
  moreover have "update_heap ref (mc_done_update (\<lambda>_. True)) w =
      update_heap ref (\<lambda>_. (cw_heap w ! ref)\<lparr>mc_done := True\<rparr>) w"
    by (simp add: update_heap_def)
  ultimately have "world_ok (update_heap ref (mc_done_update (\<lambda>_. True)) w)"
    using assms by (simp add: world_ok_mc managed_ok_done)
  then show ?thesis
    by (simp add: reapFinish_def Let_def world_ok_delete)
qed

subsection \<open>Reaping\<close>

lemma reapLoop_spec:
  "\<exists>k \<le> length cs. reapLoop budget tot cs w removed =
      (fold (\<lambda>c. delete_command (rc_id c)) (take k cs) w, removed \<or> 0 < k) \<and>
    (k = length cs \<or> tot - sum_list (map rc_retained (take k cs)) \<le> budget) \<and>
    (\<forall>j<k. budget < tot - sum_list (map rc_retained (take j cs)))"
proof (induction cs arbitrary: tot w removed)
  case Nil
  then show ?case by simp
next
  case (Cons c cs)
  show ?case
  proof (cases "tot \<le> budget")
    case True
    then show ?thesis by (intro exI [of _ 0]) simp
  next
    case False
    obtain k where k: "k \<le> length cs"
      "reapLoop budget (tot - rc_retained c) cs (delete_command (rc_id c) w) True =
        (fold (\<lambda>c. delete_command (rc_id c)) (take k cs) (delete_command (rc_id c) w), True)"
      "k = length cs \<or> tot - rc_retained c - sum_list (map rc_retained (take k cs)) \<le> budget"
      "\<forall>j<k. budget < tot - rc_retained c - sum_list (map rc_retained (take j cs))"
      using Cons.IH [of "tot - rc_retained c" "delete_command (rc_id c) w" True] by auto
    have "budget < tot - sum_list (map rc_retained (take j (c # cs)))" if "j < Suc k" for j
      using that False k(4) by (cases j) (auto simp: algebra_simps)
    then show ?thesis
      using False k by (intro exI [of _ "Suc k"]) (auto simp: algebra_simps)
  qed
qed

lemma fold_delete_commands:
  "reg_commands (cw_reg (fold (\<lambda>c. delete_command (rc_id c)) cs w)) =
     filter (\<lambda>(i, _). i \<notin> rc_id ` set cs) (reg_commands (cw_reg w))"
  "cw_heap (fold (\<lambda>c. delete_command (rc_id c)) cs w) = cw_heap w"
  "cw_stateFile (fold (\<lambda>c. delete_command (rc_id c)) cs w) = cw_stateFile w"
  "reg_statePath (cw_reg (fold (\<lambda>c. delete_command (rc_id c)) cs w)) = reg_statePath (cw_reg w)"
  by (induction cs arbitrary: w) (auto simp: split_def intro!: filter_cong)

lemma world_ok_fold_delete: "world_ok w \<Longrightarrow> world_ok (fold (\<lambda>c. delete_command (rc_id c)) cs w)"
  by (induction cs arbitrary: w) (auto intro: world_ok_delete)

abbreviation reap_order :: "command_world \<Rightarrow> reapCandidate list" where
  "reap_order w \<equiv> sort_key (\<lambda>c. (rc_exitedAt c, rc_id c)) (reapCandidates w)"

lemma ReapExited_spec:
  obtains k where "k \<le> length (reap_order w)"
    and "reg_commands (cw_reg (ReapExited ok budget w)) =
           filter (\<lambda>(i, _). i \<notin> rc_id ` set (take k (reap_order w))) (reg_commands (cw_reg w))"
    and "cw_heap (ReapExited ok budget w) = cw_heap w"
    and "reg_statePath (cw_reg (ReapExited ok budget w)) = reg_statePath (cw_reg w)"
    and "k = length (reap_order w) \<or>
      sum_list (map retained (registered w)) - sum_list (map rc_retained (take k (reap_order w))) \<le> budget"
    and "\<forall>j<k. budget < sum_list (map retained (registered w)) - sum_list (map rc_retained (take j (reap_order w)))"
    and "world_ok w \<Longrightarrow> world_ok (ReapExited ok budget w)"
    and "k = 0 \<Longrightarrow> ReapExited ok budget w = w"
    and "0 < k \<Longrightarrow> \<exists>w1. ReapExited ok budget w = writeStateLocked ok w1"
proof (cases "sum_list (map retained (registered w)) \<le> budget")
  case True
  then have "ReapExited ok budget w = w"
    by (simp add: ReapExited_def Let_def)
  with True show ?thesis
    by (intro that [of 0]) simp_all
next
  case False
  let ?tot = "sum_list (map retained (registered w))" and ?cs = "reap_order w"
  obtain k where k: "k \<le> length ?cs"
    "reapLoop budget ?tot ?cs w False = (fold (\<lambda>c. delete_command (rc_id c)) (take k ?cs) w, 0 < k)"
    "k = length ?cs \<or> ?tot - sum_list (map rc_retained (take k ?cs)) \<le> budget"
    "\<forall>j<k. budget < ?tot - sum_list (map rc_retained (take j ?cs))"
    using reapLoop_spec [of ?cs budget ?tot w False] by auto
  let ?w1 = "fold (\<lambda>c. delete_command (rc_id c)) (take k ?cs) w"
  have run: "ReapExited ok budget w = (if 0 < k then writeStateLocked ok ?w1 else ?w1)"
    using False k(2) by (simp add: ReapExited_def Let_def)
  have sel: "cw_heap (ReapExited ok budget w) = cw_heap w"
    "reg_statePath (cw_reg (ReapExited ok budget w)) = reg_statePath (cw_reg w)"
    "reg_commands (cw_reg (ReapExited ok budget w)) = reg_commands (cw_reg ?w1)"
    by (simp_all add: run fold_delete_commands(2,4))
  have "world_ok w \<Longrightarrow> world_ok (ReapExited ok budget w)"
    by (simp add: run world_ok_fold_delete)
  then show ?thesis
    using that [of k] k sel by (auto simp: fold_delete_commands(1) run)
qed

lemma filter_key_take:
  assumes "distinct (map f xs)"
  shows "filter (\<lambda>x. f x \<in> f ` set (take k xs)) xs = take k xs"
proof -
  have d: "f ` set (take k xs) \<inter> f ` set (drop k xs) = {}"
    using assms append_take_drop_id [of k xs] distinct_append map_append set_map by metis
  have "filter (\<lambda>x. f x \<in> f ` set (take k xs)) (take k xs @ drop k xs) = take k xs"
    using d by (auto simp: filter_empty_conv filter_id_conv simp del: append_take_drop_id)
  then show ?thesis by simp
qed

lemma sum_list_filter_split:
  fixes f :: "'a \<Rightarrow> int"
  shows "sum_list (map f xs) = sum_list (map f (filter P xs)) + sum_list (map f (filter (\<lambda>x. \<not> P x) xs))"
  by (induction xs) auto

lemma sum_list_sort_key:
  fixes f :: "'a \<Rightarrow> int"
  shows "sum_list (map f (filter P (sort_key k xs))) = sum_list (map f (filter P xs))"
proof -
  have "mset (map f (filter P (sort_key k xs))) = mset (map f (filter P xs))"
    by (simp add: filter_sort)
  then show ?thesis
    by (metis sum_mset_sum_list)
qed

abbreviation candidate_of :: "command_world \<Rightarrow> string \<times> nat \<Rightarrow> reapCandidate" where
  "candidate_of w e \<equiv> \<lparr>rc_id = fst e, rc_exitedAt = mc_exitedAt (cw_heap w ! snd e),
                         rc_retained = retained (cw_heap w ! snd e)\<rparr>"

lemma reapCandidates_alt:
  "reapCandidates w =
     map (candidate_of w) (filter (\<lambda>e. reapable (cw_heap w ! snd e)) (reg_commands (cw_reg w)))"
  by (simp add: reapCandidates_def split_def)

lemma reap_order_distinct:
  assumes "world_ok w"
  shows "distinct (map rc_id (reap_order w))"
proof -
  have "map rc_id (reapCandidates w) =
      map fst (filter (\<lambda>e. reapable (cw_heap w ! snd e)) (reg_commands (cw_reg w)))"
    by (simp add: reapCandidates_alt o_def)
  then have "distinct (map rc_id (reapCandidates w))"
    using assms by (simp add: distinct_map_filter world_ok_def)
  then show ?thesis
    by (simp add: distinct_map)
qed

lemma reap_order_reapable:
  assumes "world_ok w" and "(cid, ref) \<in> set (reg_commands (cw_reg w))"
    and "cid \<in> rc_id ` set (reap_order w)"
  shows "reapable (cw_heap w ! ref)"
proof -
  obtain r where "(cid, r) \<in> set (reg_commands (cw_reg w))" "reapable (cw_heap w ! r)"
    using assms(3) by (auto simp: reapCandidates_alt)
  moreover have "distinct (map fst (reg_commands (cw_reg w)))"
    using assms(1) by (simp add: world_ok_def)
  ultimately show ?thesis
    using assms(2) by (metis eq_key_imp_eq_value)
qed

lemma reaped_sum:
  fixes k :: nat
  assumes "world_ok w"
  defines "gone \<equiv> rc_id ` set (take k (reap_order w))"
  shows "sum_list (map rc_retained (take k (reap_order w))) =
    sum_list (map (\<lambda>e. retained (cw_heap w ! snd e)) (filter (\<lambda>e. fst e \<in> gone) (reg_commands (cw_reg w))))"
proof -
  have "take k (reap_order w) = filter (\<lambda>c. rc_id c \<in> gone) (reap_order w)"
    unfolding gone_def by (rule filter_key_take [OF reap_order_distinct [OF assms(1)], symmetric])
  then have "sum_list (map rc_retained (take k (reap_order w))) =
      sum_list (map rc_retained (filter (\<lambda>c. rc_id c \<in> gone) (reapCandidates w)))"
    by (simp only: sum_list_sort_key)
  also have "\<dots> = sum_list (map (\<lambda>e. retained (cw_heap w ! snd e))
      (filter (\<lambda>e. fst e \<in> gone \<and> reapable (cw_heap w ! snd e)) (reg_commands (cw_reg w))))"
    by (simp add: reapCandidates_alt filter_map o_def conj_commute)
  also have "filter (\<lambda>e. fst e \<in> gone \<and> reapable (cw_heap w ! snd e)) (reg_commands (cw_reg w)) =
      filter (\<lambda>e. fst e \<in> gone) (reg_commands (cw_reg w))"
    using reap_order_reapable [OF assms(1)] set_take_subset [of k "reap_order w"]
    by (intro filter_cong) (auto simp: gone_def)
  finally show ?thesis .
qed

lemma ReapExited_total:
  assumes "world_ok w"
    and "reg_commands (cw_reg w') =
      filter (\<lambda>(i, _). i \<notin> rc_id ` set (take k (reap_order w))) (reg_commands (cw_reg w))"
    and "cw_heap w' = cw_heap w"
  shows "sum_list (map retained (registered w')) =
    sum_list (map retained (registered w)) - sum_list (map rc_retained (take k (reap_order w)))"
  using reaped_sum [OF assms(1), of k] assms(2,3)
    sum_list_filter_split [of "\<lambda>e. retained (cw_heap w ! snd e)" "reg_commands (cw_reg w)"
      "\<lambda>e. fst e \<in> rc_id ` set (take k (reap_order w))"]
  by (simp add: registered_def o_def split_def)

lemma ReapExited_none_left:
  assumes "reg_commands (cw_reg w') =
      filter (\<lambda>(i, _). i \<notin> rc_id ` set (reap_order w)) (reg_commands (cw_reg w))"
    and "cw_heap w' = cw_heap w"
  shows "\<forall>mc \<in> set (registered w'). \<not> reapable mc"
  using assms by (auto simp: registered_def reapCandidates_alt image_iff)

subsection \<open>The state file\<close>

definition file_covers :: "command_world \<Rightarrow> bool" where
  "file_covers w \<longleftrightarrow> reg_statePath (cw_reg w) \<noteq> '''' \<and>
     (\<exists>es. cw_stateFile w = Some es \<and> set (running_entries w) \<subseteq> set es)"

lemma file_covers_write [simp]: "reg_statePath (cw_reg w) \<noteq> '''' \<Longrightarrow> file_covers (writeStateLocked True w)"
  using writeStateLocked_file [of w] by (simp add: file_covers_def)

lemma file_covers_update:
  assumes "file_covers w" and "stateEntry (f (cw_heap w ! ref)) = stateEntry (cw_heap w ! ref)"
    and "mc_exited (cw_heap w ! ref) \<Longrightarrow> mc_exited (f (cw_heap w ! ref))"
  shows "file_covers (update_heap ref f w)"
  using assms(1) running_entries_update [of f w ref] assms(2,3) by (auto simp: file_covers_def)

lemma KillWithEscalation_entry [simp]:
  "stateEntry (KillWithEscalation g mc) = stateEntry mc" "mc_exited (KillWithEscalation g mc) = mc_exited mc"
  "mc_id (KillWithEscalation g mc) = mc_id mc"
  by (simp_all add: KillWithEscalation_def stateEntry_def)

lemma CloseAll_fold:
  "file_covers w \<Longrightarrow> world_ok w \<Longrightarrow>
    file_covers (fold (\<lambda>ref. update_heap ref (\<lambda>mc. if mc_done mc then mc else KillWithEscalation g mc)) refs w) \<and>
    world_ok (fold (\<lambda>ref. update_heap ref (\<lambda>mc. if mc_done mc then mc else KillWithEscalation g mc)) refs w)"
proof (induction refs arbitrary: w)
  case (Cons ref refs)
  have "file_covers (update_heap ref (\<lambda>mc. if mc_done mc then mc else KillWithEscalation g mc) w)"
    using Cons.prems by (intro file_covers_update) auto
  moreover have "world_ok (update_heap ref (\<lambda>mc. if mc_done mc then mc else KillWithEscalation g mc) w)"
    using Cons.prems by (intro world_ok_update) (auto simp: KillWithEscalation_def managed_ok_killers)
  ultimately show ?case
    using Cons.IH by simp
qed simp

lemma reg_step_ok:
  assumes "reg_step w w'" and "world_ok w" and "file_covers w"
  shows "world_ok w' \<and> file_covers w'"
  using assms
proof (induction rule: reg_step.induct)
  case (register spec now rnd w cmd w' ref)
  have path: "reg_statePath (cw_reg w) \<noteq> ''''"
    using register by (simp add: file_covers_def)
  have "file_covers w'"
    by (rule RegisterE [OF register(2)]) (use path in \<open>auto simp: file_covers_def\<close>)
  then show ?case
    using register world_ok_Register by blast
next
  case (command delay grace explicit now w ref now' mc)
  have ok: "managed_ok (cw_heap w ! ref)"
    using command by (simp add: world_ok_def)
  have e: "stateEntry mc = stateEntry (cw_heap w ! ref)" "mc_id mc = mc_id (cw_heap w ! ref)"
    "mc_exited (cw_heap w ! ref) \<Longrightarrow> mc_exited mc"
    using mc_step_entry [OF command(1)] by auto
  have "managed_ok mc"
    using mc_step_ok [OF command(1)] ok by simp
  then show ?case
    using command e by (simp add: world_ok_mc file_covers_update)
next
  case (finish ref w forget)
  then show ?case
    by (simp add: world_ok_reapFinish) (simp add: reapFinish_def Let_def file_covers_def [of w])
next
  case (remove w cid)
  then show ?case
    by (simp add: Remove_def world_ok_delete file_covers_def [of w])
next
  case (reap w budget)
  show ?case
  proof (rule ReapExited_spec [of w True budget])
    fix k :: nat
    assume *: "world_ok w \<Longrightarrow> world_ok (ReapExited True budget w)"
      "k = 0 \<Longrightarrow> ReapExited True budget w = w"
      "0 < k \<Longrightarrow> \<exists>w1. ReapExited True budget w = writeStateLocked True w1"
      "reg_statePath (cw_reg (ReapExited True budget w)) = reg_statePath (cw_reg w)"
    have "file_covers (ReapExited True budget w)"
    proof (cases "k = 0")
      case True
      then show ?thesis using *(2) reap by simp
    next
      case False
      then have "0 < k" by simp
      from *(3) [OF this] obtain w1 where w1: "ReapExited True budget w = writeStateLocked True w1"
        by (rule exE)
      moreover have "reg_statePath (cw_reg w1) \<noteq> []"
        using *(4) reap by (simp add: w1 file_covers_def)
      ultimately show ?thesis by simp
    qed
    then show "world_ok (ReapExited True budget w) \<and> file_covers (ReapExited True budget w)"
      using *(1) reap by simp
  qed
next
  case (close_begin w)
  have "file_covers (w\<lparr>cw_reg := (cw_reg w)\<lparr>reg_closed := True\<rparr>\<rparr>)"
    "world_ok (w\<lparr>cw_reg := (cw_reg w)\<lparr>reg_closed := True\<rparr>\<rparr>)"
    using close_begin by (simp_all add: file_covers_def world_ok_def running_entries_def registered_def)
  then show ?case
    using CloseAll_fold by (simp add: CloseAllBegin_def Let_def)
next
  case (close_end w)
  then show ?case by (simp add: CloseAllEnd_def file_covers_def [of w])
qed

lemma reg_steps_ok:
  "reg_step\<^sup>*\<^sup>* w w' \<Longrightarrow> world_ok w \<Longrightarrow> file_covers w \<Longrightarrow> world_ok w' \<and> file_covers w'"
  by (induction rule: rtranclp_induct) (auto dest: reg_step_ok)

subsection \<open>Properties\<close>

text \<open>
  C23. A managed command keeps its invariant under every interleaving of attaches, disconnects,
  detaches, timers, kills, writes and its exit: no attachment's channel is closed twice, the current
  attachment is not canceled, a kill is pending only while a kill-policy command runs with nobody
  attached, and the rings of an exited command are closed.
\<close>

theorem managed_command_invariant:
  assumes "spec_ok spec" and "(mc_step delay grace explicit)\<^sup>*\<^sup>* (t, newManagedCommand t cmd spec) (now, mc)"
  shows "ClosePanic \<notin> set (mc_attachments mc)
    \<and> (\<forall>h. currentIs mc h \<longrightarrow> h < length (mc_attachments mc) \<and> \<not> Canceled mc h)
    \<and> (mc_pendingKill mc \<noteq> None \<longrightarrow> mc_current mc = None \<and> mc_persistence mc = persistenceKill \<and> \<not> mc_exited mc)
    \<and> (mc_exited mc \<longrightarrow> r_closed (mc_stdoutRing mc) \<and> r_closed (mc_stderrRing mc))"
proof -
  have "managed_ok mc"
    using mc_steps_ok [OF assms(2)] managed_ok_new assms(1) by (simp add: spec_ok_def)
  then show ?thesis
    by (auto simp: managed_ok_def currentIs_def Canceled_def split: option.splits)
qed

definition sample_cmd :: local_command where
  "sample_cmd = \<lparr>lc_pid = 7, lc_isPty = False, lc_sharedOutput = False, lc_stdin = [], lc_stdinClosed = False,
     lc_kills = [], lc_winsize = None, lc_released = False, lc_outputsClosed = False\<rparr>"

definition sample_spec :: "commandPersistence \<Rightarrow> ManagedCommandSpec" where
  "sample_spec p = \<lparr>spec_display = ''cat'', spec_cwd = '''', spec_pty = False, spec_persistence = p,
     spec_stdoutCapacity = 0, spec_stderrCapacity = 0\<rparr>"

definition sample_attached :: ManagedCommand where
  "sample_attached = fst (attach (newManagedCommand 0 sample_cmd (sample_spec persistenceKill)))"

lemmas sample_defs = sample_cmd_def sample_spec_def sample_attached_def newManagedCommand_def attach_def Let_def

lemma sample_spec_ok [simp]: "spec_ok (sample_spec p)"
  by (simp add: spec_ok_def sample_spec_def)

lemma sample_reachable:
  "(mc_step d g e)\<^sup>*\<^sup>* (0, newManagedCommand 0 sample_cmd (sample_spec persistenceKill)) (0, sample_attached)"
  unfolding sample_attached_def using mc_step.attach by blast

lemma sample_ok: "managed_ok sample_attached"
  unfolding sample_attached_def
  by (intro managed_ok_attach managed_ok_new) (simp_all add: sample_spec_def)

theorem managed_command_invariant_witness:
  "mc_current sample_attached = Some 0 \<and> ClosePanic \<notin> set (mc_attachments sample_attached)"
  using managed_command_invariant [OF sample_spec_ok sample_reachable] by (simp add: sample_defs)

text \<open>
  C25. A client that comes back in time finds its command untouched. After the attached client of a
  command that nobody is killing disconnects at time \<open>t\<close>, and whatever happens short of an explicit
  kill or signal, no signal is sent to its process group before \<open>t\<close> plus the re-attach window.
\<close>

theorem reattach_window_spares_command:
  assumes "managed_ok mc" and "currentIs mc h" and "mc_killers mc = []"
    and "(mc_step delay grace False)\<^sup>*\<^sup>* (t, ClientGone delay t mc h) (now, mc')" and "now < t + delay"
  shows "lc_kills (mc_cmd mc') = lc_kills (mc_cmd mc) \<and> mc_killers mc' = []"
proof -
  have "spared (t + delay) (lc_kills (mc_cmd mc)) (ClientGone delay t mc h)"
    using assms(1-3) by (intro ClientGone_spared) (auto simp: currentIs_def)
  then have "spared (t + delay) (lc_kills (mc_cmd mc)) mc'"
    using spared_steps [OF assms(4)] assms(5) by simp
  then show ?thesis
    by (simp add: spared_def)
qed

theorem reattach_window_spares_command_witness:
  "lc_kills (mc_cmd (firePendingKill 5 (0 + 9) (ClientGone 10 0 sample_attached 0))) = []"
proof -
  have "mc_step 10 5 False (0, ClientGone 10 0 sample_attached 0) (9, ClientGone 10 0 sample_attached 0)"
    by (rule mc_step.tick) simp
  then have "(mc_step 10 5 False)\<^sup>*\<^sup>* (0, ClientGone 10 0 sample_attached 0)
      (9, firePendingKill 5 9 (ClientGone 10 0 sample_attached 0))"
    using mc_step.fire by (meson rtranclp.rtrancl_into_rtrancl rtranclp.rtrancl_refl)
  from reattach_window_spares_command [OF sample_ok _ _ this] show ?thesis
    by (simp add: currentIs_def) (simp add: sample_defs)
qed

text \<open>
  C26. A kill-policy command whose client never returns is terminated. Once the window has passed, the
  timer starts the killing goroutine, which sends SIGTERM to the process group and, if the command
  is not done when the grace period ends, SIGKILL, and nothing else.
\<close>

theorem abandoned_command_is_killed:
  assumes "currentIs mc h" and "mc_persistence mc = persistenceKill" and "\<not> mc_exited mc" and "\<not> mc_done mc"
    and "mc_killers mc = []" and "\<forall>target sg. kill_ok target sg" and "t + delay \<le> now" and "now + grace \<le> later"
  shows "let mc1 = firePendingKill grace now (ClientGone delay t mc h);
             (mc2, k2) = killGroupWithGrace kill_ok pick now mc1 (hd (mc_killers mc1));
             (mc3, k3) = killGroupWithGrace kill_ok pick later mc2 (the k2)
         in mc_killers mc1 = [KillStart grace] \<and> k2 = Some (KillGrace (now + grace)) \<and> k3 = None
            \<and> lc_kills (mc_cmd mc3) =
                lc_kills (mc_cmd mc) @ [(- lc_pid (mc_cmd mc), SIGTERM), (- lc_pid (mc_cmd mc), SIGKILL)]"
proof -
  define mc1 where "mc1 = mc\<lparr>mc_current := None, mc_pendingKill := Some Fired, mc_killers := [KillStart grace]\<rparr>"
  have fire: "firePendingKill grace now (ClientGone delay t mc h) = mc1"
    using assms(1-3,5,7) by (simp add: firePendingKill_def ClientGone_def currentIs_def Let_def mc1_def)
  define mc2 where "mc2 = fst (mc_Signal kill_ok mc1 SignalTerminate)"
  have k2: "killGroupWithGrace kill_ok pick now mc1 (KillStart grace) = (mc2, Some (KillGrace (now + grace)))"
    using assms(3) by (simp add: killGroupWithGrace_def mc2_def mc1_def)
  have s2: "lc_kills (mc_cmd mc2) = lc_kills (mc_cmd mc) @ [(- lc_pid (mc_cmd mc), SIGTERM)]"
    "lc_pid (mc_cmd mc2) = lc_pid (mc_cmd mc)" "\<not> mc_done mc2"
    using assms(4,6) by (simp_all add: mc2_def mc_Signal_cmd Signal_def sys_kill_def Let_def mc1_def)
  have "killGroupWithGrace kill_ok pick later mc2 (KillGrace (now + grace)) =
      (fst (mc_Signal kill_ok mc2 SignalKill), None)"
    using s2(3) assms(8) by (simp add: killGroupWithGrace_def)
  moreover have "lc_kills (mc_cmd (fst (mc_Signal kill_ok mc2 SignalKill))) =
      lc_kills (mc_cmd mc) @ [(- lc_pid (mc_cmd mc), SIGTERM), (- lc_pid (mc_cmd mc), SIGKILL)]"
    using mc_Signal_group [of SignalKill SIGKILL kill_ok mc2] assms(6) s2 by simp
  ultimately show ?thesis
    unfolding fire using k2 by (simp add: mc1_def Let_def)
qed

theorem abandoned_command_is_killed_witness:
  "let mc1 = firePendingKill 5 10 (ClientGone 10 0 sample_attached 0);
       (mc2, k2) = killGroupWithGrace (\<lambda>_ _. True) True 10 mc1 (hd (mc_killers mc1));
       (mc3, k3) = killGroupWithGrace (\<lambda>_ _. True) True 15 mc2 (the k2)
   in lc_kills (mc_cmd mc3) = [(- 7, SIGTERM), (- 7, SIGKILL)]"
proof -
  have "currentIs sample_attached 0" "mc_persistence sample_attached = persistenceKill"
    "\<not> mc_exited sample_attached" "\<not> mc_done sample_attached" "mc_killers sample_attached = []"
    "lc_kills (mc_cmd sample_attached) = []" "lc_pid (mc_cmd sample_attached) = 7"
    by (simp_all add: currentIs_def sample_defs)
  note s = this
  from abandoned_command_is_killed [OF s(1-5), of "\<lambda>_ _. True" 0 10 10 5 15 True] show ?thesis
    by (auto simp: s(6,7) Let_def split: prod.splits)
qed

text \<open>
  The drain of a command registered with the keep policy never blocks, whatever happens to it
  afterwards, so it cannot wedge on a full pipe while nobody reads its output.
\<close>

theorem keep_command_drain_never_blocks:
  assumes "spec_persistence spec = persistenceKeep"
    and "(mc_step delay grace explicit)\<^sup>*\<^sup>* (t, newManagedCommand t cmd spec) (now, mc)"
  shows "snd (drainIntoRing (mc_stdoutRing mc) reads) \<noteq> DrainBlocked n g
    \<and> snd (drainIntoRing (mc_stderrRing mc) reads) \<noteq> DrainBlocked n g"
proof -
  have "\<not> r_lossless (mc_stdoutRing mc) \<and> \<not> r_lossless (mc_stderrRing mc)"
    using mc_steps_lossless [OF assms(2)] assms(1)
    by (simp add: newManagedCommand_def newOutputRing_def Let_def)
  then show ?thesis
    using drain_evicting_never_blocks by blast
qed

text \<open>
  A kill-policy command that is explicitly detached does wedge. Its policy becomes keep but its
  rings stay lossless: with nobody attached to confirm anything, the drain of its output blocks once
  it has read more than one ring's capacity, however the reads are sliced.
\<close>

theorem detached_command_drain_blocks:
  assumes "spec_persistence spec = persistenceKill" and "spec_stdoutCapacity spec = 0"
    and "defaultOutputRingCapacity < int (length (concat bufs))" and "length (concat bufs) < 2 ^ 64"
  shows "let mc = fst (DetachAndKeep (newManagedCommand t cmd spec)) in
    mc_persistence mc = persistenceKeep \<and>
    (\<exists>n g. snd (drainIntoRing (mc_stdoutRing mc) (map (\<lambda>b. (b, False)) bufs)) = DrainBlocked n g)"
proof -
  let ?r = "setLossless (newOutputRing defaultOutputRingCapacity)"
  have ring: "mc_stdoutRing (fst (DetachAndKeep (newManagedCommand t cmd spec))) = ?r"
    using assms(1,2) by (simp add: DetachAndKeep_def newManagedCommand_def Let_def)
  have rep: "lossless_rep ?r []"
    by (rule lossless_rep_new) (simp_all add: defaultOutputRingCapacity_def)
  have sel: "r_released ?r = 0" "\<not> r_closed ?r" "r_capacity ?r = defaultOutputRingCapacity"
    by (simp_all add: setLossless_def newOutputRing_def)
  have "\<exists>n g. snd (drainIntoRing ?r (map (\<lambda>b. (b, False)) bufs)) = DrainBlocked n g"
    using drain_unconfirmed_blocks [OF rep sel(1,2), of bufs] assms(3,4) sel(3) by simp
  moreover have "mc_persistence (fst (DetachAndKeep (newManagedCommand t cmd spec))) = persistenceKeep"
    by (simp add: DetachAndKeep_def Let_def split: option.split)
  ultimately show ?thesis
    unfolding Let_def ring by blast
qed

text \<open>
  Reaping forgets only exited commands nobody is attached to, oldest exit first and no more than
  needed. The commands removed are a shortest prefix of the candidates in order of exit whose
  removal brings the retained output within the budget; if none does, all candidates are removed.
\<close>

theorem reap_exited_correct:
  assumes "world_ok w"
  shows "\<exists>k. let gone = take k (reap_order w); w' = ReapExited write_ok budget w in
    reg_commands (cw_reg w') = filter (\<lambda>(cid, _). cid \<notin> rc_id ` set gone) (reg_commands (cw_reg w))
    \<and> (\<forall>(cid, ref) \<in> set (reg_commands (cw_reg w)). cid \<in> rc_id ` set gone \<longrightarrow> reapable (cw_heap w ! ref))
    \<and> (sum_list (map retained (registered w')) \<le> budget \<or> (\<forall>mc \<in> set (registered w'). \<not> reapable mc))
    \<and> (\<forall>j<k. budget < sum_list (map retained (registered w)) - sum_list (map rc_retained (take j (reap_order w))))"
proof (rule ReapExited_spec [of w write_ok budget])
  fix k
  let ?w' = "ReapExited write_ok budget w"
  assume k: "reg_commands (cw_reg ?w') = filter (\<lambda>(i, _). i \<notin> rc_id ` set (take k (reap_order w))) (reg_commands (cw_reg w))"
    "cw_heap ?w' = cw_heap w"
    "k = length (reap_order w) \<or>
      sum_list (map retained (registered w)) - sum_list (map rc_retained (take k (reap_order w))) \<le> budget"
    "\<forall>j<k. budget < sum_list (map retained (registered w)) - sum_list (map rc_retained (take j (reap_order w)))"
  have "sum_list (map retained (registered ?w')) \<le> budget \<or> (\<forall>mc \<in> set (registered ?w'). \<not> reapable mc)"
    using k(3) ReapExited_total [OF assms k(1,2)] ReapExited_none_left [OF _ k(2)] k(1) by auto
  moreover have "reapable (cw_heap w ! ref)"
    if "(cid, ref) \<in> set (reg_commands (cw_reg w))" "cid \<in> rc_id ` set (take k (reap_order w))" for cid ref
    using reap_order_reapable [OF assms that(1)] that(2) set_take_subset [of k "reap_order w"] by blast
  ultimately show ?thesis
    unfolding Let_def using k(1,4) by (intro exI [of _ k]) auto
qed

definition sample_exited :: "string \<Rightarrow> int \<Rightarrow> ManagedCommand" where
  "sample_exited cid t = (fst (reapRecord t 0 None (newManagedCommand 0 sample_cmd (sample_spec persistenceKeep))))
     \<lparr>mc_id := cid, mc_stdoutRing := (Close (newOutputRing 4))\<lparr>r_buf := [1, 2]\<rparr>\<rparr>"

definition sample_world :: command_world where
  "sample_world = (new_world ''p'' None)\<lparr>cw_heap := [sample_exited ''a'' 20, sample_exited ''b'' 10],
     cw_reg := (NewCommandRegistry ''p'')\<lparr>reg_commands := [(''a'', 0), (''b'', 1)]\<rparr>\<rparr>"

lemma sample_world_ok: "world_ok sample_world"
  by (simp add: world_ok_def sample_world_def sample_exited_def sample_defs managed_ok_def ring_ok_def
      reapRecord_def Close_def newOutputRing_def make_chan_def defaultOutputRingCapacity_def)

lemma sample_world_reaped: "reg_commands (cw_reg (ReapExited True 3 sample_world)) = [(''a'', 0)]"
  by (simp add: ReapExited_def Let_def registered_def sample_world_def retained_def RetainedBytes_def
      reapCandidates_def reapable_def sample_exited_def sample_defs reapRecord_def Close_def newOutputRing_def
      insort_key.simps delete_command_def)

text \<open>
  C27. A crash never orphans a registered command. Starting from a fresh daemon that has written its
  state file, and as long as the file can be written, after every critical section of the registry
  and of its commands each registered command that is still running has its entry in the state file
  on disk; identifiers are unique and every object keeps the invariant of a managed command.
\<close>

theorem state_file_covers_running:
  assumes "path \<noteq> ''''" and "reg_step\<^sup>*\<^sup>* (writeStateLocked True (new_world path old)) w"
  shows "(\<exists>es. cw_stateFile w = Some es \<and> (\<forall>mc \<in> set (registered w). \<not> mc_exited mc \<longrightarrow> stateEntry mc \<in> set es))
    \<and> distinct (map fst (reg_commands (cw_reg w))) \<and> (\<forall>mc \<in> set (cw_heap w). managed_ok mc)"
proof -
  let ?w0 = "writeStateLocked True (new_world path old)"
  have "world_ok ?w0" "file_covers ?w0"
    using assms(1) by (simp_all add: world_ok_new) (simp add: new_world_def NewCommandRegistry_def)
  then have "world_ok w \<and> file_covers w"
    using reg_steps_ok [OF assms(2)] by simp
  then show ?thesis
    by (fastforce simp: world_ok_def file_covers_def running_entries_def)
qed

lemma register_first_draw:
  assumes "reg_commands (cw_reg w) = []" and "\<not> reg_closed (cw_reg w)"
  shows "\<exists>w' ref. Register ok now (\<lambda>_. Some bs) w cmd spec = Inr (w', ref)"
proof -
  have "newUniqueCommandIDLocked [] (\<lambda>_. Some bs) 0 (Suc 7) = Inr (EncodeToString bs)"
    by (simp only: newUniqueCommandIDLocked.simps newCommandID_def) simp
  then have "newUniqueCommandIDLocked [] (\<lambda>_. Some bs) 0 8 = Inr (EncodeToString bs)"
    by simp
  then show ?thesis
    using assms by (simp add: Register_def Let_def)
qed

theorem state_file_covers_running_witness:
  "\<exists>w' ref. Register True 0 (\<lambda>_. Some [1, 2, 3, 4]) (writeStateLocked True (new_world ''p'' None)) sample_cmd
       (sample_spec persistenceKill) = Inr (w', ref)
     \<and> registered w' \<noteq> [] \<and> (\<exists>es. cw_stateFile w' = Some es \<and> (\<forall>mc \<in> set (registered w'). \<not> mc_exited mc \<longrightarrow> stateEntry mc \<in> set es))"
proof -
  let ?w0 = "writeStateLocked True (new_world ''p'' None)"
  obtain w' ref where reg: "Register True 0 (\<lambda>_. Some [1, 2, 3, 4]) ?w0 sample_cmd (sample_spec persistenceKill) = Inr (w', ref)"
    using register_first_draw [where w = "?w0"] by (fastforce simp: new_world_def NewCommandRegistry_def)
  have "reg_step\<^sup>*\<^sup>* ?w0 w'"
    using reg_step.register [OF sample_spec_ok reg] by simp
  from state_file_covers_running [OF _ this]
  have "\<exists>es. cw_stateFile w' = Some es \<and> (\<forall>mc \<in> set (registered w'). \<not> mc_exited mc \<longrightarrow> stateEntry mc \<in> set es)"
    by simp
  moreover have "registered w' \<noteq> []"
    by (rule RegisterE [OF reg]) (simp add: registered_def)
  ultimately show ?thesis using reg by blast
qed

text \<open>
  A registered command gets an identifier no other has, one of at most eight random draws, and the
  registry finds it under that identifier; the other commands and their objects are untouched.
\<close>

theorem register_assigns_fresh_id:
  assumes "world_ok w" and "Register write_ok now rnd w cmd spec = Inr (w', ref)"
  shows "\<exists>cid. Get w cid = None \<and> Get w' cid = Some ref \<and> mc_id (cw_heap w' ! ref) = cid
    \<and> (\<exists>i<8. map_option EncodeToString (rnd i) = Some cid)
    \<and> (\<forall>other. other \<noteq> cid \<longrightarrow> Get w' other = Get w other) \<and> take (length (cw_heap w)) (cw_heap w') = cw_heap w"
proof -
  obtain cid where cid: "newUniqueCommandIDLocked (reg_commands (cw_reg w)) rnd 0 8 = Inr cid"
    using assms(2) by (auto simp: Register_def Let_def split: if_splits sum.splits)
  note fresh = newUniqueCommandID_fresh [OF cid]
  obtain c mc where r: "ref = length (cw_heap w)" "cw_heap w' = cw_heap w @ [mc]" "mc_id mc = c"
    "cw_reg w' = (cw_reg w)\<lparr>reg_commands := reg_commands (cw_reg w) @ [(c, ref)]\<rparr>"
    using RegisterE [OF assms(2)] by metis
  have "reg_commands (cw_reg w') = reg_commands (cw_reg w) @ [(cid, ref)]"
    using assms(2) cid by (auto simp: Register_def Let_def split: if_splits)
  then have "c = cid"
    using r(4) by simp
  moreover have "Get w cid = None"
    using fresh by (simp add: Get_def map_of_eq_None_iff)
  ultimately show ?thesis
    using r fresh by (intro exI [of _ cid]) (auto simp: Get_def map_add_def split: option.splits)
qed

lemma reconcileLoop_signals:
  "(\<forall>target \<in> set (fst (reconcileLoop os es)). \<exists>e \<in> set es. target = - cse_pid e \<and> staleGuard os e)
   \<and> (\<forall>esc \<in> set (snd (reconcileLoop os es)). - fst esc \<in> set (fst (reconcileLoop os es)))"
proof (induction es)
  case (Cons e es)
  obtain kills escs where r: "reconcileLoop os es = (kills, escs)"
    by fastforce
  have IH: "\<forall>target \<in> set kills. \<exists>e \<in> set es. target = - cse_pid e \<and> staleGuard os e"
    "\<forall>esc \<in> set escs. - fst esc \<in> set kills"
    using Cons r by auto
  show ?case
    using IH by (cases "staleGuard os e"; cases "os_killOk os (- cse_pid e) SIGTERM") (simp_all add: r)
qed simp

text \<open>
  C28. Cleaning up after an earlier daemon signals only process groups it can vouch for. Each group
  that gets SIGTERM was recorded with a positive process id and is led by a live process that looks
  spawned by the daemon, or has lost its leader but not all its members; the later SIGKILL is
  guarded the same way again.
\<close>

theorem reconcile_signals_only_vouched_groups:
  assumes "ReconcileStale write_ok os w = (w', kills, escs)"
  shows "(\<forall>target \<in> set kills. \<exists>es e. cw_stateFile w = Some es \<and> e \<in> set es \<and> target = - cse_pid e \<and> 0 < cse_pid e
      \<and> (os_getpgid os (cse_pid e) = Some (cse_pid e) \<and> os_looksSpawned os (cse_pid e) (cse_startedAtUnix e)
         \<or> os_getpgid os (cse_pid e) = None \<and> os_groupAlive os (cse_pid e)))
    \<and> (\<forall>esc \<in> set escs. - fst esc \<in> set kills)
    \<and> (\<forall>os' pid started. escalateStaleKill os' pid started \<noteq> [] \<longrightarrow>
         os_groupAlive os' pid \<and> (os_getpgid os' pid = None \<or>
           os_getpgid os' pid = Some pid \<and> os_looksSpawned os' pid started))"
proof -
  have guard: "staleGuard os e \<Longrightarrow> 0 < cse_pid e
      \<and> (os_getpgid os (cse_pid e) = Some (cse_pid e) \<and> os_looksSpawned os (cse_pid e) (cse_startedAtUnix e)
         \<or> os_getpgid os (cse_pid e) = None \<and> os_groupAlive os (cse_pid e))" for e
    by (auto simp: staleGuard_def split: if_splits option.splits)
  have esc: "\<forall>os' pid started. escalateStaleKill os' pid started \<noteq> [] \<longrightarrow>
         os_groupAlive os' pid \<and> (os_getpgid os' pid = None \<or>
           os_getpgid os' pid = Some pid \<and> os_looksSpawned os' pid started)"
    by (auto simp: escalateStaleKill_def split: if_splits option.splits)
  have "kills = [] \<and> escs = [] \<or> (\<exists>es. cw_stateFile w = Some es \<and> reconcileLoop os es = (kills, escs))"
    using assms by (auto simp: ReconcileStale_def split: if_splits option.splits)
  then show ?thesis
  proof (elim disjE exE conjE)
    fix es
    assume es: "cw_stateFile w = Some es" "reconcileLoop os es = (kills, escs)"
    have "\<exists>e \<in> set es. target = - cse_pid e \<and> staleGuard os e" if "target \<in> set kills" for target
      using reconcileLoop_signals [of os es] es(2) that by simp
    moreover have "\<forall>esc \<in> set escs. - fst esc \<in> set kills"
      using reconcileLoop_signals [of os es] es(2) by simp
    ultimately show ?thesis
      using es(1) guard esc by blast
  qed (use esc in simp)
qed

definition sample_os :: os_view where
  "sample_os = \<lparr>os_getpgid = (\<lambda>p. if p = 42 then Some 42 else None), os_groupAlive = (\<lambda>p. p = 42),
     os_killOk = (\<lambda>_ _. True), os_looksSpawned = (\<lambda>p s. p = 42)\<rparr>"

theorem reconcile_signals_only_vouched_groups_witness:
  "\<exists>w' kills escs. ReconcileStale True sample_os (new_world ''p'' (Some
      [\<lparr>cse_id = ''a'', cse_pid = 42, cse_startedAtUnix = 0, cse_display = ''''\<rparr>,
       \<lparr>cse_id = ''b'', cse_pid = 43, cse_startedAtUnix = 0, cse_display = ''''\<rparr>])) = (w', kills, escs)
     \<and> kills = [- 42] \<and> (\<forall>esc \<in> set escs. - fst esc \<in> set kills)"
proof -
  let ?w = "new_world ''p'' (Some
      [\<lparr>cse_id = ''a'', cse_pid = 42, cse_startedAtUnix = 0, cse_display = ''''\<rparr>,
       \<lparr>cse_id = ''b'', cse_pid = 43, cse_startedAtUnix = 0, cse_display = ''''\<rparr>])"
  obtain w' escs where run: "ReconcileStale True sample_os ?w = (w', [- 42], escs)"
    by (simp add: ReconcileStale_def new_world_def NewCommandRegistry_def staleGuard_def sample_os_def)
  from reconcile_signals_only_vouched_groups [OF run] have "\<forall>esc \<in> set escs. - fst esc \<in> set [- 42]"
    by blast
  with run show ?thesis by blast
qed

text \<open>
  The listing shows every registered command exactly once, oldest start first.
\<close>

theorem list_is_sorted_and_complete:
  "mset (ListCommands w) = mset (map info (registered w)) \<and> sorted (map ci_startedAtUnix (ListCommands w))"
proof -
  have "sorted (map mc_startedAt (sort_key mc_startedAt (registered w)))"
    by (rule sorted_sort_key)
  then have "sorted (map unix_time (map mc_startedAt (sort_key mc_startedAt (registered w))))"
    by (rule sorted_map_mono) (auto simp: mono_on_def unix_time_def second_def intro: zdiv_mono1)
  moreover have eq: "map ci_startedAtUnix (ListCommands w) =
      map unix_time (map mc_startedAt (sort_key mc_startedAt (registered w)))"
    by (simp add: ListCommands_def info_def)
  ultimately have "sorted (map ci_startedAtUnix (ListCommands w))"
    by (simp only:)
  then show ?thesis
    by (simp add: ListCommands_def)
qed

end
