(* ===== verification/GoPath.thy ===== *)
theory GoPath
  imports GoStrings
begin

text \<open>
  The lexical part of Go's \<^verbatim>\<open>path/filepath\<close> on Unix: cleaning, joining and splitting of slash-separated
  paths.
\<close>

abbreviation slash :: char where
  "slash \<equiv> CHR ''/''"

subsection \<open>Definitions\<close>

definition cleanStep :: "bool \<Rightarrow> string list \<Rightarrow> string \<Rightarrow> string list" where
  "cleanStep rooted stack c =
     (if c = '''' \<or> c = ''.'' then stack
      else if c = ''..'' then
        (case stack of
           [] \<Rightarrow> if rooted then [] else [c]
         | x # xs \<Rightarrow> if x = ''..'' then c # stack else xs)
      else c # stack)"

definition render :: "bool \<Rightarrow> string list \<Rightarrow> string" where
  "render rooted parts =
     (if rooted then slash # Join [slash] parts
      else if parts = [] then ''.'' else Join [slash] parts)"

fun Clean :: "string \<Rightarrow> string" where
  "Clean [] = ''.''"
| "Clean (c # p) =
     (let rooted = (c = slash) in
      render rooted (rev (foldl (cleanStep rooted) [] (Split slash (c # p)))))"

definition PathJoin :: "string list \<Rightarrow> string" where
  "PathJoin elems =
     (let es = dropWhile (\<lambda>e. e = '''') elems in
      if es = [] then '''' else Clean (Join [slash] es))"

definition IsAbs :: "string \<Rightarrow> bool" where
  "IsAbs p \<longleftrightarrow> p \<noteq> [] \<and> hd p = slash"

definition Dir :: "string \<Rightarrow> string" where
  "Dir p = Clean (rev (dropWhile (\<lambda>c. c \<noteq> slash) (rev p)))"

definition Base :: "string \<Rightarrow> string" where
  "Base p =
     (if p = '''' then ''.''
      else
        let stripped = rev (dropWhile (\<lambda>c. c = slash) (rev p)) in
        if stripped = '''' then ''/''
        else rev (takeWhile (\<lambda>c. c \<noteq> slash) (rev stripped)))"

subsection \<open>Normal paths\<close>

text \<open>A name that stands for itself in a path, and the stacks cleaning builds.\<close>

definition simple_name :: "string \<Rightarrow> bool" where
  "simple_name n \<longleftrightarrow> n \<noteq> '''' \<and> n \<noteq> ''.'' \<and> n \<noteq> ''..'' \<and> slash \<notin> set n"

definition clean_stack :: "bool \<Rightarrow> string list \<Rightarrow> bool" where
  "clean_stack rooted stack \<longleftrightarrow>
     (\<exists>us n. stack = us @ replicate n ''..'' \<and> list_all simple_name us \<and> (rooted \<longrightarrow> n = 0))"

lemma simple_nameD: "simple_name n \<Longrightarrow> n \<noteq> '''' \<and> n \<noteq> ''.'' \<and> n \<noteq> ''..'' \<and> slash \<notin> set n"
  by (simp add: simple_name_def)

lemma clean_stack_Nil [simp]: "clean_stack rooted []"
  by (simp add: clean_stack_def)

lemma clean_stack_simple: "list_all simple_name us \<Longrightarrow> clean_stack rooted us"
  unfolding clean_stack_def by (intro exI [of _ us] exI [of _ 0]) simp

lemma clean_stack_Cons:
  assumes "clean_stack rooted stack" and "simple_name c"
  shows "clean_stack rooted (c # stack)"
proof -
  obtain us n where "stack = us @ replicate n ''..''" "list_all simple_name us" "rooted \<longrightarrow> n = 0"
    using assms(1) by (auto simp: clean_stack_def)
  then show ?thesis
    using assms(2) unfolding clean_stack_def by (intro exI [of _ "c # us"] exI [of _ n]) simp
qed

lemma clean_stack_up:
  assumes "clean_stack rooted stack"
  shows "clean_stack rooted (cleanStep rooted stack ''..'')"
proof -
  obtain us n where s: "stack = us @ replicate n ''..''" "list_all simple_name us" "rooted \<longrightarrow> n = 0"
    using assms by (auto simp: clean_stack_def)
  show ?thesis
  proof (cases us)
    case Nil
    show ?thesis
    proof (cases rooted)
      case True
      then show ?thesis using s Nil by (simp add: cleanStep_def)
    next
      case False
      have "cleanStep rooted stack ''..'' = [] @ replicate (Suc n) ''..''"
        using s(1) Nil False by (cases n) (simp_all add: cleanStep_def)
      then show ?thesis
        using False unfolding clean_stack_def by (intro exI [of _ "[]"] exI [of _ "Suc n"]) simp
    qed
  next
    case (Cons u us')
    then have "cleanStep rooted stack ''..'' = us' @ replicate n ''..''"
      using s(1,2) by (auto simp: cleanStep_def dest: simple_nameD)
    then show ?thesis
      using s(2,3) Cons unfolding clean_stack_def by (intro exI [of _ us'] exI [of _ n]) simp
  qed
qed

lemma clean_stack_step:
  assumes "clean_stack rooted stack" and "slash \<notin> set c"
  shows "clean_stack rooted (cleanStep rooted stack c)"
proof (cases "c = '''' \<or> c = ''.'' \<or> c = ''..''")
  case True
  moreover have "cleanStep rooted stack c = stack" if "c = '''' \<or> c = ''.''"
    using that by (simp add: cleanStep_def)
  ultimately show ?thesis
    using assms(1) clean_stack_up [OF assms(1)] by (cases "c = ''..''") auto
next
  case False
  then have "cleanStep rooted stack c = c # stack"
    by (simp add: cleanStep_def)
  moreover have "simple_name c"
    using False assms(2) by (simp add: simple_name_def)
  ultimately show ?thesis
    using assms(1) by (simp add: clean_stack_Cons)
qed

lemma clean_stack_foldl:
  "clean_stack rooted stack \<Longrightarrow> \<forall>c \<in> set cs. slash \<notin> set c \<Longrightarrow> clean_stack rooted (foldl (cleanStep rooted) stack cs)"
  by (induction cs arbitrary: stack) (auto intro: clean_stack_step)

text \<open>Cleaning the components of a clean stack gives them back.\<close>

lemma foldl_ups: "\<not> rooted \<Longrightarrow> foldl (cleanStep rooted) (replicate k ''..'') (replicate n ''..'') = replicate (n + k) ''..''"
proof (induction n arbitrary: k)
  case (Suc n)
  have "cleanStep rooted (replicate k ''..'') ''..'' = replicate (Suc k) ''..''"
    using Suc.prems by (cases k) (simp_all add: cleanStep_def)
  then show ?case
    using Suc.IH [OF Suc.prems, of "Suc k"] by simp
qed simp

lemma foldl_simple: "list_all simple_name cs \<Longrightarrow> foldl (cleanStep rooted) stack cs = rev cs @ stack"
  by (induction cs arbitrary: stack) (auto simp: cleanStep_def dest: simple_nameD)

lemma foldl_clean_stack:
  assumes "clean_stack rooted stack"
  shows "foldl (cleanStep rooted) [] (rev stack) = stack"
proof -
  obtain us n where s: "stack = us @ replicate n ''..''" "list_all simple_name us" "rooted \<longrightarrow> n = 0"
    using assms by (auto simp: clean_stack_def)
  have "foldl (cleanStep rooted) [] (replicate n ''..'') = replicate n ''..''"
    using foldl_ups [of rooted 0 n] s(3) by (cases rooted) simp_all
  then show ?thesis
    using s foldl_simple [of "rev us"] by (simp add: list_all_rev)
qed

lemma clean_stack_parts:
  assumes "clean_stack rooted stack" and "c \<in> set stack"
  shows "slash \<notin> set c" and "c \<noteq> ''''"
proof -
  obtain us n where s: "stack = us @ replicate n ''..''" "list_all simple_name us"
    using assms(1) by (auto simp: clean_stack_def)
  have "simple_name c \<or> c = ''..''"
    using assms(2) s by (auto simp: list_all_iff)
  then show "slash \<notin> set c" "c \<noteq> ''''"
    by (auto dest: simple_nameD)
qed

lemma cleanStep_Nil [simp]: "cleanStep rooted stack [] = stack"
  by (simp add: cleanStep_def)

lemma cleanStep_dot [simp]: "cleanStep rooted stack ''.'' = stack"
  by (simp add: cleanStep_def)

lemma Clean_rooted_parts:
  assumes "\<forall>c \<in> set parts. slash \<notin> set c"
  shows "Clean (slash # Join [slash] parts) = render True (rev (foldl (cleanStep True) [] parts))"
proof (cases "parts = []")
  case True
  then show ?thesis by (simp add: Let_def)
next
  case False
  have "Split slash (slash # Join [slash] parts) = [] # parts"
    using Split_Join [OF False assms] by simp
  then show ?thesis
    by (simp add: Let_def)
qed

lemma Clean_relative_parts:
  assumes "\<forall>c \<in> set parts. slash \<notin> set c" and "parts \<noteq> []" and "hd parts \<noteq> ''''"
  shows "Clean (Join [slash] parts) = render False (rev (foldl (cleanStep False) [] parts))"
proof -
  obtain x xs where p: "parts = x # xs" "x \<noteq> ''''" "slash \<notin> set x"
    using assms by (cases parts) auto
  obtain c r where x: "x = c # r" "c \<noteq> slash"
    using p(2,3) by (cases x) auto
  have "\<exists>t. Join [slash] parts = c # t"
    using p(1) x by (cases xs) auto
  then obtain t where t: "Join [slash] parts = c # t" ..
  show ?thesis
    using Split_Join [OF assms(2,1)] x(2) by (simp add: t Let_def)
qed

lemma Clean_render:
  assumes "clean_stack rooted stack"
  shows "Clean (render rooted (rev stack)) = render rooted (rev stack)"
proof -
  have no: "\<forall>c \<in> set (rev stack). slash \<notin> set c"
    using clean_stack_parts(1) [OF assms] by simp
  show ?thesis
  proof (cases rooted)
    case True
    then show ?thesis
      using Clean_rooted_parts [OF no] foldl_clean_stack [OF assms] by (simp add: render_def)
  next
    case False
    show ?thesis
    proof (cases "stack = []")
      case True
      then show ?thesis using False by (simp add: render_def Let_def)
    next
      case ne: False
      then have "hd (rev stack) \<noteq> ''''"
        using clean_stack_parts(2) [OF assms] by (simp add: hd_rev)
      then show ?thesis
        using Clean_relative_parts [OF no] ne False foldl_clean_stack [OF assms] by (simp add: render_def)
    qed
  qed
qed

lemma Clean_stack: "\<exists>rooted stack. clean_stack rooted stack \<and> Clean p = render rooted (rev stack)"
proof (cases p)
  case Nil
  then show ?thesis
    by (intro exI [of _ False] exI [of _ "[]"]) (simp add: render_def)
next
  case (Cons c q)
  have "clean_stack (c = slash) (foldl (cleanStep (c = slash)) [] (Split slash (c # q)))"
    by (rule clean_stack_foldl) (auto dest: Split_pieces simp del: Split.simps)
  then show ?thesis
    unfolding Cons Clean.simps Let_def by blast
qed

lemma Clean_idem: "Clean (Clean p) = Clean p"
  using Clean_stack [of p] Clean_render by metis

text \<open>Joining simple names to a clean absolute path appends them.\<close>

lemma Join_append: "xs \<noteq> [] \<Longrightarrow> ys \<noteq> [] \<Longrightarrow> Join sep (xs @ ys) = Join sep xs @ sep @ Join sep ys"
  by (induction xs rule: list_nonempty_induct) (auto simp: neq_Nil_conv)

lemma PathJoin_names:
  assumes "list_all simple_name bs" and "list_all simple_name ns" and "ns \<noteq> []"
  shows "PathJoin ((slash # Join [slash] bs) # ns) = slash # Join [slash] (bs @ ns)"
proof -
  let ?parts = "(if bs = [] then [[]] else bs) @ ns"
  have eq: "Join [slash] ((slash # Join [slash] bs) # ns) = slash # Join [slash] ?parts"
    using assms(3) Join_append [of bs ns] by (cases ns) (auto simp: Join_append)
  have no: "\<forall>c \<in> set ?parts. slash \<notin> set c"
    using assms by (auto simp: list_all_iff simple_name_def)
  have "foldl (cleanStep True) [] ?parts = rev (bs @ ns)"
    using foldl_simple [of "bs @ ns" True "[]"] assms by (cases "bs = []") simp_all
  then show ?thesis
    using Clean_rooted_parts [OF no] by (simp add: PathJoin_def eq render_def del: Join.simps)
qed

lemma Join_slash_inject:
  assumes "list_all simple_name as" and "list_all simple_name bs" and "Join [slash] as = Join [slash] bs"
  shows "as = bs"
proof (cases "as = []")
  case True
  then show ?thesis
    using assms by (cases bs rule: remdups_adj.cases) (auto simp: simple_name_def)
next
  case False
  have "bs \<noteq> []"
    using False assms by (cases as rule: remdups_adj.cases) (auto simp: simple_name_def)
  then show ?thesis
    using Split_Join [OF False] Split_Join [of bs slash] assms by (metis list_all_iff simple_nameD)
qed

end
