(* ===== verification/PathUtil.thy ===== *)
theory PathUtil
  imports GoPath
begin

text \<open>
  The helpers of \<^verbatim>\<open>pkg/utils.go\<close>: path prefixes on directory boundaries, the directories a daemon uses,
  the bounded line buffer of recent logs, and the writer that redraws terminal output. Environment
  variables are a function from names to values, empty when unset; \<^verbatim>\<open>os.UserHomeDir()\<close> is an argument, \<open>None\<close>
  when it fails.
\<close>

subsection \<open>Paths\<close>

datatype ServerRole = ServerRoleLocal | ServerRoleRemote | ServerRoleOther int

type_synonym environment = "string \<Rightarrow> string"

definition CutPrefix :: "string \<Rightarrow> string \<Rightarrow> string option" where
  "CutPrefix s p = (if HasPrefix s p then Some (drop (length p) s) else None)"

definition hasPathPrefix :: "string \<Rightarrow> string \<Rightarrow> string option" where
  "hasPathPrefix path pre =
     (case CutPrefix path pre of
        None \<Rightarrow> None
      | Some after \<Rightarrow> if after \<noteq> '''' \<and> hd after \<noteq> slash then None else Some after)"

definition graftDirName :: string where
  "graftDirName = ''graft''"

definition BinaryName :: "string \<Rightarrow> string \<Rightarrow> string" where
  "BinaryName osName archName = ''graft-'' @ osName @ ''-'' @ archName"

definition roleSubdir :: "ServerRole \<Rightarrow> string option" where
  "roleSubdir role =
     (case role of
        ServerRoleLocal \<Rightarrow> Some ''local''
      | ServerRoleRemote \<Rightarrow> Some ''remote''
      | ServerRoleOther _ \<Rightarrow> None)"

definition graftConfigHome :: "environment \<Rightarrow> string \<Rightarrow> string" where
  "graftConfigHome env homeDir =
     (if env ''GRAFT_CONFIG_HOME'' \<noteq> '''' then env ''GRAFT_CONFIG_HOME''
      else if env ''XDG_CONFIG_HOME'' \<noteq> '''' then PathJoin [env ''XDG_CONFIG_HOME'', graftDirName]
      else PathJoin [homeDir, ''.config'', graftDirName])"

definition graftStateHome :: "environment \<Rightarrow> string \<Rightarrow> string" where
  "graftStateHome env homeDir =
     (if env ''GRAFT_STATE_HOME'' \<noteq> '''' then env ''GRAFT_STATE_HOME''
      else if env ''XDG_STATE_HOME'' \<noteq> '''' then PathJoin [env ''XDG_STATE_HOME'', graftDirName]
      else PathJoin [homeDir, ''.local'', ''state'', graftDirName])"

definition graftStateHomeRemote :: "string \<Rightarrow> string" where
  "graftStateHomeRemote remoteHomeDir = PathJoin [remoteHomeDir, ''.local'', ''state'', graftDirName]"

definition graftConfigHomeRemote :: "string \<Rightarrow> string" where
  "graftConfigHomeRemote remoteHomeDir = PathJoin [remoteHomeDir, ''.config'', graftDirName]"

definition graftCacheHome :: "environment \<Rightarrow> string \<Rightarrow> string" where
  "graftCacheHome env homeDir =
     (if env ''GRAFT_CACHE_HOME'' \<noteq> '''' then env ''GRAFT_CACHE_HOME''
      else if env ''XDG_CACHE_HOME'' \<noteq> '''' then PathJoin [env ''XDG_CACHE_HOME'', graftDirName]
      else PathJoin [homeDir, ''.cache'', graftDirName])"

record DataDirectories =
  dd_config :: string
  dd_state :: string

definition SSHPath :: "string option \<Rightarrow> string option" where
  "SSHPath userHome = map_option (\<lambda>homeDir. PathJoin [homeDir, ''.ssh'']) userHome"

definition ResolvedGraftDirs :: "environment \<Rightarrow> string option \<Rightarrow> DataDirectories option" where
  "ResolvedGraftDirs env userHome =
     map_option (\<lambda>homeDir. \<lparr>dd_config = graftConfigHome env homeDir, dd_state = graftStateHome env homeDir\<rparr>)
       userHome"

definition DaemonCacheDir :: "environment \<Rightarrow> string option \<Rightarrow> string option" where
  "DaemonCacheDir env userHome = map_option (\<lambda>homeDir. PathJoin [graftCacheHome env homeDir, ''binaries'']) userHome"

definition graftSyncDir :: "environment \<Rightarrow> string \<Rightarrow> ServerRole \<Rightarrow> string \<Rightarrow> string option" where
  "graftSyncDir env homeDir role identity =
     (case roleSubdir role of
        None \<Rightarrow> None
      | Some roleDir \<Rightarrow>
          Some (PathJoin ([graftStateHome env homeDir, roleDir] @ (if identity \<noteq> '''' then [identity] else [])
                          @ [''sync''])))"

definition daemonSocketPath :: "string \<Rightarrow> ServerRole \<Rightarrow> string \<Rightarrow> string option" where
  "daemonSocketPath stateHome role identity =
     (case roleSubdir role of
        None \<Rightarrow> None
      | Some roleDir \<Rightarrow>
          if identity \<noteq> '''' then Some (PathJoin [stateHome, roleDir, identity, ''graftd.sock''])
          else Some (PathJoin [stateHome, roleDir, ''graftd.sock'']))"

definition DaemonSocketPathForCurrentHost :: "environment \<Rightarrow> string option \<Rightarrow> ServerRole \<Rightarrow> string option" where
  "DaemonSocketPathForCurrentHost env userHome role =
     Option.bind userHome (\<lambda>homeDir. daemonSocketPath (graftStateHome env homeDir) role '''')"

definition DaemonSocketPathForRemote :: "string \<Rightarrow> string \<Rightarrow> string option" where
  "DaemonSocketPathForRemote homeDir identity =
     daemonSocketPath (graftStateHomeRemote homeDir) ServerRoleRemote identity"

definition rootConfigPath :: "string \<Rightarrow> ServerRole \<Rightarrow> string option" where
  "rootConfigPath configHome role =
     map_option (\<lambda>roleDir. PathJoin [configHome, roleDir, ''config.yml'']) (roleSubdir role)"

definition RootConfigPathForCurrentHost :: "environment \<Rightarrow> string option \<Rightarrow> ServerRole \<Rightarrow> string option" where
  "RootConfigPathForCurrentHost env userHome role =
     Option.bind userHome (\<lambda>homeDir. rootConfigPath (graftConfigHome env homeDir) role)"

definition RootConfigPathForRemote :: "string \<Rightarrow> string option" where
  "RootConfigPathForRemote homeDir = rootConfigPath (graftConfigHomeRemote homeDir) ServerRoleRemote"

definition daemonLogsPath :: "string \<Rightarrow> ServerRole \<Rightarrow> string option" where
  "daemonLogsPath stateHome role =
     map_option (\<lambda>roleDir. PathJoin [stateHome, roleDir, ''logs'']) (roleSubdir role)"

definition DaemonLogsPathForCurrentHost :: "environment \<Rightarrow> string option \<Rightarrow> ServerRole \<Rightarrow> string option" where
  "DaemonLogsPathForCurrentHost env userHome role =
     Option.bind userHome (\<lambda>homeDir. daemonLogsPath (graftStateHome env homeDir) role)"

definition DaemonLogsPathForRemote :: "string \<Rightarrow> string option" where
  "DaemonLogsPathForRemote homeDir = daemonLogsPath (graftStateHomeRemote homeDir) ServerRoleRemote"

definition SessionsRoot :: "environment \<Rightarrow> string option \<Rightarrow> string option" where
  "SessionsRoot env userHome =
     Option.bind userHome (\<lambda>homeDir.
       map_option (\<lambda>roleDir. PathJoin [graftStateHome env homeDir, roleDir, ''sessions''])
         (roleSubdir ServerRoleLocal))"

definition SessionPathFromRoot :: "string \<Rightarrow> string \<Rightarrow> string" where
  "SessionPathFromRoot sessionsRoot sessionPID = PathJoin [sessionsRoot, sessionPID]"

definition SessionPath :: "environment \<Rightarrow> string option \<Rightarrow> 64 word \<Rightarrow> string option" where
  "SessionPath env userHome sessionPID =
     map_option (\<lambda>root. SessionPathFromRoot root (utoa (unat sessionPID))) (SessionsRoot env userHome)"

text \<open>\<^verbatim>\<open>uuid.NewString()\<close> is an argument.\<close>

definition ResolveConnectionName :: "string \<Rightarrow> string \<Rightarrow> string \<Rightarrow> string" where
  "ResolveConnectionName uuid name os =
     (let name1 = (if name = '''' then os else name) in if name1 = '''' then uuid else name1)"

text \<open>\<^verbatim>\<open>readRawForwarderACK\<close> on the bytes the forwarder printed; \<open>None\<close> is success.\<close>

datatype ack_error = AckTooShort | AckUnexpected string

definition readRawForwarderACK :: "string \<Rightarrow> ack_error option" where
  "readRawForwarderACK out =
     (if length out < 3 then Some AckTooShort
      else if take 3 out \<noteq> ''ACK'' then Some (AckUnexpected (take 3 out))
      else None)"

subsection \<open>Writers\<close>

text \<open>
  \<^verbatim>\<open>BufferedLineWriter\<close>. Slicing an empty slice from 1 panics, which is \<open>None\<close>.
\<close>

record BufferedLineWriter =
  blw_maxLines :: int
  blw_lines :: "string list"

definition blw_Write :: "BufferedLineWriter \<Rightarrow> string \<Rightarrow> BufferedLineWriter option" where
  "blw_Write w data =
     (if int (length (blw_lines w)) + 1 > blw_maxLines w then
        (case blw_lines w of
           [] \<Rightarrow> None
         | _ # ls \<Rightarrow> Some (w\<lparr>blw_lines := ls @ [data]\<rparr>))
      else Some (w\<lparr>blw_lines := blw_lines w @ [data]\<rparr>))"

fun blw_writes :: "BufferedLineWriter \<Rightarrow> string list \<Rightarrow> BufferedLineWriter option" where
  "blw_writes w [] = Some w"
| "blw_writes w (l # ls) = (case blw_Write w l of None \<Rightarrow> None | Some w' \<Rightarrow> blw_writes w' ls)"

record flushingWriter =
  fw_termWidth :: int
  fw_rows :: int
  fw_col :: int

definition fw_byte :: "flushingWriter \<Rightarrow> char \<Rightarrow> flushingWriter" where
  "fw_byte fw b =
     (if b = CHR 0x0A then fw\<lparr>fw_rows := fw_rows fw + 1, fw_col := 0\<rparr>
      else if b = CHR 0x0D then fw\<lparr>fw_col := 0\<rparr>
      else
        let fw1 = fw\<lparr>fw_col := fw_col fw + 1\<rparr> in
        if fw_termWidth fw1 > 0 \<and> fw_col fw1 \<ge> fw_termWidth fw1
        then fw1\<lparr>fw_rows := fw_rows fw1 + 1, fw_col := 0\<rparr>
        else fw1)"

definition fw_Write :: "flushingWriter \<Rightarrow> string \<Rightarrow> flushingWriter" where
  "fw_Write fw s = foldl fw_byte fw s"

text \<open>\<^verbatim>\<open>Flush\<close> with the control sequence it prints.\<close>

definition fw_Flush :: "flushingWriter \<Rightarrow> flushingWriter \<times> string" where
  "fw_Flush fw =
     (fw\<lparr>fw_rows := 0, fw_col := 0\<rparr>,
      if fw_rows fw > 0
      then let esc = CHR 0x1B in
           [esc, CHR ''[''] @ Itoa (fw_rows fw) @ ''A'' @ [esc, CHR ''['', CHR ''J'']
      else '''')"

subsection \<open>Prefixes on directory boundaries\<close>

lemma hasPathPrefix_iff:
  "hasPathPrefix path pre = Some suf \<longleftrightarrow> path = pre @ suf \<and> (suf = '''' \<or> hd suf = slash)"
  by (auto simp: hasPathPrefix_def CutPrefix_def HasPrefix_iff split: if_splits)

lemma hasPathPrefix_refl [simp]: "hasPathPrefix p p = Some ''''"
  by (simp add: hasPathPrefix_iff)

text \<open>
  The relation the overlap checks and the lookups use. It is an order on all strings, and of two
  prefixes of one path one is a prefix of the other.
\<close>

definition under :: "string \<Rightarrow> string \<Rightarrow> bool" where
  "under path pre \<longleftrightarrow> hasPathPrefix path pre \<noteq> None"

lemma under_iff: "under path pre \<longleftrightarrow> (\<exists>suf. path = pre @ suf \<and> (suf = '''' \<or> hd suf = slash))"
  by (auto simp: under_def hasPathPrefix_iff [symmetric])

lemma under_refl [simp]: "under p p"
  by (simp add: under_def)

lemma under_trans: "under a b \<Longrightarrow> under b c \<Longrightarrow> under a c"
  by (auto simp: under_iff hd_append split: if_splits)

lemma under_antisym: "under a b \<Longrightarrow> under b a \<Longrightarrow> a = b"
  by (auto simp: under_iff)

lemma under_linear:
  assumes "under p a" and "under p b"
  shows "under a b \<or> under b a"
proof -
  obtain x y where p: "p = a @ x" "x = '''' \<or> hd x = slash" "p = b @ y" "y = '''' \<or> hd y = slash"
    using assms unfolding under_iff by metis
  then have "a @ x = b @ y" by simp
  then obtain z where "(a = b @ z \<and> z @ x = y) \<or> (a @ z = b \<and> x = z @ y)"
    by (auto simp: append_eq_append_conv2)
  then show ?thesis
  proof (elim disjE conjE)
    assume "a = b @ z" "z @ x = y"
    then show ?thesis
      using p(4) by (cases z) (auto simp: under_iff)
  next
    assume "a @ z = b" "x = z @ y"
    then show ?thesis
      using p(2) by (cases z) (auto simp: under_iff)
  qed
qed

text \<open>
  What the lookups and the overlap checks of the connections, of the synchronised directories and of the local
  roots rely on: containment is an order in which the containers of one path form a chain. In a family of
  places none of which contains another, a path has at most one container.
\<close>

locale containment =
  fixes inside :: "'a \<Rightarrow> 'a \<Rightarrow> bool"
  assumes inside_refl: "inside p p"
    and inside_trans: "inside a b \<Longrightarrow> inside b c \<Longrightarrow> inside a c"
    and inside_antisym: "inside a b \<Longrightarrow> inside b a \<Longrightarrow> a = b"
    and inside_chain: "inside p a \<Longrightarrow> inside p b \<Longrightarrow> inside a b \<or> inside b a"
begin

lemma container_unique:
  assumes "\<And>i j. i \<in> I \<Longrightarrow> j \<in> I \<Longrightarrow> i \<noteq> j \<Longrightarrow> \<not> inside (place i) (place j)"
    and "i \<in> I" and "j \<in> I" and "inside p (place i)" and "inside p (place j)"
  shows "i = j"
  using assms inside_chain by metis

lemma apart_insert:
  assumes "\<And>a b. a \<in> D \<Longrightarrow> b \<in> D \<Longrightarrow> a \<noteq> b \<Longrightarrow> \<not> inside a b"
    and "\<And>d. d \<in> D \<Longrightarrow> d \<noteq> new \<Longrightarrow> \<not> inside new d \<and> \<not> inside d new"
    and "a \<in> insert new D" and "b \<in> insert new D" and "a \<noteq> b"
  shows "\<not> inside a b"
  using assms by blast

lemma apart_below:
  assumes "\<not> inside a b" and "\<not> inside b a" and "inside x a" and "inside y b"
  shows "\<not> inside x y \<and> \<not> inside y x"
  using assms inside_chain inside_trans by metis

end

interpretation dirs: containment under
  by unfold_locales (auto intro: under_trans under_antisym dest: under_linear)

text \<open>On names joined by slashes, a prefix is a prefix of the names.\<close>

lemma slash_prefix_names:
  assumes "list_all simple_name as" and "list_all simple_name bs" and "bs \<noteq> []"
    and "Join [slash] as = Join [slash] bs @ suf" and "suf = '''' \<or> hd suf = slash"
  shows "\<exists>cs. as = bs @ cs \<and> suf = concat (map ((#) slash) cs)"
  using assms
proof (induction bs arbitrary: as)
  case (Cons b bs)
  have b: "slash \<notin> set b" "b \<noteq> ''''"
    using Cons.prems(2) by (auto simp: simple_name_def)
  have "as \<noteq> []"
    using Cons.prems(4) b by (cases bs) auto
  then obtain a as' where as: "as = a # as'" "slash \<notin> set a" "list_all simple_name as'"
    using Cons.prems(1) by (cases as) (auto dest: simple_nameD)
  show ?case
  proof (cases "bs = []")
    case True
    then have eq: "Join [slash] as = b @ suf"
      using Cons.prems(4) by simp
    have "Split slash (b @ suf) = (if suf = '''' then [b] else b # Split slash (tl suf))"
      using Cons.prems(5) b Split_append [of slash b "tl suf"] Split_no_sep [of slash b] by (cases suf) auto
    moreover have "Split slash (Join [slash] as) = as"
      using Cons.prems(1) as(1) by (intro Split_Join) (auto simp: list_all_iff simple_name_def)
    ultimately have *: "as = (if suf = '''' then [b] else b # Split slash (tl suf))"
      using eq by simp
    have "concat (map ((#) slash) (Split slash t)) = slash # t" for t
      by (induction t) (auto split: list.split)
    then show ?thesis
      using * Cons.prems(5) True by (cases suf) auto
  next
    case False
    then have "Join [slash] as = b @ slash # (Join [slash] bs @ suf)"
      using Cons.prems(4) by (cases bs) auto
    then have "Cut slash (Join [slash] as) = Some (b, Join [slash] bs @ suf)"
      using b by (simp add: Cut_append)
    moreover have "as' \<noteq> []"
      using calculation as by (cases as') (auto simp: Cut_None_iff Cut_Some_iff)
    then have "Cut slash (Join [slash] as) = Some (a, Join [slash] as')"
      using as by (cases as') (auto simp: Cut_append)
    ultimately have "a = b" "Join [slash] as' = Join [slash] bs @ suf"
      by auto
    then show ?thesis
      using Cons.IH [OF as(3)] Cons.prems(2,5) False as(1) by auto
  qed
qed simp

lemma Join_slash_append: "bs \<noteq> [] \<Longrightarrow> Join [slash] (bs @ cs) = Join [slash] bs @ concat (map ((#) slash) cs)"
proof (induction cs arbitrary: bs)
  case (Cons c cs)
  then have "Join [slash] ((bs @ [c]) @ cs) = Join [slash] (bs @ [c]) @ concat (map ((#) slash) cs)"
    by blast
  then show ?case
    using Cons.prems Join_append [of bs "[c]" "[slash]"] by simp
qed simp

lemma hasPathPrefix_names:
  assumes "list_all simple_name as" and "list_all simple_name bs" and "bs \<noteq> []"
  shows "hasPathPrefix (slash # Join [slash] as) (slash # Join [slash] bs) = Some suf \<longleftrightarrow>
         (\<exists>cs. as = bs @ cs \<and> suf = concat (map ((#) slash) cs))"
proof
  assume "hasPathPrefix (slash # Join [slash] as) (slash # Join [slash] bs) = Some suf"
  then show "\<exists>cs. as = bs @ cs \<and> suf = concat (map ((#) slash) cs)"
    using slash_prefix_names [OF assms] by (simp add: hasPathPrefix_iff)
next
  assume "\<exists>cs. as = bs @ cs \<and> suf = concat (map ((#) slash) cs)"
  then obtain cs where "as = bs @ cs" "suf = concat (map ((#) slash) cs)" by blast
  then show "hasPathPrefix (slash # Join [slash] as) (slash # Join [slash] bs) = Some suf"
    using Join_slash_append [OF assms(3)] by (cases cs) (auto simp: hasPathPrefix_iff)
qed

subsection \<open>Daemon directories\<close>

definition identity_parts :: "string \<Rightarrow> string list" where
  "identity_parts identity = (if identity = '''' then [] else [identity])"

definition valid_identity :: "string \<Rightarrow> bool" where
  "valid_identity identity \<longleftrightarrow> identity = '''' \<or> simple_name identity"

lemma identity_parts_simple: "valid_identity identity \<Longrightarrow> list_all simple_name (identity_parts identity)"
  by (auto simp: valid_identity_def identity_parts_def)

lemma roleSubdir_simple: "roleSubdir role = Some d \<Longrightarrow> simple_name d"
  by (auto simp: roleSubdir_def simple_name_def split: ServerRole.splits)

lemma roleSubdir_inject: "roleSubdir role = Some d \<Longrightarrow> roleSubdir role' = Some d \<Longrightarrow> role = role'"
  by (auto simp: roleSubdir_def split: ServerRole.splits)

lemma daemonSocketPath_names:
  assumes "list_all simple_name bs" and "valid_identity identity"
  shows "daemonSocketPath (slash # Join [slash] bs) role identity =
         map_option (\<lambda>d. slash # Join [slash] (bs @ d # identity_parts identity @ [''graftd.sock'']))
           (roleSubdir role)"
proof (cases "roleSubdir role")
  case (Some d)
  then have "list_all simple_name (d # identity_parts identity @ [''graftd.sock''])"
    using roleSubdir_simple identity_parts_simple [OF assms(2)] by (simp add: simple_name_def)
  from PathJoin_names [OF assms(1) this] show ?thesis
    using Some by (simp add: daemonSocketPath_def identity_parts_def split: if_splits del: Join.simps)
qed (simp add: daemonSocketPath_def)

lemma graftSyncDir_names:
  assumes "graftStateHome env homeDir = slash # Join [slash] bs"
    and "list_all simple_name bs" and "valid_identity identity"
  shows "graftSyncDir env homeDir role identity =
         map_option (\<lambda>d. slash # Join [slash] (bs @ d # identity_parts identity @ [''sync''])) (roleSubdir role)"
proof (cases "roleSubdir role")
  case (Some d)
  then have "list_all simple_name (d # identity_parts identity @ [''sync''])"
    using roleSubdir_simple identity_parts_simple [OF assms(3)] by (simp add: simple_name_def)
  from PathJoin_names [OF assms(2) this] show ?thesis
    using Some assms(1) by (simp add: graftSyncDir_def identity_parts_def split: if_splits del: Join.simps)
qed (simp add: graftSyncDir_def)

lemma identity_parts_prefix:
  assumes "identity_parts a @ [n] = identity_parts b @ [n] @ cs" and "a \<noteq> n" and "b \<noteq> n"
  shows "a = b"
  using assms by (auto simp: identity_parts_def split: if_splits)

subsection \<open>The bounded log\<close>

lemma blw_writes_append:
  "blw_writes w (xs @ ys) = Option.bind (blw_writes w xs) (\<lambda>w'. blw_writes w' ys)"
  by (induction xs arbitrary: w) (auto split: option.split)

lemma blw_writes_tail:
  assumes "0 < n"
  shows "blw_writes \<lparr>blw_maxLines = int n, blw_lines = []\<rparr> ls =
         Some \<lparr>blw_maxLines = int n, blw_lines = drop (length ls - n) ls\<rparr>"
proof (induction ls rule: rev_induct)
  case (snoc l ls)
  let ?k = "drop (length ls - n) ls"
  have step: "blw_Write \<lparr>blw_maxLines = int n, blw_lines = ?k\<rparr> l =
      Some \<lparr>blw_maxLines = int n, blw_lines = drop (length (ls @ [l]) - n) (ls @ [l])\<rparr>"
  proof (cases "length ls < n")
    case True
    then show ?thesis by (simp add: blw_Write_def)
  next
    case False
    then have len: "length ?k = n" by simp
    then obtain x xs where k: "?k = x # xs"
      using assms by (cases ?k) auto
    have "drop (Suc (length ls) - n) ls = xs"
      using k False by (metis Suc_diff_le drop_Suc list.sel(3) not_less tl_drop)
    then show ?thesis
      using len k False by (simp add: blw_Write_def)
  qed
  show ?case
    unfolding blw_writes_append snoc.IH by (simp add: step)
qed simp

subsection \<open>Properties\<close>

text \<open>
  On absolute paths in normal form, \<^verbatim>\<open>hasPathPrefix\<close> succeeds exactly when the names of the prefix
  are the first names of the path, and what it returns are the remaining names, each with its slash.
  The root directory is the exception: it is a prefix of itself only.
\<close>

theorem path_prefix_is_name_prefix:
  assumes "list_all simple_name as" and "list_all simple_name bs"
  shows "(if bs = [] then hasPathPrefix (slash # Join [slash] as) ''/'' = Some suf \<longleftrightarrow> as = [] \<and> suf = ''''
          else hasPathPrefix (slash # Join [slash] as) (slash # Join [slash] bs) = Some suf \<longleftrightarrow>
               (\<exists>cs. as = bs @ cs \<and> suf = concat (map ((#) slash) cs)))"
proof (cases "bs = []")
  case True
  have "as = [] \<or> (Join [slash] as \<noteq> [] \<and> hd (Join [slash] as) \<noteq> slash)"
    using assms(1) by (cases as rule: remdups_adj.cases) (auto simp: simple_name_def hd_append dest: hd_in_set)
  then show ?thesis
    using True by (auto simp: hasPathPrefix_iff)
next
  case False
  then show ?thesis
    using hasPathPrefix_names [OF assms] by simp
qed

text \<open>
  C9. Two daemons of a host with different roles or identities have different sockets, and neither's
  sync directory is the other's or lies inside it. This needs a state directory in normal form and
  identities that are a single path component other than \<^verbatim>\<open>sync\<close>, or empty.
\<close>

theorem daemon_paths_are_isolated:
  assumes home: "graftStateHome env homeDir = slash # Join [slash] bs" "list_all simple_name bs"
    and ids: "valid_identity i" "valid_identity j" "i \<noteq> ''sync''" "j \<noteq> ''sync''"
    and roles: "roleSubdir r \<noteq> None" "roleSubdir q \<noteq> None"
    and diff: "(r, i) \<noteq> (q, j)"
  shows "daemonSocketPath (graftStateHome env homeDir) r i \<noteq> daemonSocketPath (graftStateHome env homeDir) q j
    \<and> (case (graftSyncDir env homeDir r i, graftSyncDir env homeDir q j) of
         (Some a, Some b) \<Rightarrow> \<not> under a b
       | _ \<Rightarrow> False)"
proof -
  obtain d e where de: "roleSubdir r = Some d" "roleSubdir q = Some e"
    using roles by auto
  have simple: "list_all simple_name (bs @ d # identity_parts i @ [n])"
    "list_all simple_name (bs @ e # identity_parts j @ [n])" if "simple_name n" for n
    using home(2) identity_parts_simple ids de roleSubdir_simple that by auto
  have name: "simple_name ''graftd.sock''" "simple_name ''sync''"
    by (simp_all add: simple_name_def)
  have same: "r = q \<and> i = j" if "d # identity_parts i @ [n] = e # identity_parts j @ [n] @ cs" "i \<noteq> n" "j \<noteq> n" for n cs
    using that identity_parts_prefix roleSubdir_inject [OF de(1)] de(2) by auto
  have "daemonSocketPath (graftStateHome env homeDir) r i \<noteq> daemonSocketPath (graftStateHome env homeDir) q j"
  proof
    assume "daemonSocketPath (graftStateHome env homeDir) r i = daemonSocketPath (graftStateHome env homeDir) q j"
    then have "Join [slash] (bs @ d # identity_parts i @ [''graftd.sock''])
        = Join [slash] (bs @ e # identity_parts j @ [''graftd.sock''])"
      using home ids by (simp add: daemonSocketPath_names de del: Join.simps)
    from Join_slash_inject [OF simple(1) simple(2) this] name(1)
    have "d = e" "i = j"
      by (auto simp: identity_parts_def split: if_splits)
    then show False
      using diff roleSubdir_inject [OF de(1)] de(2) by auto
  qed
  moreover have "\<not> under (slash # Join [slash] (bs @ d # identity_parts i @ [''sync'']))
      (slash # Join [slash] (bs @ e # identity_parts j @ [''sync'']))"
    using hasPathPrefix_names [OF simple(1) simple(2), of "''sync''"] name(2) same [of "''sync''"] ids(3,4) diff
    by (force simp: under_def)
  ultimately show ?thesis
    using home ids by (simp add: graftSyncDir_names de del: Join.simps)
qed

theorem daemon_paths_are_isolated_witness:
  "\<exists>env. daemonSocketPath (graftStateHome env ''/root'') ServerRoleRemote ''amber-acorn-bind''
         \<noteq> daemonSocketPath (graftStateHome env ''/root'') ServerRoleRemote ''''"
proof -
  let ?env = "\<lambda>x. if x = ''GRAFT_STATE_HOME'' then ''/s'' else ''''"
  have "graftStateHome ?env ''/root'' = slash # Join [slash] [''s'']"
    by (simp add: graftStateHome_def)
  from daemon_paths_are_isolated [OF this, of "''amber-acorn-bind''" "''''" ServerRoleRemote ServerRoleRemote]
  show ?thesis
    by (auto simp: valid_identity_def simple_name_def roleSubdir_def)
qed

text \<open>
  A \<^verbatim>\<open>BufferedLineWriter\<close> with a positive limit never panics and holds exactly the last lines written
  to it, up to its limit; one whose limit is zero panics on its first write.
\<close>

theorem line_writer_keeps_the_last_lines:
  "(0 < n \<longrightarrow> blw_writes \<lparr>blw_maxLines = int n, blw_lines = []\<rparr> ls =
                Some \<lparr>blw_maxLines = int n, blw_lines = drop (length ls - n) ls\<rparr>)
   \<and> blw_writes \<lparr>blw_maxLines = 0, blw_lines = []\<rparr> (l # ls) = None"
  using blw_writes_tail by (simp add: blw_Write_def)

end
