(* ===== verification/AttachProtocol.thy ===== *)
theory AttachProtocol
  imports CommandRegistry PathUtil
begin

text \<open>
  The stream between a client and a managed command: the daemon's side of
  \<^verbatim>\<open>pkg/server_grpc_command.go\<close> (attach, output pumps, input forwarding, exit status) and the client's
  side of \<^verbatim>\<open>pkg/running_command_remote.go\<close> (delivery, acknowledgements, resuming after a transport
  break, queued out-of-band messages). The gRPC stream between them delivers a prefix of what was
  sent, in order; a send that fails means the stream is broken for good.
\<close>

subsection \<open>Messages\<close>

record CommandAttached =
  ca_commandId :: string
  ca_pty :: bool
  ca_stdoutReplayOffset :: u64
  ca_stderrReplayOffset :: u64
  ca_running :: bool
  ca_persistence :: CommandPersistence

datatype RunCommandResponse =
    Resp_Started string CommandPersistence
  | Resp_Attached CommandAttached
  | Resp_Stdout "byte list"
  | Resp_Stderr "byte list"
  | Resp_ExitStatus int

datatype RunCommandRequest =
    Req_Start
  | Req_Attach string u64 u64
  | Req_Stdin "byte list"
  | Req_Signal string
  | Req_EnvVar string string
  | Req_WindowChange int int
  | Req_Ack u64 u64

subsection \<open>The daemon's side\<close>

definition attachManagedCommand :: "ManagedCommand \<Rightarrow> u64 \<Rightarrow> u64 \<Rightarrow> ManagedCommand \<times> nat \<times> CommandAttached" where
  "attachManagedCommand managed stdoutReq stderrReq =
     (case attach managed of
        (m1, handle) \<Rightarrow>
          let m2 = AckOutput m1 stdoutReq stderrReq;
              stdoutOffset = max stdoutReq (StartOffset (mc_stdoutRing m2));
              stderrOffset = max stderrReq (StartOffset (mc_stderrRing m2))
          in (m2, handle,
              \<lparr>ca_commandId = mc_id m2, ca_pty = mc_pty m2, ca_stdoutReplayOffset = stdoutOffset,
               ca_stderrReplayOffset = stderrOffset, ca_running = (\<not> mc_exited m2),
               ca_persistence = persistence_proto (mc_persistence m2)\<rparr>))"

text \<open>
  One iteration of the output pump of \<^verbatim>\<open>tailManagedCommandOutput\<close> on what \<^verbatim>\<open>ReadAt\<close> returned for its
  offset: the bytes to send and the next offset, the end of the ring, a wait, or a stream to be
  ended because the ring has evicted bytes the client has not seen.
\<close>

datatype pump_step =
    PumpSend "byte list" u64
  | PumpEOF
  | PumpWait nat
  | PumpOutrun

definition pumpStep :: "read_outcome \<Rightarrow> u64 \<Rightarrow> pump_step" where
  "pumpStep outcome offset =
     (case outcome of
        ReadEOF _ \<Rightarrow> PumpEOF
      | ReadWait _ g \<Rightarrow> PumpWait g
      | ReadData data gotOffset \<Rightarrow>
          if gotOffset \<noteq> offset then PumpOutrun
          else PumpSend data (gotOffset + of_nat (length data)))"

text \<open>
  One message of \<^verbatim>\<open>forwardManagedCommandInput\<close>. \<open>kill_ok\<close> is the operating system's \<^verbatim>\<open>kill\<close>.
\<close>

datatype recv_outcome = RecvEOF | RecvBroken | RecvMsg RunCommandRequest

datatype input_outcome = InputContinue | InputReturn | InputStop

fun forwardMessage :: "(int \<Rightarrow> signal \<Rightarrow> bool) \<Rightarrow> ManagedCommand \<Rightarrow> RunCommandRequest \<Rightarrow> ManagedCommand" where
  "forwardMessage kill_ok mc (Req_Stdin data) = mc\<lparr>mc_cmd := fst (writeStdin (mc_cmd mc) data)\<rparr>"
| "forwardMessage kill_ok mc (Req_Signal sig) = fst (mc_Signal kill_ok mc sig)"
| "forwardMessage kill_ok mc (Req_EnvVar k v) = mc"
| "forwardMessage kill_ok mc (Req_WindowChange h w) = mc\<lparr>mc_cmd := fst (NotifyWindowChange (mc_cmd mc) h w)\<rparr>"
| "forwardMessage kill_ok mc (Req_Ack so se) = AckOutput mc so se"
| "forwardMessage kill_ok mc Req_Start = mc"
| "forwardMessage kill_ok mc (Req_Attach cid so se) = mc"

definition forwardManagedCommandInput ::
  "(int \<Rightarrow> signal \<Rightarrow> bool) \<Rightarrow> ManagedCommand \<Rightarrow> nat \<Rightarrow> recv_outcome \<Rightarrow> ManagedCommand \<times> input_outcome"
where
  "forwardManagedCommandInput kill_ok managed handle recv =
     (case recv of
        RecvEOF \<Rightarrow> (fst (CloseStdinFromClient managed), InputReturn)
      | RecvBroken \<Rightarrow> (managed, InputStop)
      | RecvMsg req \<Rightarrow>
          if \<not> currentIs managed handle then (managed, InputReturn)
          else (forwardMessage kill_ok managed req, InputContinue))"

text \<open>
  How \<^verbatim>\<open>serveManagedCommand\<close> ends once both pumps have returned: the tail was stopped, or the command
  has exited. \<open>send_ok\<close> is the result of sending the exit status.
\<close>

datatype serve_result =
    ServeAborted
  | ServeClientClosed
  | ServeExitErr string
  | ServeSendFailed
  | ServeDelivered int

definition serveEnd :: "bool \<Rightarrow> bool \<Rightarrow> ManagedCommand \<Rightarrow> nat \<Rightarrow> serve_result" where
  "serveEnd stopped send_ok managed handle =
     (if stopped then (if Canceled managed handle then ServeAborted else ServeClientClosed)
      else case mc_exitErr managed of
        Some e \<Rightarrow> ServeExitErr e
      | None \<Rightarrow> if send_ok then ServeDelivered (mc_exitStatus managed) else ServeSendFailed)"

text \<open>The outcomes after which \<^verbatim>\<open>serveManagedCommand\<close> removes the command from the registry.\<close>

fun serveRemoves :: "serve_result \<Rightarrow> bool" where
  "serveRemoves (ServeExitErr e) = True"
| "serveRemoves (ServeDelivered st) = True"
| "serveRemoves _ = False"

text \<open>
  \<^verbatim>\<open>runManagedLocalCommand\<close> up to the point where it starts serving; when the registry refuses the
  command it is killed and the error is returned.
\<close>

record StartCommand =
  sc_pid :: int
  sc_connectionName :: string
  sc_shell :: bool
  sc_command :: string
  sc_arguments :: "string list"
  sc_cwd :: string
  sc_allocatePty :: bool
  sc_persistence :: CommandPersistence

definition commandDisplay :: "StartCommand \<Rightarrow> string" where
  "commandDisplay req =
     (if sc_shell req then ''shell'' else Join '' '' (sc_command req # sc_arguments req))"

definition startSpec :: "StartCommand \<Rightarrow> ManagedCommandSpec" where
  "startSpec req =
     \<lparr>spec_display = commandDisplay req, spec_cwd = sc_cwd req, spec_pty = sc_allocatePty req,
      spec_persistence = resolvePersistence (sc_persistence req) (sc_allocatePty req) (sc_shell req),
      spec_stdoutCapacity = 0, spec_stderrCapacity = 0\<rparr>"

datatype start_result =
    StartRefused reg_error local_command
  | StartServing command_world nat nat RunCommandResponse

definition runManagedLocalCommand ::
  "(int \<Rightarrow> signal \<Rightarrow> bool) \<Rightarrow> bool \<Rightarrow> int \<Rightarrow> (nat \<Rightarrow> byte list option) \<Rightarrow> command_world \<Rightarrow> local_command \<Rightarrow>
     StartCommand \<Rightarrow> start_result"
where
  "runManagedLocalCommand kill_ok write_ok now rnd w cmd req =
     (case Register write_ok now rnd w cmd (startSpec req) of
        Inl e \<Rightarrow> StartRefused e (Release (fst (Signal kill_ok cmd SignalKill)))
      | Inr (w1, ref) \<Rightarrow>
          (case attach (cw_heap w1 ! ref) of
             (mc, handle) \<Rightarrow>
               StartServing (update_heap ref (\<lambda>_. mc) w1) ref handle
                 (Resp_Started (mc_id mc) (persistence_proto (mc_persistence mc)))))"

datatype dispatch =
    DispatchManaged
  | DispatchSession
  | DispatchAttachManaged
  | DispatchAttachForward
  | DispatchBadFirstMessage
  | DispatchShellAndCommand
  | DispatchNotAllowed

text \<open>The routing of \<^verbatim>\<open>RunCommand\<close>, \<^verbatim>\<open>runCommandFromStart\<close> and \<^verbatim>\<open>attachCommand\<close> by the first message.\<close>

datatype first_message = FirstStart StartCommand | FirstAttach string u64 u64 | FirstOther

fun RunCommand :: "ServerRole \<Rightarrow> first_message \<Rightarrow> dispatch" where
  "RunCommand role (FirstStart req) =
     (if sc_shell req \<and> sc_command req \<noteq> '''' then DispatchShellAndCommand
      else if sc_pid req = 0 \<and> sc_connectionName req = ''''
      then (if role \<noteq> ServerRoleRemote then DispatchNotAllowed else DispatchManaged)
      else DispatchSession)"
| "RunCommand role (FirstAttach cid so se) =
     (if role = ServerRoleRemote then DispatchAttachManaged else DispatchAttachForward)"
| "RunCommand role FirstOther = DispatchBadFirstMessage"

subsection \<open>The client's side\<close>

text \<open>
  The state of a \<^verbatim>\<open>RemoteRunningCommand\<close>. Streams are numbered in the order they are installed, so
  \<open>rrc_client\<close> identifies the current \<^verbatim>\<open>runClient\<close>.
\<close>

record RemoteRunningCommand =
  rrc_commandID :: string
  rrc_hasReattach :: bool
  rrc_client :: nat
  rrc_swapped :: wake_chan
  rrc_pending :: "RunCommandRequest list"
  rrc_stdinDone :: bool
  rrc_lastWinH :: int
  rrc_lastWinW :: int
  rrc_stdoutOffset :: u64
  rrc_stderrOffset :: u64
  rrc_lastAckedTotal :: u64

definition newRemoteRunningCommand :: "string \<Rightarrow> bool \<Rightarrow> u64 \<Rightarrow> u64 \<Rightarrow> RemoteRunningCommand" where
  "newRemoteRunningCommand commandID hasReattach stdoutOffset stderrOffset =
     \<lparr>rrc_commandID = commandID, rrc_hasReattach = hasReattach, rrc_client = 0, rrc_swapped = make_chan,
      rrc_pending = [], rrc_stdinDone = False, rrc_lastWinH = 0, rrc_lastWinW = 0,
      rrc_stdoutOffset = stdoutOffset, rrc_stderrOffset = stderrOffset, rrc_lastAckedTotal = 0\<rparr>"

definition commandAckEveryBytes :: u64 where
  "commandAckEveryBytes = push_bit 10 128"

definition reattachInitialBackoff :: int where
  "reattachInitialBackoff = second"

definition reattachMaxBackoff :: int where
  "reattachMaxBackoff = 15 * second"

definition resumable :: "RemoteRunningCommand \<Rightarrow> bool" where
  "resumable rc \<longleftrightarrow> rrc_hasReattach rc \<and> rrc_commandID rc \<noteq> ''''"

text \<open>\<^verbatim>\<open>maybeAck\<close> with the result of its send; the second component is the message it sends, if any.\<close>

definition maybeAck :: "bool \<Rightarrow> RemoteRunningCommand \<Rightarrow> RemoteRunningCommand \<times> RunCommandRequest option" where
  "maybeAck send_ok rc =
     (if \<not> resumable rc then (rc, None)
      else
        let tot = rrc_stdoutOffset rc + rrc_stderrOffset rc in
        if tot - rrc_lastAckedTotal rc < commandAckEveryBytes then (rc, None)
        else
          ((if send_ok then rc\<lparr>rrc_lastAckedTotal := tot\<rparr> else rc),
           Some (Req_Ack (rrc_stdoutOffset rc) (rrc_stderrOffset rc))))"

datatype command_done = DoneExit int | DoneErr string

datatype process_outcome =
    ProcContinue "RunCommandRequest option"
  | ProcDone command_done

text \<open>
  One received message in the loop of \<^verbatim>\<open>process\<close>. \<open>pipe\<close> is the error of the write to the consumer's
  pipe, which has taken all the bytes when it returns none.
\<close>

fun processResponse ::
  "string option \<Rightarrow> bool \<Rightarrow> RemoteRunningCommand \<Rightarrow> RunCommandResponse \<Rightarrow> RemoteRunningCommand \<times> process_outcome"
where
  "processResponse pipe send_ok rc (Resp_Stdout data) =
     (case pipe of
        Some e \<Rightarrow> (rc, ProcDone (DoneErr e))
      | None \<Rightarrow>
          (case maybeAck send_ok (rc\<lparr>rrc_stdoutOffset := rrc_stdoutOffset rc + of_nat (length data)\<rparr>) of
             (rc', ack) \<Rightarrow> (rc', ProcContinue ack)))"
| "processResponse pipe send_ok rc (Resp_Stderr data) =
     (case pipe of
        Some e \<Rightarrow> (rc, ProcDone (DoneErr e))
      | None \<Rightarrow>
          (case maybeAck send_ok (rc\<lparr>rrc_stderrOffset := rrc_stderrOffset rc + of_nat (length data)\<rparr>) of
             (rc', ack) \<Rightarrow> (rc', ProcContinue ack)))"
| "processResponse pipe send_ok rc (Resp_ExitStatus st) = (rc, ProcDone (DoneExit st))"
| "processResponse pipe send_ok rc (Resp_Started cid p) = (rc, ProcContinue None)"
| "processResponse pipe send_ok rc (Resp_Attached ca) = (rc, ProcContinue None)"

text \<open>
  \<^verbatim>\<open>setClient\<close>: the fresh stream is installed, then the window size, the queued messages and the end
  of the input are sent on it. \<open>sends\<close> says which of the consecutive sends succeed.
\<close>

fun flushPending :: "(nat \<Rightarrow> bool) \<Rightarrow> nat \<Rightarrow> RunCommandRequest list \<Rightarrow> RunCommandRequest list \<times> RunCommandRequest list" where
  "flushPending sends i [] = ([], [])"
| "flushPending sends i (req # reqs) =
     (case flushPending sends (Suc i) reqs of
        (sent, failed) \<Rightarrow> if sends i then (req # sent, failed) else (sent, req # failed))"

definition setClient ::
  "(nat \<Rightarrow> bool) \<Rightarrow> RemoteRunningCommand \<Rightarrow> RemoteRunningCommand \<times> RunCommandRequest list \<times> bool"
where
  "setClient sends rc =
     (let rc1 = rc\<lparr>rrc_client := Suc (rrc_client rc), rrc_swapped := renew_chan (rrc_swapped rc),
                   rrc_pending := []\<rparr>;
          resync = 0 < rrc_lastWinH rc \<and> 0 < rrc_lastWinW rc;
          win = (if resync \<and> sends 0 then [Req_WindowChange (rrc_lastWinH rc) (rrc_lastWinW rc)] else []);
          (sent, failed) = flushPending sends (if resync then 1 else 0) (rrc_pending rc)
      in (rc1\<lparr>rrc_pending := failed @ rrc_pending rc1\<rparr>, win @ sent, rrc_stdinDone rc))"

text \<open>One attempt of the loop of \<^verbatim>\<open>sendOOB\<close> on the stream \<open>client\<close> it picked up.\<close>

datatype oob_outcome = OobSent | OobFailed | OobQueued | OobRetry

definition sendOOB ::
  "bool \<Rightarrow> nat \<Rightarrow> RemoteRunningCommand \<Rightarrow> RunCommandRequest \<Rightarrow> RemoteRunningCommand \<times> oob_outcome"
where
  "sendOOB send_ok client rc req =
     (if send_ok then (rc, OobSent)
      else if \<not> resumable rc then (rc, OobFailed)
      else if rrc_client rc = client then (rc\<lparr>rrc_pending := rrc_pending rc @ [req]\<rparr>, OobQueued)
      else (rc, OobRetry))"

definition NotifyWindowChangeRemote :: "int \<Rightarrow> int \<Rightarrow> RemoteRunningCommand \<Rightarrow> RemoteRunningCommand" where
  "NotifyWindowChangeRemote h w rc = rc\<lparr>rrc_lastWinH := h, rrc_lastWinW := w\<rparr>"

datatype grpc_code = NotFound | Aborted | OtherCode

text \<open>Whether \<^verbatim>\<open>tryResume\<close> starts to re-attach at all, and one successful attempt.\<close>

definition tryResumeGuard :: "RemoteRunningCommand \<Rightarrow> bool \<Rightarrow> grpc_code \<Rightarrow> bool" where
  "tryResumeGuard rc ctxEnded code \<longleftrightarrow>
     (if \<not> resumable rc then False
      else if ctxEnded then False
      else if code = NotFound \<or> code = Aborted then False
      else True)"

definition resumeAttached ::
  "(nat \<Rightarrow> bool) \<Rightarrow> RemoteRunningCommand \<Rightarrow> CommandAttached \<Rightarrow> RemoteRunningCommand \<times> RunCommandRequest list \<times> bool"
where
  "resumeAttached sends rc attached =
     setClient sends
       (rc\<lparr>rrc_stdoutOffset := max (rrc_stdoutOffset rc) (ca_stdoutReplayOffset attached),
           rrc_stderrOffset := max (rrc_stderrOffset rc) (ca_stderrReplayOffset attached)\<rparr>)"

definition replayGap :: "u64 \<Rightarrow> u64 \<Rightarrow> u64 option" where
  "replayGap replayOffset seenOffset =
     (if replayOffset > seenOffset then Some (replayOffset - seenOffset) else None)"

text \<open>
  The loop of \<^verbatim>\<open>tryResume\<close> over the results of its attempts. The list ends where the select finds the
  consumer's context at its end; the result carries the pauses the loop entered.
\<close>

datatype attempt = AttemptOk CommandAttached | AttemptErr grpc_code

datatype resume_result = Resumed CommandAttached | ResumeGone | ResumeCanceled

fun tryResumeLoop :: "attempt list \<Rightarrow> int \<Rightarrow> resume_result \<times> int list" where
  "tryResumeLoop [] backoff = (ResumeCanceled, [])"
| "tryResumeLoop (AttemptOk ca # as) backoff = (Resumed ca, [])"
| "tryResumeLoop (AttemptErr code # as) backoff =
     (if code = NotFound then (ResumeGone, [])
      else case tryResumeLoop as (min (backoff * 2) reattachMaxBackoff) of
        (res, pauses) \<Rightarrow> (res, backoff # pauses))"

text \<open>
  One chunk of \<^verbatim>\<open>pumpStdin\<close>: the chunk is sent on the current stream, kept for the next one, or the
  pump returns.
\<close>

datatype stdin_outcome = StdinSent | StdinRetryOnSwap nat | StdinReturn

definition pumpStdinChunk :: "bool \<Rightarrow> RemoteRunningCommand \<Rightarrow> stdin_outcome" where
  "pumpStdinChunk send_ok rc =
     (if send_ok then StdinSent
      else if \<not> resumable rc then StdinReturn
      else StdinRetryOnSwap (chan_gen (rrc_swapped rc)))"

definition closeSend :: "RemoteRunningCommand \<Rightarrow> RemoteRunningCommand" where
  "closeSend rc = rc\<lparr>rrc_stdinDone := True\<rparr>"

subsection \<open>A command, its stream and its client\<close>

text \<open>
  The state of one managed command with the handler that serves it, the messages on their way to
  the client, the acknowledgements the client has sent, and the client. The logs hold every byte
  that entered a ring, and the chunks every byte handed to the consumer with its offset; neither is
  part of the program. An acknowledgement stays in \<open>s_acks\<close> after it has arrived, so that it may
  arrive late, repeatedly or never.
\<close>

datatype pump_state = PumpAt u64 | PumpEnded

record serving =
  sv_handle :: nat
  sv_out :: pump_state
  sv_err :: pump_state

record attach_sys =
  s_mc :: ManagedCommand
  s_listed :: bool
  s_outlog :: "byte list"
  s_errlog :: "byte list"
  s_serve :: "serving option"
  s_conn :: bool
  s_down :: "RunCommandResponse list"
  s_acks :: "(u64 \<times> u64) list"
  s_rc :: RemoteRunningCommand
  s_outgot :: "(nat \<times> byte list) list"
  s_errgot :: "(nat \<times> byte list) list"
  s_done :: "command_done option"

fun outs :: "RunCommandResponse list \<Rightarrow> byte list list" where
  "outs [] = []"
| "outs (Resp_Stdout d # ms) = d # outs ms"
| "outs (_ # ms) = outs ms"

fun errs :: "RunCommandResponse list \<Rightarrow> byte list list" where
  "errs [] = []"
| "errs (Resp_Stderr d # ms) = d # errs ms"
| "errs (_ # ms) = errs ms"

definition post :: "RunCommandResponse \<Rightarrow> attach_sys \<Rightarrow> attach_sys" where
  "post m s = (if s_conn s then s\<lparr>s_down := s_down s @ [m]\<rparr> else s)"

definition stop_serving :: "int \<Rightarrow> int \<Rightarrow> attach_sys \<Rightarrow> attach_sys" where
  "stop_serving delay now s =
     (case s_serve s of
        None \<Rightarrow> s
      | Some sv \<Rightarrow> s\<lparr>s_serve := None, s_mc := ClientGone delay now (s_mc s) (sv_handle sv)\<rparr>)"

fun got :: "RunCommandResponse \<Rightarrow> attach_sys \<Rightarrow> attach_sys" where
  "got (Resp_Stdout d) s = s\<lparr>s_outgot := s_outgot s @ [(unat (rrc_stdoutOffset (s_rc s)), d)]\<rparr>"
| "got (Resp_Stderr d) s = s\<lparr>s_errgot := s_errgot s @ [(unat (rrc_stderrOffset (s_rc s)), d)]\<rparr>"
| "got _ s = s"

fun ack_of :: "RunCommandRequest option \<Rightarrow> (u64 \<times> u64) list" where
  "ack_of (Some (Req_Ack a b)) = [(a, b)]"
| "ack_of _ = []"

definition break_client :: "attach_sys \<Rightarrow> attach_sys" where
  "break_client s = s\<lparr>s_conn := False, s_down := []\<rparr>"

definition serve_attached :: "ManagedCommand \<Rightarrow> nat \<Rightarrow> CommandAttached \<Rightarrow> attach_sys \<Rightarrow> attach_sys" where
  "serve_attached mc h ca s =
     s\<lparr>s_mc := mc,
       s_serve := Some \<lparr>sv_handle = h, sv_out = PumpAt (ca_stdoutReplayOffset ca),
                        sv_err = PumpAt (ca_stderrReplayOffset ca)\<rparr>,
       s_acks := s_acks s @ [(rrc_stdoutOffset (s_rc s), rrc_stderrOffset (s_rc s))]\<rparr>"

inductive attach_step :: "int \<Rightarrow> attach_sys \<Rightarrow> attach_sys \<Rightarrow> bool" for delay :: int where
  write_out: "ring_appends (mc_stdoutRing (s_mc s)) d r \<Longrightarrow>
    length (s_outlog s) + length (s_errlog s) + length d < 2 ^ 64 \<Longrightarrow>
    attach_step delay s (s\<lparr>s_mc := (s_mc s)\<lparr>mc_stdoutRing := r\<rparr>, s_outlog := s_outlog s @ d\<rparr>)"
| write_err: "ring_appends (mc_stderrRing (s_mc s)) d r \<Longrightarrow>
    length (s_outlog s) + length (s_errlog s) + length d < 2 ^ 64 \<Longrightarrow>
    attach_step delay s (s\<lparr>s_mc := (s_mc s)\<lparr>mc_stderrRing := r\<rparr>, s_errlog := s_errlog s @ d\<rparr>)"
| close_out: "attach_step delay s (s\<lparr>s_mc := (s_mc s)\<lparr>mc_stdoutRing := Close (mc_stdoutRing (s_mc s))\<rparr>\<rparr>)"
| close_err: "attach_step delay s (s\<lparr>s_mc := (s_mc s)\<lparr>mc_stderrRing := Close (mc_stderrRing (s_mc s))\<rparr>\<rparr>)"
| exits: "\<not> mc_exited (s_mc s) \<Longrightarrow> reapRecord now st e (s_mc s) = (mc, forget) \<Longrightarrow>
    attach_step delay s (s\<lparr>s_mc := mc, s_listed := (s_listed s \<and> \<not> forget)\<rparr>)"
| finished: "mc_exited (s_mc s) \<Longrightarrow> attach_step delay s (s\<lparr>s_mc := (s_mc s)\<lparr>mc_done := True\<rparr>\<rparr>)"
| out_send: "s_serve s = Some sv \<Longrightarrow> sv_out sv = PumpAt off \<Longrightarrow>
    pumpStep (ReadAt (mc_stdoutRing (s_mc s)) off) off = PumpSend d off' \<Longrightarrow>
    attach_step delay s (post (Resp_Stdout d) (s\<lparr>s_serve := Some (sv\<lparr>sv_out := PumpAt off'\<rparr>)\<rparr>))"
| err_send: "s_serve s = Some sv \<Longrightarrow> sv_err sv = PumpAt off \<Longrightarrow>
    pumpStep (ReadAt (mc_stderrRing (s_mc s)) off) off = PumpSend d off' \<Longrightarrow>
    attach_step delay s (post (Resp_Stderr d) (s\<lparr>s_serve := Some (sv\<lparr>sv_err := PumpAt off'\<rparr>)\<rparr>))"
| out_eof: "s_serve s = Some sv \<Longrightarrow> sv_out sv = PumpAt off \<Longrightarrow>
    pumpStep (ReadAt (mc_stdoutRing (s_mc s)) off) off = PumpEOF \<Longrightarrow>
    attach_step delay s (s\<lparr>s_serve := Some (sv\<lparr>sv_out := PumpEnded\<rparr>)\<rparr>)"
| err_eof: "s_serve s = Some sv \<Longrightarrow> sv_err sv = PumpAt off \<Longrightarrow>
    pumpStep (ReadAt (mc_stderrRing (s_mc s)) off) off = PumpEOF \<Longrightarrow>
    attach_step delay s (s\<lparr>s_serve := Some (sv\<lparr>sv_err := PumpEnded\<rparr>)\<rparr>)"
| exit_sent: "s_serve s = Some sv \<Longrightarrow> sv_out sv = PumpEnded \<Longrightarrow> sv_err sv = PumpEnded \<Longrightarrow> mc_done (s_mc s) \<Longrightarrow>
    serveEnd False True (s_mc s) (sv_handle sv) = ServeDelivered st \<Longrightarrow>
    attach_step delay s (stop_serving delay now (post (Resp_ExitStatus st) s)\<lparr>s_listed := False\<rparr>)"
| exit_unsent: "s_serve s = Some sv \<Longrightarrow> sv_out sv = PumpEnded \<Longrightarrow> sv_err sv = PumpEnded \<Longrightarrow> mc_done (s_mc s) \<Longrightarrow>
    res = serveEnd False send_ok (s_mc s) (sv_handle sv) \<Longrightarrow> \<forall>st. res \<noteq> ServeDelivered st \<Longrightarrow>
    attach_step delay s (stop_serving delay now s\<lparr>s_listed := (s_listed s \<and> \<not> serveRemoves res)\<rparr>)"
| server_stops: "attach_step delay s (stop_serving delay now s)"
| deliver: "s_conn s \<Longrightarrow> s_down s = m # ms \<Longrightarrow> processResponse None True (s_rc s) m = (rc, ProcContinue ack) \<Longrightarrow>
    attach_step delay s ((got m s)\<lparr>s_rc := rc, s_down := ms, s_acks := s_acks s @ ack_of ack\<rparr>)"
| deliver_unacked: "s_conn s \<Longrightarrow> s_down s = m # ms \<Longrightarrow>
    processResponse None False (s_rc s) m = (rc, ProcContinue (Some ack)) \<Longrightarrow>
    attach_step delay s (break_client ((got m s)\<lparr>s_rc := rc\<rparr>))"
| deliver_done: "s_conn s \<Longrightarrow> s_down s = m # ms \<Longrightarrow> processResponse pipe send_ok (s_rc s) m = (rc, ProcDone dn) \<Longrightarrow>
    attach_step delay s (break_client (s\<lparr>s_rc := rc, s_done := Some dn\<rparr>))"
| ack_arrives: "(a, b) \<in> set (s_acks s) \<Longrightarrow> attach_step delay s (s\<lparr>s_mc := AckOutput (s_mc s) a b\<rparr>)"
| client_breaks: "attach_step delay s (break_client s)"
| reattach: "\<not> s_conn s \<Longrightarrow> s_done s = None \<Longrightarrow> s_listed s \<Longrightarrow> tryResumeGuard (s_rc s) False code \<Longrightarrow>
    attachManagedCommand (s_mc s) (rrc_stdoutOffset (s_rc s)) (rrc_stderrOffset (s_rc s)) = (mc, h, ca) \<Longrightarrow>
    resumeAttached sends (s_rc s) ca = (rc, sent, half_closed) \<Longrightarrow>
    attach_step delay s ((serve_attached mc h ca s)\<lparr>s_conn := True, s_down := [], s_rc := rc\<rparr>)"
| reattach_lost: "\<not> s_conn s \<Longrightarrow> s_done s = None \<Longrightarrow> s_listed s \<Longrightarrow> tryResumeGuard (s_rc s) False code \<Longrightarrow>
    attachManagedCommand (s_mc s) (rrc_stdoutOffset (s_rc s)) (rrc_stderrOffset (s_rc s)) = (mc, h, ca) \<Longrightarrow>
    attach_step delay s (serve_attached mc h ca s)"
| gives_up: "\<not> s_conn s \<Longrightarrow> s_done s = None \<Longrightarrow> \<not> s_listed s \<Longrightarrow>
    attach_step delay s (s\<lparr>s_done := Some (DoneErr ''no such command'')\<rparr>)"

text \<open>The state once the daemon has started a command and the client has received its identifier.\<close>

definition attach_init :: "int \<Rightarrow> local_command \<Rightarrow> ManagedCommandSpec \<Rightarrow> string \<Rightarrow> attach_sys" where
  "attach_init now cmd spec cid =
     (case attach ((newManagedCommand now cmd spec)\<lparr>mc_id := cid\<rparr>) of
        (mc, h) \<Rightarrow>
          \<lparr>s_mc = mc, s_listed = True, s_outlog = [], s_errlog = [],
           s_serve = Some \<lparr>sv_handle = h, sv_out = PumpAt 0, sv_err = PumpAt 0\<rparr>,
           s_conn = True, s_down = [], s_acks = [(0, 0)],
           s_rc = newRemoteRunningCommand cid True 0 0, s_outgot = [], s_errgot = [], s_done = None\<rparr>)"

subsection \<open>Chunks of a log\<close>

text \<open>
  The chunks on the wire continue the log from an offset to an end; the chunks delivered are slices
  of the log at increasing, disjoint offsets.
\<close>

fun wire_ok :: "byte list \<Rightarrow> nat \<Rightarrow> byte list list \<Rightarrow> nat \<Rightarrow> bool" where
  "wire_ok log off [] e \<longleftrightarrow> off = e \<and> e \<le> length log"
| "wire_ok log off (d # ds) e \<longleftrightarrow>
     d = take (length d) (drop off log) \<and> off + length d \<le> length log \<and> wire_ok log (off + length d) ds e"

fun chunks_ok :: "byte list \<Rightarrow> nat \<Rightarrow> (nat \<times> byte list) list \<Rightarrow> nat \<Rightarrow> bool" where
  "chunks_ok log lo [] e \<longleftrightarrow> lo \<le> e"
| "chunks_ok log lo ((off, d) # xs) e \<longleftrightarrow>
     lo \<le> off \<and> d = take (length d) (drop off log) \<and> off + length d \<le> length log \<and>
     chunks_ok log (off + length d) xs e"

lemma slice_append:
  assumes "d = take (length d) (drop off log)" and "off + length d \<le> length log"
  shows "d = take (length d) (drop off (log @ x))"
  using assms by simp

lemma wire_ok_log: "wire_ok log off ds e \<Longrightarrow> wire_ok (log @ x) off ds e"
  by (induction ds arbitrary: off) (auto simp: slice_append)

lemma wire_ok_end: "wire_ok log off ds e \<Longrightarrow> off \<le> e \<and> e \<le> length log"
  by (induction ds arbitrary: off) force+

lemma wire_ok_snoc:
  "wire_ok log off ds e \<Longrightarrow> d = take (length d) (drop e log) \<Longrightarrow> e + length d \<le> length log \<Longrightarrow>
     wire_ok log off (ds @ [d]) (e + length d)"
  by (induction ds arbitrary: off) auto

lemma chunks_ok_log: "chunks_ok log lo xs e \<Longrightarrow> chunks_ok (log @ x) lo xs e"
  by (induction xs arbitrary: lo) (auto simp: slice_append)

lemma chunks_ok_mono: "chunks_ok log lo xs e \<Longrightarrow> e \<le> e' \<Longrightarrow> chunks_ok log lo xs e'"
  by (induction xs arbitrary: lo) auto

lemma chunks_ok_snoc:
  "chunks_ok log lo xs e \<Longrightarrow> d = take (length d) (drop e log) \<Longrightarrow> e + length d \<le> length log \<Longrightarrow>
     chunks_ok log lo (xs @ [(e, d)]) (e + length d)"
  by (induction xs arbitrary: lo) auto

subsection \<open>The invariant of one direction of output\<close>

definition pump_ok :: "output_ring \<Rightarrow> byte list \<Rightarrow> pump_state option \<Rightarrow> byte list list \<Rightarrow> nat \<Rightarrow> bool" where
  "pump_ok r log pump ds off \<longleftrightarrow>
     (case pump of
        Some (PumpAt p) \<Rightarrow> wire_ok log off ds (unat p)
      | Some PumpEnded \<Rightarrow> r_closed r \<and> wire_ok log off ds (length log)
      | None \<Rightarrow> \<exists>e. wire_ok log off ds e)"

definition half_ok ::
  "output_ring \<Rightarrow> byte list \<Rightarrow> pump_state option \<Rightarrow> byte list list \<Rightarrow> nat \<Rightarrow> (nat \<times> byte list) list \<Rightarrow> bool \<Rightarrow> bool"
where
  "half_ok r log pump ds off xs conn \<longleftrightarrow>
     streams r log \<and> off \<le> length log \<and> chunks_ok log 0 xs off \<and> (conn \<longrightarrow> pump_ok r log pump ds off)"

lemma half_append:
  assumes "half_ok r log pump ds off xs conn" and "ring_appends r d r'" and "length log + length d < 2 ^ 64"
  shows "half_ok r' (log @ d) pump ds off xs conn"
  using assms streams_append [OF assms(2) _ assms(3)] ring_appends_open [OF assms(2)]
  by (auto simp: half_ok_def pump_ok_def chunks_ok_log wire_ok_log split: option.splits pump_state.splits
      intro: exI wire_ok_log)

lemma half_confirm: "half_ok r log pump ds off xs conn \<Longrightarrow> half_ok (setReleased r a) log pump ds off xs conn"
  by (auto simp: half_ok_def pump_ok_def streams_setReleased split: option.splits pump_state.splits)

lemma half_close: "half_ok r log pump ds off xs conn \<Longrightarrow> half_ok (Close r) log pump ds off xs conn"
  by (auto simp: half_ok_def pump_ok_def streams_Close split: option.splits pump_state.splits)

lemma half_stop:
  assumes "half_ok r log pump ds off xs conn"
  shows "half_ok r log None ds off xs conn"
  using assms by (auto simp: half_ok_def pump_ok_def split: option.splits pump_state.splits)

lemma half_break: "half_ok r log pump ds off xs conn \<Longrightarrow> half_ok r log pump' ds' off xs False"
  by (simp add: half_ok_def)

lemma half_send:
  assumes "half_ok r log (Some (PumpAt p)) ds off xs True" and "pumpStep (ReadAt r p) p = PumpSend d p'"
  shows "half_ok r log (Some (PumpAt p')) (ds @ [d]) off xs True"
proof -
  have s: "streams r log" and w: "wire_ok log off ds (unat p)"
    using assms(1) by (auto simp: half_ok_def pump_ok_def)
  have read: "ReadAt r p = ReadData d p" and p': "p' = p + of_nat (length d)"
    using assms(2) by (auto simp: pumpStep_def split: read_outcome.splits if_splits)
  have "unat p \<le> length log"
    using wire_ok_end [OF w] by simp
  note next_off = ring.read_next [OF s read this]
  have "wire_ok log off (ds @ [d]) (unat p + length d)"
    using w next_off by (intro wire_ok_snoc) auto
  then show ?thesis
    using assms(1) next_off(2) by (simp add: half_ok_def pump_ok_def p')
qed

lemma half_eof:
  assumes "half_ok r log (Some (PumpAt p)) ds off xs conn" and "pumpStep (ReadAt r p) p = PumpEOF"
  shows "half_ok r log (Some PumpEnded) ds off xs conn"
proof (cases conn)
  case True
  then have s: "streams r log" and w: "wire_ok log off ds (unat p)"
    using assms(1) by (auto simp: half_ok_def pump_ok_def)
  obtain o' where read: "ReadAt r p = ReadEOF o'"
    using assms(2) by (auto simp: pumpStep_def split: read_outcome.splits if_splits)
  have "unat p \<le> length log"
    using wire_ok_end [OF w] by simp
  note e = ring.read_end [OF s read this]
  then show ?thesis
    using assms(1) w True by (simp add: half_ok_def pump_ok_def)
next
  case False
  with assms(1) show ?thesis by (simp add: half_ok_def)
qed

lemma half_chunk:
  assumes "half_ok r log pump (d # ds) off xs True"
  shows "half_ok r log pump ds (off + length d) (xs @ [(off, d)]) True"
    and "off + length d \<le> length log" and "length log < 2 ^ 64"
proof -
  have s: "streams r log" and c: "chunks_ok log 0 xs off" and p: "pump_ok r log pump (d # ds) off"
    using assms by (auto simp: half_ok_def)
  have d: "d = take (length d) (drop off log)" "off + length d \<le> length log"
    and p': "pump_ok r log pump ds (off + length d)"
    using p by (auto simp: pump_ok_def split: option.splits pump_state.splits)
  show "half_ok r log pump ds (off + length d) (xs @ [(off, d)]) True"
    using s d p' chunks_ok_snoc [OF c d] by (simp add: half_ok_def)
  show "off + length d \<le> length log" "length log < 2 ^ 64"
    using d(2) ring.rep_length [OF s] by simp_all
qed

lemma half_resume:
  assumes "half_ok r log pump ds (unat off) xs conn"
  shows "half_ok (setReleased r off) log (Some (PumpAt (max off (StartOffset (setReleased r off))))) []
    (unat (max off (max off (StartOffset (setReleased r off))))) xs True"
proof -
  have s: "streams r log" and off: "unat off \<le> length log" and c: "chunks_ok log 0 xs (unat off)"
    using assms by (auto simp: half_ok_def)
  let ?p = "max off (r_start (setReleased r off))"
  note rf = ring.replay_from [OF s off]
  have "unat off \<le> unat ?p"
    using rf(1) by (simp only: word_le_nat_alt)
  then have "chunks_ok log 0 xs (unat ?p)"
    using c chunks_ok_mono by blast
  moreover have "max off ?p = ?p"
    by simp
  ultimately show ?thesis
    using s rf(2) by (simp add: half_ok_def pump_ok_def StartOffset_def streams_setReleased del: r_fields_setReleased)
qed

subsection \<open>The invariant of the system\<close>

definition out_ok :: "attach_sys \<Rightarrow> bool" where
  "out_ok s \<longleftrightarrow> half_ok (mc_stdoutRing (s_mc s)) (s_outlog s) (map_option sv_out (s_serve s)) (outs (s_down s))
     (unat (rrc_stdoutOffset (s_rc s))) (s_outgot s) (s_conn s)"

definition err_ok :: "attach_sys \<Rightarrow> bool" where
  "err_ok s \<longleftrightarrow> half_ok (mc_stderrRing (s_mc s)) (s_errlog s) (map_option sv_err (s_serve s)) (errs (s_down s))
     (unat (rrc_stderrOffset (s_rc s))) (s_errgot s) (s_conn s)"

definition complete :: "attach_sys \<Rightarrow> bool" where
  "complete s \<longleftrightarrow>
     wire_ok (s_outlog s) (unat (rrc_stdoutOffset (s_rc s))) (outs (s_down s)) (length (s_outlog s)) \<and>
     wire_ok (s_errlog s) (unat (rrc_stderrOffset (s_rc s))) (errs (s_down s)) (length (s_errlog s))"

definition end_ok :: "attach_sys \<Rightarrow> bool" where
  "end_ok s \<longleftrightarrow>
     (mc_exited (s_mc s) \<longrightarrow> r_closed (mc_stdoutRing (s_mc s)) \<and> r_closed (mc_stderrRing (s_mc s))) \<and>
     (mc_done (s_mc s) \<longrightarrow> mc_exited (s_mc s)) \<and>
     (s_conn s \<longrightarrow> s_done s = None) \<and> (\<not> s_conn s \<longrightarrow> s_down s = []) \<and>
     (\<forall>st. Resp_ExitStatus st \<in> set (s_down s) \<longrightarrow>
        s_serve s = None \<and> mc_exited (s_mc s) \<and> mc_exitStatus (s_mc s) = st \<and> complete s) \<and>
     (\<forall>st. Resp_ExitStatus st \<notin> set (butlast (s_down s))) \<and>
     (\<forall>st. s_done s = Some (DoneExit st) \<longrightarrow>
        mc_exited (s_mc s) \<and> mc_exitStatus (s_mc s) = st \<and> complete s)"

definition sys_ok :: "attach_sys \<Rightarrow> bool" where
  "sys_ok s \<longleftrightarrow> out_ok s \<and> err_ok s \<and> end_ok s \<and> length (s_outlog s) + length (s_errlog s) < 2 ^ 64"

named_theorems sys_simps \<open>what the steps leave of the components of the system\<close>

lemma rings_ClientGone [sys_simps]:
  "mc_stdoutRing (ClientGone delay now mc h) = mc_stdoutRing mc"
  "mc_stderrRing (ClientGone delay now mc h) = mc_stderrRing mc"
  "mc_exited (ClientGone delay now mc h) = mc_exited mc"
  "mc_done (ClientGone delay now mc h) = mc_done mc"
  "mc_exitStatus (ClientGone delay now mc h) = mc_exitStatus mc"
  by (simp_all add: ClientGone_def Let_def)

lemma rings_AckOutput [sys_simps]:
  "mc_stdoutRing (AckOutput mc a b) = setReleased (mc_stdoutRing mc) a"
  "mc_stderrRing (AckOutput mc a b) = setReleased (mc_stderrRing mc) b"
  "mc_exited (AckOutput mc a b) = mc_exited mc"
  "mc_done (AckOutput mc a b) = mc_done mc"
  "mc_exitStatus (AckOutput mc a b) = mc_exitStatus mc"
  by (simp_all add: AckOutput_def)

lemma rings_attach [sys_simps]:
  "mc_stdoutRing (fst (attach mc)) = mc_stdoutRing mc"
  "mc_stderrRing (fst (attach mc)) = mc_stderrRing mc"
  "mc_exited (fst (attach mc)) = mc_exited mc"
  "mc_done (fst (attach mc)) = mc_done mc"
  "mc_exitStatus (fst (attach mc)) = mc_exitStatus mc"
  by (simp_all add: attach_def Let_def)

lemma attachManagedCommand_rings:
  assumes "attachManagedCommand mc a b = (mc', h, ca)"
  shows "mc_stdoutRing mc' = setReleased (mc_stdoutRing mc) a"
    and "mc_stderrRing mc' = setReleased (mc_stderrRing mc) b"
    and "mc_exited mc' = mc_exited mc" and "mc_done mc' = mc_done mc" and "mc_exitStatus mc' = mc_exitStatus mc"
    and "ca_stdoutReplayOffset ca = max a (StartOffset (setReleased (mc_stdoutRing mc) a))"
    and "ca_stderrReplayOffset ca = max b (StartOffset (setReleased (mc_stderrRing mc) b))"
  using assms rings_attach [of mc]
  by (auto simp: attachManagedCommand_def Let_def rings_AckOutput split: prod.splits)

lemma resumeAttached_offsets:
  assumes "resumeAttached sends rc ca = (rc', sent, hc)"
  shows "rrc_stdoutOffset rc' = max (rrc_stdoutOffset rc) (ca_stdoutReplayOffset ca)"
    and "rrc_stderrOffset rc' = max (rrc_stderrOffset rc) (ca_stderrReplayOffset ca)"
    and "rrc_lastAckedTotal rc' = rrc_lastAckedTotal rc"
    and "resumable rc' = resumable rc"
  using assms
  by (auto simp: resumeAttached_def setClient_def Let_def resumable_def split: prod.splits)

lemma maybeAck_offsets [sys_simps]:
  assumes "maybeAck send_ok rc = (rc', ack)"
  shows "rrc_stdoutOffset rc' = rrc_stdoutOffset rc" and "rrc_stderrOffset rc' = rrc_stderrOffset rc"
    and "resumable rc' = resumable rc"
  using assms by (auto simp: maybeAck_def resumable_def Let_def split: if_splits)

lemma outs_append [simp]: "outs (xs @ ys) = outs xs @ outs ys"
  by (induction xs rule: outs.induct) auto

lemma errs_append [simp]: "errs (xs @ ys) = errs xs @ errs ys"
  by (induction xs rule: errs.induct) auto

lemma stop_serving_sel [sys_simps]:
  "s_serve (stop_serving delay now s) = None"
  "s_conn (stop_serving delay now s) = s_conn s" "s_down (stop_serving delay now s) = s_down s"
  "s_outlog (stop_serving delay now s) = s_outlog s" "s_errlog (stop_serving delay now s) = s_errlog s"
  "s_rc (stop_serving delay now s) = s_rc s" "s_outgot (stop_serving delay now s) = s_outgot s"
  "s_errgot (stop_serving delay now s) = s_errgot s" "s_done (stop_serving delay now s) = s_done s"
  "s_acks (stop_serving delay now s) = s_acks s"
  "mc_stdoutRing (s_mc (stop_serving delay now s)) = mc_stdoutRing (s_mc s)"
  "mc_stderrRing (s_mc (stop_serving delay now s)) = mc_stderrRing (s_mc s)"
  "mc_exited (s_mc (stop_serving delay now s)) = mc_exited (s_mc s)"
  "mc_done (s_mc (stop_serving delay now s)) = mc_done (s_mc s)"
  "mc_exitStatus (s_mc (stop_serving delay now s)) = mc_exitStatus (s_mc s)"
  by (auto simp: stop_serving_def rings_ClientGone split: option.splits)

lemma post_sel [sys_simps]:
  "s_down (post m s) = (if s_conn s then s_down s @ [m] else s_down s)"
  "s_conn (post m s) = s_conn s" "s_serve (post m s) = s_serve s" "s_mc (post m s) = s_mc s"
  "s_outlog (post m s) = s_outlog s" "s_errlog (post m s) = s_errlog s" "s_rc (post m s) = s_rc s"
  "s_outgot (post m s) = s_outgot s" "s_errgot (post m s) = s_errgot s" "s_done (post m s) = s_done s"
  "s_acks (post m s) = s_acks s"
  by (simp_all add: post_def)

lemma got_sel [sys_simps]:
  "s_down (got m s) = s_down s" "s_conn (got m s) = s_conn s" "s_serve (got m s) = s_serve s"
  "s_mc (got m s) = s_mc s" "s_outlog (got m s) = s_outlog s" "s_errlog (got m s) = s_errlog s"
  "s_rc (got m s) = s_rc s" "s_done (got m s) = s_done s" "s_acks (got m s) = s_acks s"
  by (cases m; simp)+

lemma break_sel [sys_simps]:
  "s_down (break_client s) = []" "\<not> s_conn (break_client s)" "s_serve (break_client s) = s_serve s"
  "s_mc (break_client s) = s_mc s" "s_outlog (break_client s) = s_outlog s"
  "s_errlog (break_client s) = s_errlog s" "s_rc (break_client s) = s_rc s"
  "s_outgot (break_client s) = s_outgot s" "s_errgot (break_client s) = s_errgot s"
  "s_done (break_client s) = s_done s" "s_acks (break_client s) = s_acks s"
  by (simp_all add: break_client_def)

lemma serve_attached_sel [sys_simps]:
  "s_serve (serve_attached mc h ca s) = Some \<lparr>sv_handle = h, sv_out = PumpAt (ca_stdoutReplayOffset ca),
      sv_err = PumpAt (ca_stderrReplayOffset ca)\<rparr>"
  "s_mc (serve_attached mc h ca s) = mc" "s_down (serve_attached mc h ca s) = s_down s"
  "s_conn (serve_attached mc h ca s) = s_conn s" "s_outlog (serve_attached mc h ca s) = s_outlog s"
  "s_errlog (serve_attached mc h ca s) = s_errlog s" "s_rc (serve_attached mc h ca s) = s_rc s"
  "s_outgot (serve_attached mc h ca s) = s_outgot s" "s_errgot (serve_attached mc h ca s) = s_errgot s"
  "s_done (serve_attached mc h ca s) = s_done s"
  "s_acks (serve_attached mc h ca s) = s_acks s @ [(rrc_stdoutOffset (s_rc s), rrc_stderrOffset (s_rc s))]"
  by (simp_all add: serve_attached_def)

text \<open>What a delivered message does to the client.\<close>

lemma processResponse_continue:
  assumes "processResponse None send_ok rc m = (rc', ProcContinue ack)"
  shows "(\<forall>st. m \<noteq> Resp_ExitStatus st)"
    and "rrc_stdoutOffset rc' = rrc_stdoutOffset rc + of_nat (length (concat (outs [m])))"
    and "rrc_stderrOffset rc' = rrc_stderrOffset rc + of_nat (length (concat (errs [m])))"
    and "resumable rc' = resumable rc"
  using assms maybeAck_offsets by (cases m; auto split: prod.splits; fastforce simp: resumable_def)+

lemma processResponse_done:
  assumes "processResponse pipe send_ok rc m = (rc', ProcDone dn)"
  shows "rc' = rc" and "dn = DoneExit st \<Longrightarrow> m = Resp_ExitStatus st"
  using assms by (cases m; auto split: option.splits prod.splits)+

lemma reapRecord_sel:
  assumes "reapRecord now st e mc = (mc', forget)"
  shows "mc_stdoutRing mc' = Close (mc_stdoutRing mc)" and "mc_stderrRing mc' = Close (mc_stderrRing mc)"
    and "mc_exited mc'" and "mc_done mc' = mc_done mc"
  using assms by (auto simp: reapRecord_def Let_def)

lemma half_deliver:
  fixes off :: u64
  assumes "half_ok r log pump ds (unat off) xs True" and "ds = d # ds'"
  shows "half_ok r log pump ds' (unat (off + of_nat (length d))) (xs @ [(unat off, d)]) True"
proof -
  note c = half_chunk [OF assms(1) [unfolded assms(2)]]
  have "unat (off + of_nat (length d)) = unat off + length d"
    using c(2,3) by (intro unat_u64_add_of_nat) simp
  then show ?thesis using c(1) by simp
qed

lemma out_ok_deliver:
  assumes "out_ok s" and "s_conn s" and "s_down s = m # ms"
    and "rrc_stdoutOffset rc = rrc_stdoutOffset (s_rc s) + of_nat (length (concat (outs [m])))"
  shows "out_ok ((got m s)\<lparr>s_rc := rc, s_down := ms, s_acks := acks\<rparr>)"
proof (cases "\<exists>d. m = Resp_Stdout d")
  case True
  then show ?thesis
    using assms by (auto simp: out_ok_def sys_simps intro: half_deliver)
next
  case False
  then have "outs (m # ms) = outs ms" "outs [m] = []" "s_outgot (got m s) = s_outgot s"
    by (cases m; simp)+
  then show ?thesis
    using assms by (simp add: out_ok_def sys_simps)
qed

lemma err_ok_deliver:
  assumes "err_ok s" and "s_conn s" and "s_down s = m # ms"
    and "rrc_stderrOffset rc = rrc_stderrOffset (s_rc s) + of_nat (length (concat (errs [m])))"
  shows "err_ok ((got m s)\<lparr>s_rc := rc, s_down := ms, s_acks := acks\<rparr>)"
proof (cases "\<exists>d. m = Resp_Stderr d")
  case True
  then show ?thesis
    using assms by (auto simp: err_ok_def sys_simps intro: half_deliver)
next
  case False
  then have "errs (m # ms) = errs ms" "errs [m] = []" "s_errgot (got m s) = s_errgot s"
    by (cases m; simp)+
  then show ?thesis
    using assms by (simp add: err_ok_def sys_simps)
qed

lemma out_ok_break:
  "out_ok s \<Longrightarrow> out_ok (break_client s)"
  by (auto simp: out_ok_def sys_simps intro: half_break)

lemma err_ok_break:
  "err_ok s \<Longrightarrow> err_ok (break_client s)"
  by (auto simp: err_ok_def sys_simps intro: half_break)

lemma break_after_deliver:
  "break_client (s\<lparr>s_rc := rc, s_down := ms, s_acks := acks\<rparr>) = (break_client (s\<lparr>s_rc := rc\<rparr>))\<lparr>s_acks := acks\<rparr>"
  by (simp add: break_client_def)

lemma out_ok_step:
  assumes "attach_step delay s s'" and "sys_ok s"
  shows "out_ok s'"
  using assms
proof (induction rule: attach_step.induct)
  case (write_out s d r)
  then show ?case
    by (auto simp: sys_ok_def out_ok_def intro: half_append)
next
  case (close_out s)
  then show ?case
    by (auto simp: sys_ok_def out_ok_def intro: half_close)
next
  case (exits s now st e mc forget)
  then show ?case
    by (auto simp: sys_ok_def out_ok_def reapRecord_sel intro: half_close)
next
  case (out_send s sv off d off')
  show ?case
  proof (cases "s_conn s")
    case True
    then show ?thesis
      using out_send half_send by (auto simp: sys_ok_def out_ok_def sys_simps)
  next
    case False
    then show ?thesis
      using out_send by (auto simp: sys_ok_def out_ok_def sys_simps intro: half_break)
  qed
next
  case (out_eof s sv off)
  then show ?case
    using half_eof by (auto simp: sys_ok_def out_ok_def sys_simps)
next
  case (deliver s m ms rc ack)
  then show ?case
    using processResponse_continue(2) [OF deliver(3)] by (auto simp: sys_ok_def intro!: out_ok_deliver)
next
  case (deliver_unacked s m ms rc ack)
  have "out_ok ((got m s)\<lparr>s_rc := rc, s_down := ms, s_acks := s_acks s\<rparr>)"
    using deliver_unacked processResponse_continue(2) [OF deliver_unacked(3)]
    by (auto simp: sys_ok_def intro!: out_ok_deliver)
  then show ?case
    using out_ok_break by (fastforce simp: out_ok_def sys_simps half_ok_def)
next
  case (deliver_done s m ms pipe send_ok rc dn)
  then show ?case
    using processResponse_done(1) [OF deliver_done(3)]
    by (auto simp: sys_ok_def out_ok_def sys_simps intro: half_break)
next
  case (reattach s code mc h ca sends rc sent half_closed)
  then show ?case
    using half_resume
    by (auto simp: sys_ok_def out_ok_def sys_simps attachManagedCommand_rings [OF reattach(5)]
        resumeAttached_offsets [OF reattach(6)])
next
  case (reattach_lost s code mc h ca)
  then show ?case
    using half_confirm half_break
    by (auto simp: sys_ok_def out_ok_def sys_simps attachManagedCommand_rings [OF reattach_lost(5)])
qed (auto simp: sys_ok_def out_ok_def sys_simps intro: half_stop half_confirm half_break half_close)

lemma err_ok_step:
  assumes "attach_step delay s s'" and "sys_ok s"
  shows "err_ok s'"
  using assms
proof (induction rule: attach_step.induct)
  case (write_err s d r)
  then show ?case
    by (auto simp: sys_ok_def err_ok_def intro: half_append)
next
  case (close_err s)
  then show ?case
    by (auto simp: sys_ok_def err_ok_def intro: half_close)
next
  case (exits s now st e mc forget)
  then show ?case
    by (auto simp: sys_ok_def err_ok_def reapRecord_sel intro: half_close)
next
  case (err_send s sv off d off')
  show ?case
  proof (cases "s_conn s")
    case True
    then show ?thesis
      using err_send half_send by (auto simp: sys_ok_def err_ok_def sys_simps)
  next
    case False
    then show ?thesis
      using err_send by (auto simp: sys_ok_def err_ok_def sys_simps intro: half_break)
  qed
next
  case (err_eof s sv off)
  then show ?case
    using half_eof by (auto simp: sys_ok_def err_ok_def sys_simps)
next
  case (deliver s m ms rc ack)
  then show ?case
    using processResponse_continue(3) [OF deliver(3)] by (auto simp: sys_ok_def intro!: err_ok_deliver)
next
  case (deliver_unacked s m ms rc ack)
  have "err_ok ((got m s)\<lparr>s_rc := rc, s_down := ms, s_acks := s_acks s\<rparr>)"
    using deliver_unacked processResponse_continue(3) [OF deliver_unacked(3)]
    by (auto simp: sys_ok_def intro!: err_ok_deliver)
  then show ?case
    using err_ok_break by (fastforce simp: err_ok_def sys_simps half_ok_def)
next
  case (deliver_done s m ms pipe send_ok rc dn)
  then show ?case
    using processResponse_done(1) [OF deliver_done(3)]
    by (auto simp: sys_ok_def err_ok_def sys_simps intro: half_break)
next
  case (reattach s code mc h ca sends rc sent half_closed)
  then show ?case
    using half_resume
    by (auto simp: sys_ok_def err_ok_def sys_simps attachManagedCommand_rings [OF reattach(5)]
        resumeAttached_offsets [OF reattach(6)])
next
  case (reattach_lost s code mc h ca)
  then show ?case
    using half_confirm half_break
    by (auto simp: sys_ok_def err_ok_def sys_simps attachManagedCommand_rings [OF reattach_lost(5)])
qed (auto simp: sys_ok_def err_ok_def sys_simps intro: half_stop half_confirm half_break half_close)

lemma complete_deliver:
  assumes "complete s" and "sys_ok s" and "s_conn s" and "s_down s = m # ms"
    and "processResponse None send_ok (s_rc s) m = (rc, ProcContinue ack)"
  shows "complete ((got m s)\<lparr>s_rc := rc, s_down := ms, s_acks := acks\<rparr>)"
proof -
  note p = processResponse_continue [OF assms(5)]
  have len: "length (s_outlog s) < 2 ^ 64" "length (s_errlog s) < 2 ^ 64"
    using assms(2) by (auto simp: sys_ok_def)
  have out: "wire_ok (s_outlog s) (unat (rrc_stdoutOffset (s_rc s))) (outs (m # ms)) (length (s_outlog s))"
    and err: "wire_ok (s_errlog s) (unat (rrc_stderrOffset (s_rc s))) (errs (m # ms)) (length (s_errlog s))"
    using assms(1,4) by (auto simp: complete_def)
  have "wire_ok (s_outlog s) (unat (rrc_stdoutOffset rc)) (outs ms) (length (s_outlog s))"
  proof (cases "\<exists>d. m = Resp_Stdout d")
    case True
    then show ?thesis using out p(2) len by (auto simp: unat_u64_add_of_nat)
  next
    case False
    then have "outs (m # ms) = outs ms" "outs [m] = []" by (cases m; simp)+
    then show ?thesis using out p(2) by simp
  qed
  moreover have "wire_ok (s_errlog s) (unat (rrc_stderrOffset rc)) (errs ms) (length (s_errlog s))"
  proof (cases "\<exists>d. m = Resp_Stderr d")
    case True
    then show ?thesis using err p(3) len by (auto simp: unat_u64_add_of_nat)
  next
    case False
    then have "errs (m # ms) = errs ms" "errs [m] = []" by (cases m; simp)+
    then show ?thesis using err p(3) by simp
  qed
  ultimately show ?thesis
    by (simp add: complete_def sys_simps)
qed

lemma complete_ended:
  assumes "sys_ok s" and "s_conn s" and "s_serve s = Some sv" and "sv_out sv = PumpEnded" and "sv_err sv = PumpEnded"
  shows "complete s"
  using assms by (auto simp: sys_ok_def out_ok_def err_ok_def half_ok_def pump_ok_def complete_def)

lemma complete_cong:
  assumes "complete s" and "s_outlog s' = s_outlog s" and "s_errlog s' = s_errlog s"
    and "rrc_stdoutOffset (s_rc s') = rrc_stdoutOffset (s_rc s)"
    and "rrc_stderrOffset (s_rc s') = rrc_stderrOffset (s_rc s)"
    and "outs (s_down s') = outs (s_down s)" and "errs (s_down s') = errs (s_down s)"
  shows "complete s'"
  using assms by (simp add: complete_def)

text \<open>Steps that change neither the logs, the client, the messages nor the exit.\<close>

lemma end_ok_frame:
  assumes "end_ok s" and "s_outlog s' = s_outlog s" and "s_errlog s' = s_errlog s" and "s_rc s' = s_rc s"
    and "s_down s' = s_down s" and "s_conn s' = s_conn s" and "s_done s' = s_done s"
    and "s_serve s = None \<Longrightarrow> s_serve s' = None"
    and "mc_exited (s_mc s') = mc_exited (s_mc s)" and "mc_done (s_mc s') = mc_done (s_mc s)"
    and "mc_exitStatus (s_mc s') = mc_exitStatus (s_mc s)"
    and "r_closed (mc_stdoutRing (s_mc s)) \<Longrightarrow> r_closed (mc_stdoutRing (s_mc s'))"
    and "r_closed (mc_stderrRing (s_mc s)) \<Longrightarrow> r_closed (mc_stderrRing (s_mc s'))"
  shows "end_ok s'"
proof -
  have "complete s' = complete s"
    using assms by (simp add: complete_def)
  then show ?thesis
    using assms unfolding end_ok_def by simp
qed

lemma end_ok_write:
  assumes "end_ok s" and "s_rc s' = s_rc s" and "s_down s' = s_down s" and "s_conn s' = s_conn s"
    and "s_done s' = s_done s" and "\<not> mc_exited (s_mc s)" and "mc_exited (s_mc s') = mc_exited (s_mc s)"
    and "mc_done (s_mc s') = mc_done (s_mc s)"
  shows "end_ok s'"
  using assms unfolding end_ok_def by simp

lemma exit_not_serving:
  assumes "end_ok s" and "s_serve s = Some sv"
  shows "Resp_ExitStatus st \<notin> set (s_down s)"
  using assms by (auto simp: end_ok_def)

lemma end_ok_post:
  assumes "end_ok s" and "s_serve s = Some sv" and "\<forall>st. m \<noteq> Resp_ExitStatus st"
  shows "end_ok (post m (s\<lparr>s_serve := Some sv'\<rparr>))"
proof (cases "s_conn s")
  case True
  have no: "Resp_ExitStatus st \<notin> set (s_down s)" for st
    using exit_not_serving [OF assms(1,2)] .
  then show ?thesis
    using assms True by (auto simp: end_ok_def sys_simps butlast_append)
next
  case False
  then show ?thesis
    using assms by (auto simp: end_ok_def sys_simps complete_def)
qed

lemma end_ok_exit:
  assumes "sys_ok s" and "s_serve s = Some sv" and "sv_out sv = PumpEnded" and "sv_err sv = PumpEnded"
    and "mc_done (s_mc s)" and "mc_exitStatus (s_mc s) = st"
  shows "end_ok (stop_serving delay now (post (Resp_ExitStatus st) s)\<lparr>s_listed := False\<rparr>)"
proof (cases "s_conn s")
  case True
  have no: "Resp_ExitStatus st' \<notin> set (s_down s)" for st'
    using assms(1,2) exit_not_serving by (auto simp: sys_ok_def)
  have "complete s"
    using complete_ended [OF assms(1) True assms(2-4)] .
  then have "complete (stop_serving delay now (post (Resp_ExitStatus st) s)\<lparr>s_listed := False\<rparr>)"
    by (rule complete_cong) (simp_all add: sys_simps)
  then show ?thesis
    using assms True no by (auto simp: sys_ok_def end_ok_def sys_simps butlast_append)
next
  case False
  then show ?thesis
    using assms by (auto simp: sys_ok_def end_ok_def sys_simps complete_def)
qed

lemma end_ok_deliver:
  assumes "sys_ok s" and "s_conn s" and "s_down s = m # ms"
    and "processResponse None send_ok (s_rc s) m = (rc, ProcContinue ack)"
  shows "end_ok ((got m s)\<lparr>s_rc := rc, s_down := ms, s_acks := acks\<rparr>)"
proof -
  have e: "end_ok s"
    using assms(1) by (simp add: sys_ok_def)
  have "complete ((got m s)\<lparr>s_rc := rc, s_down := ms, s_acks := acks\<rparr>)" if "Resp_ExitStatus st \<in> set ms" for st
    using complete_deliver [OF _ assms] e assms(3) that by (auto simp: end_ok_def)
  then show ?thesis
    using e assms(2,3) by (cases ms) (auto simp: end_ok_def sys_simps)
qed

lemma end_ok_break:
  assumes "end_ok s" and "s_done s = None"
  shows "end_ok (break_client s)"
  using assms by (auto simp: end_ok_def sys_simps)

lemma end_ok_done:
  assumes "sys_ok s" and "s_conn s" and "s_down s = m # ms"
    and "processResponse pipe send_ok (s_rc s) m = (rc, ProcDone dn)"
  shows "end_ok (break_client (s\<lparr>s_rc := rc, s_done := Some dn\<rparr>))"
proof -
  note p = processResponse_done [OF assms(4)]
  have e: "end_ok s"
    using assms(1) by (simp add: sys_ok_def)
  have "mc_exited (s_mc s) \<and> mc_exitStatus (s_mc s) = st \<and>
      complete (break_client (s\<lparr>s_rc := rc, s_done := Some dn\<rparr>))" if "dn = DoneExit st" for st
  proof -
    have m: "m = Resp_ExitStatus st" using p(2) that .
    then have "ms = []"
      using e assms(3) by (cases ms) (auto simp: end_ok_def)
    then show ?thesis
      using e assms(3) m p(1) by (auto simp: end_ok_def complete_def sys_simps)
  qed
  then show ?thesis
    using e by (auto simp: end_ok_def sys_simps)
qed

lemma end_ok_step:
  assumes "attach_step delay s s'" and "sys_ok s"
  shows "end_ok s'"
  using assms
proof (induction rule: attach_step.induct)
  case (write_out s d r)
  have "\<not> mc_exited (s_mc s)"
    using write_out ring_appends_open by (auto simp: sys_ok_def end_ok_def)
  then show ?case
    using write_out by - (rule end_ok_write [of s], auto simp: sys_ok_def)
next
  case (write_err s d r)
  have "\<not> mc_exited (s_mc s)"
    using write_err ring_appends_open by (auto simp: sys_ok_def end_ok_def)
  then show ?case
    using write_err by - (rule end_ok_write [of s], auto simp: sys_ok_def)
next
  case (exits s now st e mc forget)
  then show ?case
    by (auto simp: sys_ok_def end_ok_def reapRecord_sel)
next
  case (finished s)
  then show ?case
    by (auto simp: sys_ok_def end_ok_def complete_def)
next
  case (out_send s sv off d off')
  then show ?case
    by - (rule end_ok_post, auto simp: sys_ok_def)
next
  case (err_send s sv off d off')
  then show ?case
    by - (rule end_ok_post, auto simp: sys_ok_def)
next
  case (exit_sent s sv st now)
  then have "mc_exitStatus (s_mc s) = st"
    by (auto simp: serveEnd_def split: option.splits)
  then show ?case
    using exit_sent by (intro end_ok_exit) auto
next
  case (deliver s m ms rc ack)
  then show ?case by (intro end_ok_deliver)
next
  case (deliver_unacked s m ms rc ack)
  have "end_ok ((got m s)\<lparr>s_rc := rc, s_down := ms, s_acks := s_acks s\<rparr>)"
    using deliver_unacked by (intro end_ok_deliver)
  moreover have "s_done s = None"
    using deliver_unacked by (auto simp: sys_ok_def end_ok_def)
  ultimately show ?case
    by (auto simp: end_ok_def sys_simps)
next
  case (deliver_done s m ms pipe send_ok rc dn)
  then show ?case by (intro end_ok_done)
next
  case (client_breaks s)
  then show ?case
    by (cases "s_conn s") (auto simp: sys_ok_def end_ok_def sys_simps complete_def)
next
  case (reattach s code mc h ca sends rc sent half_closed)
  then show ?case
    by (auto simp: sys_ok_def end_ok_def sys_simps attachManagedCommand_rings [OF reattach(5)])
next
  case (reattach_lost s code mc h ca)
  then show ?case
    by (auto simp: sys_ok_def end_ok_def sys_simps attachManagedCommand_rings [OF reattach_lost(5)])
next
  case (gives_up s)
  then show ?case
    by (auto simp: sys_ok_def end_ok_def)
qed (auto simp: sys_ok_def sys_simps elim!: end_ok_frame)

lemma sys_ok_step:
  assumes "attach_step delay s s'" and "sys_ok s"
  shows "sys_ok s'"
proof -
  have "length (s_outlog s') + length (s_errlog s') < 2 ^ 64"
    using assms by (induction rule: attach_step.induct) (auto simp: sys_ok_def sys_simps)
  then show ?thesis
    using out_ok_step [OF assms] err_ok_step [OF assms] end_ok_step [OF assms] by (simp add: sys_ok_def)
qed

lemma sys_ok_steps: "(attach_step delay)\<^sup>*\<^sup>* s s' \<Longrightarrow> sys_ok s \<Longrightarrow> sys_ok s'"
  by (induction rule: rtranclp_induct) (auto intro: sys_ok_step)

definition capacities_ok :: "ManagedCommandSpec \<Rightarrow> bool" where
  "capacities_ok spec \<longleftrightarrow> 0 \<le> spec_stdoutCapacity spec \<and> spec_stdoutCapacity spec < 2 ^ 63 \<and>
     0 \<le> spec_stderrCapacity spec \<and> spec_stderrCapacity spec < 2 ^ 63"

lemma newManagedCommand_streams:
  assumes "capacities_ok spec"
  shows "streams (mc_stdoutRing (newManagedCommand now cmd spec)) []"
    and "streams (mc_stderrRing (newManagedCommand now cmd spec)) []"
  using assms
  by (auto simp: capacities_ok_def newManagedCommand_def Let_def defaultOutputRingCapacity_def
      intro!: streams_new streams_setLossless)

lemma attach_init_sel:
  "mc_stdoutRing (s_mc (attach_init now cmd spec cid)) = mc_stdoutRing (newManagedCommand now cmd spec)"
  "mc_stderrRing (s_mc (attach_init now cmd spec cid)) = mc_stderrRing (newManagedCommand now cmd spec)"
  "s_outlog (attach_init now cmd spec cid) = []" "s_errlog (attach_init now cmd spec cid) = []"
  "map_option sv_out (s_serve (attach_init now cmd spec cid)) = Some (PumpAt 0)"
  "map_option sv_err (s_serve (attach_init now cmd spec cid)) = Some (PumpAt 0)"
  "s_conn (attach_init now cmd spec cid)" "s_down (attach_init now cmd spec cid) = []"
  "s_rc (attach_init now cmd spec cid) = newRemoteRunningCommand cid True 0 0"
  "s_outgot (attach_init now cmd spec cid) = []" "s_errgot (attach_init now cmd spec cid) = []"
  "s_done (attach_init now cmd spec cid) = None" "s_acks (attach_init now cmd spec cid) = [(0, 0)]"
  "mc_exited (s_mc (attach_init now cmd spec cid)) = False" "mc_done (s_mc (attach_init now cmd spec cid)) = False"
  by (simp_all add: attach_init_def attach_def Let_def newManagedCommand_def)

lemma sys_ok_init:
  assumes "capacities_ok spec"
  shows "sys_ok (attach_init now cmd spec cid)"
  using newManagedCommand_streams [OF assms, of now cmd]
  by (simp add: sys_ok_def out_ok_def err_ok_def end_ok_def half_ok_def pump_ok_def attach_init_sel
      newRemoteRunningCommand_def)

subsection \<open>Lossless commands\<close>

text \<open>
  With lossless rings nothing is evicted before the client has confirmed it: the confirmed offsets
  never pass what the client has consumed, and what it has consumed is a prefix of the log.
\<close>

definition lossless_half :: "output_ring \<Rightarrow> byte list \<Rightarrow> u64 \<Rightarrow> (nat \<times> byte list) list \<Rightarrow> bool" where
  "lossless_half r log off xs \<longleftrightarrow>
     lossless_streams r log \<and> r_released r \<le> off \<and> concat (map snd xs) = take (unat off) log"

definition lossless_ok :: "attach_sys \<Rightarrow> bool" where
  "lossless_ok s \<longleftrightarrow>
     lossless_half (mc_stdoutRing (s_mc s)) (s_outlog s) (rrc_stdoutOffset (s_rc s)) (s_outgot s) \<and>
     lossless_half (mc_stderrRing (s_mc s)) (s_errlog s) (rrc_stderrOffset (s_rc s)) (s_errgot s) \<and>
     (\<forall>(a, b) \<in> set (s_acks s). a \<le> rrc_stdoutOffset (s_rc s) \<and> b \<le> rrc_stderrOffset (s_rc s))"

lemma lossless_half_append:
  assumes "lossless_half r log off xs" and "ring_appends r d r'" and "length log + length d < 2 ^ 64"
    and "unat off \<le> length log"
  shows "lossless_half r' (log @ d) off xs"
  using assms lossless_streams_append [OF assms(2) _ assms(3)] ring_appends_released(1) [OF assms(2)]
  by (simp add: lossless_half_def)

lemma lossless_half_confirm:
  assumes "lossless_half r log off xs" and "a \<le> off"
  shows "lossless_half (setReleased r a) log off xs"
  using assms lossless_ring.confirm_rep lossless_ring.confirm_bound by (simp add: lossless_half_def)

lemma lossless_half_close: "lossless_half r log off xs \<Longrightarrow> lossless_half (Close r) log off xs"
  by (simp add: lossless_half_def lossless_streams_Close)

lemma lossless_half_resume:
  assumes "lossless_half r log off xs"
  shows "max off (StartOffset (setReleased r off)) = off"
  using assms lossless_ring.replay_exact [of r log off] by (simp add: lossless_half_def StartOffset_def)

lemma take_chunk:
  assumes "d = take (length d) (drop n log)" and "n + length d \<le> length log"
  shows "take n log @ d = take (n + length d) log"
  using assms by (metis take_add)

lemma lossless_half_deliver:
  assumes "lossless_half r log off xs" and "half_ok r log pump (d # ds) (unat off) xs' True"
  shows "lossless_half r log (off + of_nat (length d)) (xs @ [(unat off, d)])"
proof -
  note c = half_chunk [OF assms(2)]
  have d: "d = take (length d) (drop (unat off) log)"
    using assms(2) by (auto simp: half_ok_def pump_ok_def split: option.splits pump_state.splits)
  have u: "unat (off + of_nat (length d)) = unat off + length d"
    using c(2,3) by (intro unat_u64_add_of_nat) simp
  moreover have "r_released r \<le> off + of_nat (length d)"
    using assms(1) u by (auto simp: lossless_half_def word_le_nat_alt)
  ultimately show ?thesis
    using assms(1) take_chunk [OF d c(2)] by (simp add: lossless_half_def)
qed

lemma processResponse_ack:
  assumes "processResponse None send_ok rc m = (rc', ProcContinue ack)"
  shows "set (ack_of ack) \<subseteq> {(rrc_stdoutOffset rc', rrc_stderrOffset rc')}"
  using assms
  by (cases m) (auto simp: maybeAck_def Let_def split: prod.splits if_splits)

lemma deliver_mono:
  fixes off :: u64
  assumes "half_ok r log pump ds (unat off) xs True" and "outs_len = length (concat (take 1 ds))"
  shows "off \<le> off + of_nat outs_len"
proof (cases ds)
  case (Cons d ds')
  note c = half_chunk [OF assms(1) [unfolded Cons]]
  have "unat (off + of_nat (length d)) = unat off + length d"
    using c(2,3) by (intro unat_u64_add_of_nat) simp
  then show ?thesis
    using assms(2) Cons by (simp add: word_le_nat_alt)
qed (use assms(2) in simp)

lemma deliver_offsets_mono:
  assumes "sys_ok s" and "s_conn s" and "s_down s = m # ms"
    and "processResponse None send_ok (s_rc s) m = (rc, ProcContinue ack)"
  shows "rrc_stdoutOffset (s_rc s) \<le> rrc_stdoutOffset rc" and "rrc_stderrOffset (s_rc s) \<le> rrc_stderrOffset rc"
proof -
  note p = processResponse_continue [OF assms(4)]
  have o: "half_ok (mc_stdoutRing (s_mc s)) (s_outlog s) (map_option sv_out (s_serve s)) (outs (m # ms))
     (unat (rrc_stdoutOffset (s_rc s))) (s_outgot s) True"
   and e: "half_ok (mc_stderrRing (s_mc s)) (s_errlog s) (map_option sv_err (s_serve s)) (errs (m # ms))
     (unat (rrc_stderrOffset (s_rc s))) (s_errgot s) True"
    using assms(1-3) by (auto simp: sys_ok_def out_ok_def err_ok_def)
  show "rrc_stdoutOffset (s_rc s) \<le> rrc_stdoutOffset rc"
  proof (cases "\<exists>d. m = Resp_Stdout d")
    case True
    then show ?thesis using deliver_mono [OF o] p(2) by auto
  next
    case False
    then have "outs [m] = []" by (cases m; simp)
    then show ?thesis using p(2) by simp
  qed
  show "rrc_stderrOffset (s_rc s) \<le> rrc_stderrOffset rc"
  proof (cases "\<exists>d. m = Resp_Stderr d")
    case True
    then show ?thesis using deliver_mono [OF e] p(3) by auto
  next
    case False
    then have "errs [m] = []" by (cases m; simp)
    then show ?thesis using p(3) by simp
  qed
qed

lemma lossless_ok_deliver:
  assumes "sys_ok s" and "lossless_ok s" and "s_conn s" and "s_down s = m # ms"
    and "processResponse None send_ok (s_rc s) m = (rc, ProcContinue ack)"
    and "set acks \<subseteq> set (s_acks s) \<union> {(rrc_stdoutOffset rc, rrc_stderrOffset rc)}"
  shows "lossless_ok ((got m s)\<lparr>s_rc := rc, s_down := ms', s_acks := acks\<rparr>)"
proof -
  note p = processResponse_continue [OF assms(5)]
  note mono = deliver_offsets_mono [OF assms(1,3,4,5)]
  have o: "half_ok (mc_stdoutRing (s_mc s)) (s_outlog s) (map_option sv_out (s_serve s)) (outs (m # ms))
     (unat (rrc_stdoutOffset (s_rc s))) (s_outgot s) True"
   and e: "half_ok (mc_stderrRing (s_mc s)) (s_errlog s) (map_option sv_err (s_serve s)) (errs (m # ms))
     (unat (rrc_stderrOffset (s_rc s))) (s_errgot s) True"
    using assms(1,3,4) by (auto simp: sys_ok_def out_ok_def err_ok_def)
  have lo: "lossless_half (mc_stdoutRing (s_mc s)) (s_outlog s) (rrc_stdoutOffset (s_rc s)) (s_outgot s)"
   and le: "lossless_half (mc_stderrRing (s_mc s)) (s_errlog s) (rrc_stderrOffset (s_rc s)) (s_errgot s)"
    using assms(2) by (auto simp: lossless_ok_def)
  have "lossless_half (mc_stdoutRing (s_mc s)) (s_outlog s) (rrc_stdoutOffset rc) (s_outgot (got m s))"
  proof (cases "\<exists>d. m = Resp_Stdout d")
    case True
    then show ?thesis using lossless_half_deliver [OF lo] o p(2) by auto
  next
    case False
    then have "outs [m] = []" "s_outgot (got m s) = s_outgot s" by (cases m; simp)+
    then show ?thesis using lo p(2) by simp
  qed
  moreover have "lossless_half (mc_stderrRing (s_mc s)) (s_errlog s) (rrc_stderrOffset rc) (s_errgot (got m s))"
  proof (cases "\<exists>d. m = Resp_Stderr d")
    case True
    then show ?thesis using lossless_half_deliver [OF le] e p(3) by auto
  next
    case False
    then have "errs [m] = []" "s_errgot (got m s) = s_errgot s" by (cases m; simp)+
    then show ?thesis using le p(3) by simp
  qed
  moreover have "\<forall>(a, b) \<in> set acks. a \<le> rrc_stdoutOffset rc \<and> b \<le> rrc_stderrOffset rc"
    using assms(2,6) mono by (force simp: lossless_ok_def)
  ultimately show ?thesis
    by (simp add: lossless_ok_def sys_simps)
qed

lemma lossless_ok_step:
  assumes "attach_step delay s s'" and "sys_ok s" and "lossless_ok s"
  shows "lossless_ok s'"
  using assms
proof (induction rule: attach_step.induct)
  case (write_out s d r)
  then show ?case
    by (auto simp: lossless_ok_def sys_ok_def out_ok_def half_ok_def intro: lossless_half_append)
next
  case (write_err s d r)
  then show ?case
    by (auto simp: lossless_ok_def sys_ok_def err_ok_def half_ok_def intro: lossless_half_append)
next
  case (exits s now st e mc forget)
  then show ?case
    by (auto simp: lossless_ok_def reapRecord_sel lossless_half_close)
next
  case (deliver s m ms rc ack)
  then show ?case
    using processResponse_ack [OF deliver(3)] by (intro lossless_ok_deliver) auto
next
  case (deliver_unacked s m ms rc ack)
  then have "lossless_ok ((got m s)\<lparr>s_rc := rc, s_down := ms, s_acks := s_acks s\<rparr>)"
    by (intro lossless_ok_deliver) auto
  then show ?case
    by (simp add: lossless_ok_def sys_simps)
next
  case (deliver_done s m ms pipe send_ok rc dn)
  then show ?case
    using processResponse_done(1) [OF deliver_done(3)] by (simp add: lossless_ok_def sys_simps)
next
  case (ack_arrives a b s)
  then show ?case
    by (auto simp: lossless_ok_def sys_simps intro: lossless_half_confirm)
next
  case (reattach s code mc h ca sends rc sent half_closed)
  note a = attachManagedCommand_rings [OF reattach(5)] and r = resumeAttached_offsets [OF reattach(6)]
  have "ca_stdoutReplayOffset ca = rrc_stdoutOffset (s_rc s)" "ca_stderrReplayOffset ca = rrc_stderrOffset (s_rc s)"
    using reattach(8) lossless_half_resume by (auto simp: lossless_ok_def a(6,7))
  then show ?case
    using reattach(8) by (auto simp: lossless_ok_def sys_simps a(1,2) r intro: lossless_half_confirm)
next
  case (reattach_lost s code mc h ca)
  note a = attachManagedCommand_rings [OF reattach_lost(5)]
  show ?case
    using reattach_lost(7) by (auto simp: lossless_ok_def sys_simps a(1,2) intro: lossless_half_confirm)
qed (auto simp: lossless_ok_def sys_simps lossless_half_close)

lemma lossless_ok_steps:
  "(attach_step delay)\<^sup>*\<^sup>* s s' \<Longrightarrow> sys_ok s \<Longrightarrow> lossless_ok s \<Longrightarrow> lossless_ok s'"
proof (induction rule: rtranclp_induct)
  case (step y z)
  then show ?case using lossless_ok_step sys_ok_steps by metis
qed simp

lemma lossless_ok_init:
  assumes "capacities_ok spec" and "spec_persistence spec = persistenceKill"
  shows "lossless_ok (attach_init now cmd spec cid)"
  using assms
  by (auto simp: lossless_ok_def lossless_half_def attach_init_sel newManagedCommand_def Let_def
      newRemoteRunningCommand_def capacities_ok_def defaultOutputRingCapacity_def
      setLossless_def newOutputRing_def lossless_streams_def streams_def represents_def ring_ok_def make_chan_def)

subsection \<open>Acknowledgements keep up with delivery\<close>

text \<open>
  While the client is connected, some acknowledgement it has sent covers all but
  \<^verbatim>\<open>commandAckEveryBytes\<close> of what it has consumed.
\<close>

definition window_ok :: "attach_sys \<Rightarrow> bool" where
  "window_ok s \<longleftrightarrow>
     resumable (s_rc s) \<and>
     (\<exists>(a, b) \<in> set (s_acks s). unat (rrc_lastAckedTotal (s_rc s)) = unat a + unat b) \<and>
     (s_conn s \<longrightarrow> (\<exists>(a, b) \<in> set (s_acks s).
        unat (rrc_stdoutOffset (s_rc s)) + unat (rrc_stderrOffset (s_rc s)) < unat a + unat b + 131072))"

lemma commandAckEveryBytes_nat [simp]: "unat commandAckEveryBytes = 131072"
  by (simp add: commandAckEveryBytes_def)

lemma maybeAck_cases:
  assumes "maybeAck True rc = (rc', ack)" and "resumable rc"
    and "unat (rrc_lastAckedTotal rc) \<le> unat (rrc_stdoutOffset rc) + unat (rrc_stderrOffset rc)"
    and "unat (rrc_stdoutOffset rc) + unat (rrc_stderrOffset rc) < 2 ^ 64"
  shows "(ack = None \<and> rc' = rc \<and>
            unat (rrc_stdoutOffset rc) + unat (rrc_stderrOffset rc) < unat (rrc_lastAckedTotal rc) + 131072) \<or>
         (ack = Some (Req_Ack (rrc_stdoutOffset rc) (rrc_stderrOffset rc)) \<and>
          unat (rrc_lastAckedTotal rc') = unat (rrc_stdoutOffset rc) + unat (rrc_stderrOffset rc))"
proof -
  let ?tot = "rrc_stdoutOffset rc + rrc_stderrOffset rc"
  have t: "unat ?tot = unat (rrc_stdoutOffset rc) + unat (rrc_stderrOffset rc)"
    using assms(4) by (rule unat_u64_add)
  then have "unat (?tot - rrc_lastAckedTotal rc) = unat ?tot - unat (rrc_lastAckedTotal rc)"
    using assms(3) by (intro unat_u64_diff) (simp add: word_le_nat_alt)
  then have "?tot - rrc_lastAckedTotal rc < commandAckEveryBytes \<longleftrightarrow>
      unat ?tot - unat (rrc_lastAckedTotal rc) < 131072"
    by (simp add: word_less_nat_alt)
  then show ?thesis
    using assms(1,2) t by (auto simp: maybeAck_def Let_def split: if_splits)
qed

lemma window_ok_deliver:
  assumes "sys_ok s" and "lossless_ok s" and "window_ok s" and "s_conn s" and "s_down s = m # ms"
    and "processResponse None True (s_rc s) m = (rc, ProcContinue ack)"
  shows "window_ok ((got m s)\<lparr>s_rc := rc, s_down := ms, s_acks := s_acks s @ ack_of ack\<rparr>)"
proof -
  note p = processResponse_continue [OF assms(6)]
  note mono = deliver_offsets_mono [OF assms(1,4,5,6)]
  obtain a b where ab: "(a, b) \<in> set (s_acks s)" "unat (rrc_lastAckedTotal (s_rc s)) = unat a + unat b"
    using assms(3) by (auto simp: window_ok_def)
  have le: "a \<le> rrc_stdoutOffset (s_rc s)" "b \<le> rrc_stderrOffset (s_rc s)"
    using assms(2) ab(1) by (auto simp: lossless_ok_def)
  have last: "unat (rrc_lastAckedTotal (s_rc s)) \<le> unat (rrc_stdoutOffset rc) + unat (rrc_stderrOffset rc)"
    using le mono ab(2) by (simp add: word_le_nat_alt)
  have bound: "unat (rrc_stdoutOffset rc) + unat (rrc_stderrOffset rc) < 2 ^ 64"
  proof -
    have "out_ok ((got m s)\<lparr>s_rc := rc, s_down := ms, s_acks := []\<rparr>)"
      "err_ok ((got m s)\<lparr>s_rc := rc, s_down := ms, s_acks := []\<rparr>)"
      using assms(1,4,5) p by (auto simp: sys_ok_def intro!: out_ok_deliver err_ok_deliver)
    then have "unat (rrc_stdoutOffset rc) \<le> length (s_outlog s)" "unat (rrc_stderrOffset rc) \<le> length (s_errlog s)"
      by (auto simp: out_ok_def err_ok_def half_ok_def sys_simps)
    then show ?thesis
      using assms(1) by (simp add: sys_ok_def)
  qed
  have res: "resumable (s_rc s)" and conn: "\<exists>(a, b) \<in> set (s_acks s).
        unat (rrc_stdoutOffset (s_rc s)) + unat (rrc_stderrOffset (s_rc s)) < unat a + unat b + 131072"
    using assms(3,4) by (auto simp: window_ok_def)
  consider (data) rc0 where "maybeAck True rc0 = (rc, ack)" "rrc_lastAckedTotal rc0 = rrc_lastAckedTotal (s_rc s)"
      "resumable rc0" | (other) "rc = s_rc s" "ack = None"
    using assms(6) res by (cases m) (fastforce simp: resumable_def split: prod.splits)+
  then show ?thesis
  proof cases
    case data
    note off = maybeAck_offsets [OF data(1)]
    have "(ack = None \<and> rc = rc0 \<and>
            unat (rrc_stdoutOffset rc0) + unat (rrc_stderrOffset rc0) < unat (rrc_lastAckedTotal rc0) + 131072) \<or>
         (ack = Some (Req_Ack (rrc_stdoutOffset rc0) (rrc_stderrOffset rc0)) \<and>
          unat (rrc_lastAckedTotal rc) = unat (rrc_stdoutOffset rc0) + unat (rrc_stderrOffset rc0))"
      using maybeAck_cases [OF data(1,3)] last bound off data(2) by simp
    then show ?thesis
    proof
      assume "ack = None \<and> rc = rc0 \<and>
            unat (rrc_stdoutOffset rc0) + unat (rrc_stderrOffset rc0) < unat (rrc_lastAckedTotal rc0) + 131072"
      then show ?thesis
        using ab data(2,3) by (auto simp: window_ok_def sys_simps intro!: bexI [of _ "(a, b)"])
    qed (use off data(3) in \<open>auto simp: window_ok_def sys_simps\<close>)
  next
    case other
    then show ?thesis
      using assms(3) by (simp add: window_ok_def sys_simps)
  qed
qed

lemma processResponse_unacked:
  assumes "processResponse None False rc m = (rc', ProcContinue ack)"
  shows "rrc_lastAckedTotal rc' = rrc_lastAckedTotal rc"
  using assms by (cases m) (auto simp: maybeAck_def Let_def split: prod.splits if_splits)

lemma window_ok_step:
  assumes "attach_step delay s s'" and "sys_ok s" and "lossless_ok s" and "window_ok s"
  shows "window_ok s'"
  using assms
proof (induction rule: attach_step.induct)
  case (deliver s m ms rc ack)
  then show ?case by (intro window_ok_deliver)
next
  case (deliver_unacked s m ms rc ack)
  then show ?case
    using processResponse_unacked [OF deliver_unacked(3)] processResponse_continue(4) [OF deliver_unacked(3)]
    by (auto simp: window_ok_def sys_simps)
next
  case (deliver_done s m ms pipe send_ok rc dn)
  then show ?case
    using processResponse_done(1) [OF deliver_done(3)] by (auto simp: window_ok_def sys_simps)
next
  case (reattach s code mc h ca sends rc sent half_closed)
  note a = attachManagedCommand_rings [OF reattach(5)] and r = resumeAttached_offsets [OF reattach(6)]
  have "ca_stdoutReplayOffset ca = rrc_stdoutOffset (s_rc s)" "ca_stderrReplayOffset ca = rrc_stderrOffset (s_rc s)"
    using reattach(8) lossless_half_resume by (auto simp: lossless_ok_def a(6,7))
  then show ?case
    using reattach(9) r by (auto simp: window_ok_def sys_simps)
next
  case (reattach_lost s code mc h ca)
  then show ?case by (auto simp: window_ok_def sys_simps)
qed (auto simp: window_ok_def sys_simps)

lemma window_ok_init: "cid \<noteq> '''' \<Longrightarrow> window_ok (attach_init now cmd spec cid)"
  by (simp add: window_ok_def attach_init_sel newRemoteRunningCommand_def resumable_def)

lemma window_ok_steps:
  "(attach_step delay)\<^sup>*\<^sup>* s s' \<Longrightarrow> sys_ok s \<Longrightarrow> lossless_ok s \<Longrightarrow> window_ok s \<Longrightarrow> window_ok s'"
proof (induction rule: rtranclp_induct)
  case (step y z)
  then show ?case using window_ok_step sys_ok_steps lossless_ok_steps by metis
qed simp

text \<open>A ring whose unconfirmed part is smaller than its capacity has room.\<close>

lemma freeSpace_unconfirmed:
  assumes "lossless_streams r log" and "unat (r_released r) \<le> length log"
    and "int (length log) - int (unat (r_released r)) < r_capacity r"
  shows "0 < freeSpace r"
proof -
  have rep: "represents r log" and le: "r_start r \<le> r_released r"
    using assms(1) by (auto simp: lossless_streams_def streams_def)
  note d = representsD [OF rep]
  have len: "int (unat (r_start r)) + int (length (r_buf r)) = int (length log)"
    by (metis d(5) of_nat_add)
  have "evictable r = int (unat (r_released r)) - int (unat (r_start r))"
  proof (cases "r_start r < r_released r")
    case True
    have "unat (r_released r) - unat (r_start r) < 2 ^ 63"
      by (rule represents_diff_small(2) [OF rep assms(2)])
    from evictable_small [OF True this] show ?thesis
      using represents_diff_small(1) [OF rep assms(2)] le by (simp add: word_le_nat_alt min_def of_nat_diff)
  next
    case False
    then show ?thesis
      using le by (simp add: evictable_def)
  qed
  then show ?thesis
    unfolding freeSpace_def using len assms(3) by linarith
qed

subsection \<open>A run\<close>

text \<open>
  A piped command that writes one byte, which reaches the consumer, then exits with status 3. The
  exit status is sent, and either arrives or is lost when the transport breaks after the send.
\<close>

definition demo_cmd :: local_command where
  "demo_cmd = \<lparr>lc_pid = 7, lc_isPty = False, lc_sharedOutput = False, lc_stdin = [], lc_stdinClosed = False,
     lc_kills = [], lc_winsize = None, lc_released = False, lc_outputsClosed = False\<rparr>"

definition demo_spec :: ManagedCommandSpec where
  "demo_spec = \<lparr>spec_display = ''cat'', spec_cwd = '''', spec_pty = False, spec_persistence = persistenceKill,
     spec_stdoutCapacity = 0, spec_stderrCapacity = 0\<rparr>"

definition demo0 :: attach_sys where
  "demo0 = attach_init 0 demo_cmd demo_spec ''c''"

definition demo_ring :: output_ring where
  "demo_ring = (setLossless (newOutputRing defaultOutputRingCapacity))
     \<lparr>r_buf := [7], r_notify := WakeChan 1 Open\<rparr>"

definition demo1 :: attach_sys where
  "demo1 = demo0\<lparr>s_mc := (s_mc demo0)\<lparr>mc_stdoutRing := demo_ring\<rparr>, s_outlog := [7]\<rparr>"

definition demo2 :: attach_sys where
  "demo2 = demo1\<lparr>s_serve := Some \<lparr>sv_handle = 0, sv_out = PumpAt 1, sv_err = PumpAt 0\<rparr>,
                 s_down := [Resp_Stdout [7]]\<rparr>"

definition demo3 :: attach_sys where
  "demo3 = demo2\<lparr>s_down := [], s_outgot := [(0, [7])],
                 s_rc := (newRemoteRunningCommand ''c'' True 0 0)\<lparr>rrc_stdoutOffset := 1\<rparr>\<rparr>"

definition demo4 :: attach_sys where
  "demo4 = demo3\<lparr>s_mc := fst (reapRecord 9 3 None (s_mc demo3)), s_listed := True\<rparr>"

definition demo5 :: attach_sys where
  "demo5 = demo4\<lparr>s_mc := (s_mc demo4)\<lparr>mc_done := True\<rparr>\<rparr>"

definition demo6 :: attach_sys where
  "demo6 = demo5\<lparr>s_serve := Some \<lparr>sv_handle = 0, sv_out = PumpEnded, sv_err = PumpEnded\<rparr>\<rparr>"

definition demo7 :: attach_sys where
  "demo7 = (stop_serving 5 9 (post (Resp_ExitStatus 3) demo6))\<lparr>s_listed := False\<rparr>"

lemmas demo_defs =
  demo0_def demo1_def demo2_def demo3_def demo4_def demo5_def demo6_def demo7_def demo_ring_def demo_cmd_def
  demo_spec_def attach_init_def attach_def newManagedCommand_def newRemoteRunningCommand_def
  setLossless_def newOutputRing_def make_chan_def defaultOutputRingCapacity_def Let_def

lemma demo_step1: "attach_step 5 demo0 demo1"
proof -
  have "losslessPass (mc_stdoutRing (s_mc demo0)) [7] 0 = PassWrote demo_ring 1"
    by (simp add: demo_defs losslessPass_def freeSpace_def evictable_def)
  then have "ring_appends (mc_stdoutRing (s_mc demo0)) [7] demo_ring"
    by (intro ring_appends.lossless [where p = "[7]" and written = 0 and w = 1]) (simp_all add: demo_defs)
  from attach_step.write_out [OF this] show ?thesis
    by (simp add: demo1_def) (simp add: demo0_def attach_init_sel)
qed

lemma demo_step2: "attach_step 5 demo1 demo2"
proof -
  have "pumpStep (ReadAt (mc_stdoutRing (s_mc demo1)) 0) 0 = PumpSend [7] 1"
    by (simp add: demo_defs pumpStep_def ReadAt_def)
  from attach_step.out_send [OF _ _ this, where sv = "\<lparr>sv_handle = 0, sv_out = PumpAt 0, sv_err = PumpAt 0\<rparr>"]
  show ?thesis
    by (simp add: demo_defs post_def)
qed

lemma demo_step3: "attach_step 5 demo2 demo3"
proof -
  have "processResponse None True (s_rc demo2) (Resp_Stdout [7]) =
      ((newRemoteRunningCommand ''c'' True 0 0)\<lparr>rrc_stdoutOffset := 1\<rparr>, ProcContinue None)"
    by (simp add: demo_defs maybeAck_def resumable_def commandAckEveryBytes_def)
  from attach_step.deliver [OF _ _ this, where ms = "[]"] show ?thesis
    by (simp add: demo_defs)
qed

lemma demo_step4: "attach_step 5 demo3 demo4"
proof -
  have "reapRecord 9 3 None (s_mc demo3) = (s_mc demo4, False)"
    by (simp add: demo_defs reapRecord_def)
  from attach_step.exits [OF _ this] show ?thesis
    by (simp add: demo_defs)
qed

lemma demo_step5: "attach_step 5 demo4 demo5"
  unfolding demo5_def by (rule attach_step.finished) (simp add: demo_defs reapRecord_def)

lemma demo_step6: "(attach_step 5)\<^sup>*\<^sup>* demo5 demo6"
proof -
  let ?mid = "demo5\<lparr>s_serve := Some \<lparr>sv_handle = 0, sv_out = PumpEnded, sv_err = PumpAt 0\<rparr>\<rparr>"
  have "pumpStep (ReadAt (mc_stdoutRing (s_mc demo5)) 1) 1 = PumpEOF"
    by (simp add: demo_defs reapRecord_def pumpStep_def ReadAt_def Close_def)
  from attach_step.out_eof [OF _ _ this, where sv = "\<lparr>sv_handle = 0, sv_out = PumpAt 1, sv_err = PumpAt 0\<rparr>"]
  have "attach_step 5 demo5 ?mid"
    by (simp add: demo_defs)
  moreover have "pumpStep (ReadAt (mc_stderrRing (s_mc ?mid)) 0) 0 = PumpEOF"
    by (simp add: demo_defs reapRecord_def pumpStep_def ReadAt_def Close_def)
  from attach_step.err_eof [OF _ _ this, where sv = "\<lparr>sv_handle = 0, sv_out = PumpEnded, sv_err = PumpAt 0\<rparr>"]
  have "attach_step 5 ?mid demo6"
    by (simp add: demo6_def)
  ultimately show ?thesis by simp
qed

lemma demo_step7: "attach_step 5 demo6 demo7"
  unfolding demo7_def
  by (rule attach_step.exit_sent [where sv = "\<lparr>sv_handle = 0, sv_out = PumpEnded, sv_err = PumpEnded\<rparr>"])
     (simp_all add: demo_defs reapRecord_def serveEnd_def)

lemma demo_run: "(attach_step 5)\<^sup>*\<^sup>* demo0 demo3" "(attach_step 5)\<^sup>*\<^sup>* demo0 demo7"
proof -
  show run3: "(attach_step 5)\<^sup>*\<^sup>* demo0 demo3"
    using demo_step1 demo_step2 demo_step3 by (meson rtranclp.rtrancl_into_rtrancl rtranclp.rtrancl_refl)
  then have "(attach_step 5)\<^sup>*\<^sup>* demo0 demo5"
    using demo_step4 demo_step5 by (meson rtranclp.rtrancl_into_rtrancl)
  then show "(attach_step 5)\<^sup>*\<^sup>* demo0 demo7"
    using demo_step6 demo_step7 by (meson rtranclp.rtrancl_into_rtrancl rtranclp_trans)
qed

lemma attach_step_capacity:
  assumes "attach_step delay s s'"
  shows "r_capacity (mc_stdoutRing (s_mc s')) = r_capacity (mc_stdoutRing (s_mc s))
    \<and> r_capacity (mc_stderrRing (s_mc s')) = r_capacity (mc_stderrRing (s_mc s))"
  using assms
  by (induction rule: attach_step.induct)
     (auto simp: sys_simps reapRecord_sel attachManagedCommand_rings ring_appends_released)

lemma attach_steps_capacity:
  assumes "(attach_step delay)\<^sup>*\<^sup>* s s'"
  shows "r_capacity (mc_stdoutRing (s_mc s')) = r_capacity (mc_stdoutRing (s_mc s))"
    and "r_capacity (mc_stderrRing (s_mc s')) = r_capacity (mc_stderrRing (s_mc s))"
  using assms by (induction rule: rtranclp_induct) (auto dest: attach_step_capacity)

lemma flushPending_split:
  assumes "\<forall>i j. i \<le> j \<longrightarrow> sends j \<longrightarrow> sends i" and "flushPending sends i reqs = (out, failed)"
  shows "out @ failed = reqs"
  using assms(2)
proof (induction reqs arbitrary: i out failed)
  case (Cons r reqs)
  obtain out' failed' where f: "flushPending sends (Suc i) reqs = (out', failed')"
    by fastforce
  have "out' = []" if "\<not> sends i"
    using f that
  proof (induction reqs arbitrary: out' failed' i)
    case (Cons q qs)
    have "\<not> sends (Suc i)"
      using assms(1) Cons.prems(2) Suc_n_not_le_n le_SucI by blast
    then show ?case
      using Cons by (auto split: prod.splits if_splits)
  qed simp
  then show ?case
    using Cons.prems Cons.IH [OF f] f by (auto split: if_splits)
qed simp

subsection \<open>Properties\<close>

text \<open>
  C1. Output of a kill-policy command reaches its client without loss, duplication or reordering.
  However the command's writes, the pumps, deliveries, late or lost acknowledgements, transport
  breaks on either side and re-attaches interleave, the bytes handed to the consumer are, on each
  stream, exactly a prefix of the bytes the command wrote, as long as the client's offset says.
\<close>

theorem lossless_delivery:
  assumes "(attach_step delay)\<^sup>*\<^sup>* (attach_init now cmd spec cid) s"
    and "capacities_ok spec" and "spec_persistence spec = persistenceKill"
  shows "concat (map snd (s_outgot s)) = take (unat (rrc_stdoutOffset (s_rc s))) (s_outlog s)
    \<and> concat (map snd (s_errgot s)) = take (unat (rrc_stderrOffset (s_rc s))) (s_errlog s)
    \<and> unat (rrc_stdoutOffset (s_rc s)) \<le> length (s_outlog s)
    \<and> unat (rrc_stderrOffset (s_rc s)) \<le> length (s_errlog s)"
proof -
  have "sys_ok s" "lossless_ok s"
    using sys_ok_steps [OF assms(1)] lossless_ok_steps [OF assms(1)] sys_ok_init [OF assms(2)]
      lossless_ok_init [OF assms(2,3)] by auto
  then show ?thesis
    by (simp add: sys_ok_def out_ok_def err_ok_def half_ok_def lossless_ok_def lossless_half_def)
qed

theorem lossless_delivery_witness:
  "\<exists>s. (attach_step 5)\<^sup>*\<^sup>* (attach_init 0 demo_cmd demo_spec ''c'') s \<and> s_outgot s = [(0, [7])]
     \<and> concat (map snd (s_outgot s)) = take (unat (rrc_stdoutOffset (s_rc s))) (s_outlog s)"
proof -
  have "(attach_step 5)\<^sup>*\<^sup>* (attach_init 0 demo_cmd demo_spec ''c'') demo3"
    using demo_run(1) by (simp add: demo0_def)
  moreover from lossless_delivery [OF this]
  have "concat (map snd (s_outgot demo3)) = take (unat (rrc_stdoutOffset (s_rc demo3))) (s_outlog demo3)"
    by (simp add: capacities_ok_def demo_spec_def)
  ultimately show ?thesis
    by (intro exI [of _ demo3]) (simp add: demo3_def)
qed



text \<open>
  With either policy, every chunk handed to the consumer is the slice of the command's log at the
  offset the client had counted to, chunks never overlap or go backwards, and all lie below the
  client's offset: output evicted from the ring shows only as a gap between chunks.
\<close>

theorem delivered_chunks_are_slices:
  assumes "(attach_step delay)\<^sup>*\<^sup>* (attach_init now cmd spec cid) s" and "capacities_ok spec"
  shows "chunks_ok (s_outlog s) 0 (s_outgot s) (unat (rrc_stdoutOffset (s_rc s)))
    \<and> chunks_ok (s_errlog s) 0 (s_errgot s) (unat (rrc_stderrOffset (s_rc s)))"
proof -
  have "sys_ok s"
    using sys_ok_steps [OF assms(1)] sys_ok_init [OF assms(2)] by simp
  then show ?thesis
    by (simp add: sys_ok_def out_ok_def err_ok_def half_ok_def)
qed

text \<open>
  C20. Acknowledgements never stall a kill-policy command. In any reachable state in which the client is
  connected and has consumed all the output, and its acknowledgements have arrived, both rings of
  the default capacity have room, so a writer is not blocked: the acknowledgement threshold is small
  enough for the ring.
\<close>

theorem acknowledgements_do_not_stall:
  assumes "(attach_step delay)\<^sup>*\<^sup>* (attach_init now cmd spec cid) s" and "cid \<noteq> ''''"
    and "spec_persistence spec = persistenceKill"
    and "spec_stdoutCapacity spec = 0" and "spec_stderrCapacity spec = 0"
    and "s_conn s"
    and "unat (rrc_stdoutOffset (s_rc s)) = length (s_outlog s)"
    and "unat (rrc_stderrOffset (s_rc s)) = length (s_errlog s)"
    and "\<forall>(a, b) \<in> set (s_acks s). a \<le> r_released (mc_stdoutRing (s_mc s)) \<and> b \<le> r_released (mc_stderrRing (s_mc s))"
  shows "0 < freeSpace (mc_stdoutRing (s_mc s)) \<and> 0 < freeSpace (mc_stderrRing (s_mc s))"
proof -
  have cap: "capacities_ok spec"
    using assms(4,5) by (simp add: capacities_ok_def)
  note init = sys_ok_init [OF cap] lossless_ok_init [OF cap assms(3)] window_ok_init [OF assms(2)]
  have l: "lossless_ok s" and w: "window_ok s"
    using lossless_ok_steps [OF assms(1)] window_ok_steps [OF assms(1)] init by auto
  have c: "r_capacity (mc_stdoutRing (s_mc s)) = defaultOutputRingCapacity"
    "r_capacity (mc_stderrRing (s_mc s)) = defaultOutputRingCapacity"
    using attach_steps_capacity [OF assms(1)] assms(4,5)
    by (simp_all add: attach_init_sel newManagedCommand_def Let_def setLossless_def newOutputRing_def)
  obtain a b where ab: "(a, b) \<in> set (s_acks s)"
    "length (s_outlog s) + length (s_errlog s) < unat a + unat b + 131072"
    using w assms(6-8) by (auto simp: window_ok_def)
  have rel: "unat a \<le> unat (r_released (mc_stdoutRing (s_mc s)))" "unat b \<le> unat (r_released (mc_stderrRing (s_mc s)))"
    using ab(1) assms(9) by (auto simp: word_le_nat_alt)
  have up: "unat (r_released (mc_stdoutRing (s_mc s))) \<le> length (s_outlog s)"
    "unat (r_released (mc_stderrRing (s_mc s))) \<le> length (s_errlog s)"
    using l assms(7,8) by (auto simp: lossless_ok_def lossless_half_def word_le_nat_alt)
  have d: "length (s_outlog s) - unat (r_released (mc_stdoutRing (s_mc s))) < 131072"
    "length (s_errlog s) - unat (r_released (mc_stderrRing (s_mc s))) < 131072"
    using rel up ab(2) by linarith+
  have "int n - int m < defaultOutputRingCapacity" if "n - m < 131072" for n m :: nat
    using that by (simp add: defaultOutputRingCapacity_def)
  note small = this [OF d(1)] this [OF d(2)]
  have ls: "lossless_streams (mc_stdoutRing (s_mc s)) (s_outlog s)" "lossless_streams (mc_stderrRing (s_mc s)) (s_errlog s)"
    using l by (auto simp: lossless_ok_def lossless_half_def)
  show ?thesis
    using freeSpace_unconfirmed [OF ls(1) up(1)] freeSpace_unconfirmed [OF ls(2) up(2)] small
    unfolding c by blast
qed

theorem acknowledgements_do_not_stall_witness:
  "0 < freeSpace (mc_stdoutRing (s_mc demo3)) \<and> s_outlog demo3 = [7] \<and> s_conn demo3"
proof -
  have "(attach_step 5)\<^sup>*\<^sup>* (attach_init 0 demo_cmd demo_spec ''c'') demo3"
    using demo_run(1) by (simp add: demo0_def)
  from acknowledgements_do_not_stall [OF this] show ?thesis
    by (simp add: demo_defs)
qed

text \<open>
  A successful send of the exit status does not deliver it, yet the daemon forgets the command
  then. There is a run of a command that writes a byte and exits with status 3 in which the send
  succeeds, the transport breaks before the client has received it, and the client, finding the
  command gone, reports an error instead of the exit status.
\<close>

theorem exit_status_can_be_lost:
  "\<exists>s. (attach_step 5)\<^sup>*\<^sup>* (attach_init 0 demo_cmd demo_spec ''c'') s
     \<and> mc_exited (s_mc s) \<and> mc_exitStatus (s_mc s) = 3 \<and> mc_exitErr (s_mc s) = None
     \<and> s_done s = Some (DoneErr ''no such command'')"
proof -
  let ?s = "(break_client demo7)\<lparr>s_done := Some (DoneErr ''no such command'')\<rparr>"
  have "s_done demo7 = None" "\<not> s_listed demo7"
    by (simp_all add: demo7_def sys_simps demo6_def demo5_def demo4_def demo3_def demo2_def demo1_def
        demo0_def attach_init_sel)
  then have "attach_step 5 (break_client demo7) ?s"
    by (intro attach_step.gives_up) (simp_all add: break_client_def)
  then have "(attach_step 5)\<^sup>*\<^sup>* demo7 ?s"
    using attach_step.client_breaks [of 5 demo7] by simp
  then have "(attach_step 5)\<^sup>*\<^sup>* (attach_init 0 demo_cmd demo_spec ''c'') ?s"
    using demo_run(2) rtranclp_trans by (simp add: demo0_def)
  moreover have "mc_exited (s_mc ?s) \<and> mc_exitStatus (s_mc ?s) = 3 \<and> mc_exitErr (s_mc ?s) = None"
    by (simp add: break_client_def demo_defs stop_serving_def post_def reapRecord_def ClientGone_def)
  ultimately show ?thesis by auto
qed

text \<open>
  Out-of-band messages that could not be sent survive re-attaching in order. When a fresh stream
  is installed, the queued messages are sent on it until a send fails, after which every send on
  that stream fails; the ones not sent are exactly the rest, still queued in their order, and the
  last window size is sent ahead of them.
\<close>

theorem queued_messages_survive_reattach:
  assumes "\<forall>i j. i \<le> j \<longrightarrow> sends j \<longrightarrow> sends i"
    and "setClient sends rc = (rc', sent, half_close)"
  shows "\<exists>out. sent = (if 0 < rrc_lastWinH rc \<and> 0 < rrc_lastWinW rc \<and> sends 0
                   then [Req_WindowChange (rrc_lastWinH rc) (rrc_lastWinW rc)] else []) @ out
    \<and> out @ rrc_pending rc' = rrc_pending rc
    \<and> half_close = rrc_stdinDone rc \<and> rrc_client rc' = Suc (rrc_client rc)"
proof -
  let ?i = "if 0 < rrc_lastWinH rc \<and> 0 < rrc_lastWinW rc then 1 else 0 :: nat"
  obtain out failed where f: "flushPending sends ?i (rrc_pending rc) = (out, failed)"
    by fastforce
  have "out @ failed = rrc_pending rc"
    by (rule flushPending_split [OF assms(1) f])
  then show ?thesis
    using assms(2) f by (intro exI [of _ out]) (auto simp: setClient_def Let_def)
qed



text \<open>
  The end of a client's input is applied without the check that its attachment is still current: a
  client that has been taken over can still close the standard input of a kill-policy command.
\<close>

lemma stale_half_close_closes_stdin:
  assumes "\<not> currentIs mc h" and "mc_persistence mc = persistenceKill" and "\<not> lc_isPty (mc_cmd mc)"
  shows "lc_stdinClosed (mc_cmd (fst (forwardManagedCommandInput kill_ok mc h RecvEOF)))"
  using assms by (simp add: forwardManagedCommandInput_def CloseStdinFromClient_def closeStdin_def)

end
