(* ===== verification/Identity.thy ===== *)
theory Identity
  imports PathUtil
begin

text \<open>
  The persistent identity of a local daemon (\<^verbatim>\<open>pkg/identity.go\<close>), which names its directories on the
  hosts it connects to. Random numbers and the results of file operations are arguments.
\<close>

definition identityAdjectives :: "string list" where
  "identityAdjectives =
     [''amber'', ''azure'', ''bold'', ''brave'', ''bright'', ''calm'', ''clear'', ''cool'', ''crisp'', ''deft'',
      ''eager'', ''fair'', ''fast'', ''firm'', ''fond'', ''glad'', ''gold'', ''grand'', ''green'', ''keen'',
      ''kind'', ''lean'', ''live'', ''neat'', ''next'', ''open'', ''pale'', ''pure'', ''rare'', ''real'',
      ''rich'', ''ruby'', ''safe'', ''sage'', ''slim'', ''soft'', ''sure'', ''tall'', ''tame'', ''tidy'',
      ''trim'', ''true'', ''vast'', ''warm'', ''wide'', ''wild'', ''wise'', ''wry'', ''young'', ''zest'']"

definition identityNouns :: "string list" where
  "identityNouns =
     [''acorn'', ''arrow'', ''aspen'', ''badge'', ''basin'', ''beach'', ''birch'', ''blade'', ''blaze'', ''bloom'',
      ''bower'', ''brace'', ''brand'', ''brave'', ''break'', ''brick'', ''brook'', ''brush'', ''cairn'', ''cedar'',
      ''chalk'', ''chase'', ''chest'', ''cliff'', ''cloud'', ''coast'', ''coral'', ''crane'', ''creek'', ''crest'',
      ''crown'', ''curve'', ''delta'', ''drift'', ''dunes'', ''eagle'', ''ember'', ''fable'', ''fawn'', ''field'',
      ''finch'', ''flame'', ''fleet'', ''forge'', ''frost'', ''glade'', ''gleam'', ''grove'', ''guard'', ''haven'',
      ''hawk'', ''heart'', ''hedge'', ''heron'', ''holly'', ''ivory'', ''jewel'', ''knoll'', ''larch'', ''latch'',
      ''ledge'', ''lotus'', ''maple'', ''marsh'', ''mason'', ''mirth'', ''moose'', ''north'', ''oasis'', ''olive'',
      ''orbit'', ''otter'', ''pearl'', ''perch'', ''pilot'', ''plume'', ''point'', ''polar'', ''prism'', ''quail'',
      ''raven'', ''ridge'', ''river'', ''robin'', ''rover'', ''scout'', ''shade'', ''shelf'', ''shore'', ''slate'',
      ''spark'', ''spire'', ''spoke'', ''stone'', ''storm'', ''swift'', ''thorn'', ''torch'', ''trail'', ''falcon'']"

definition identityVerbs :: "string list" where
  "identityVerbs =
     [''bind'', ''bolt'', ''burn'', ''call'', ''carve'', ''cast'', ''claim'', ''clash'', ''climb'', ''cling'',
      ''coil'', ''cross'', ''crush'', ''curve'', ''dare'', ''dash'', ''delve'', ''dip'', ''dive'', ''draft'',
      ''drain'', ''draw'', ''drift'', ''drive'', ''dwell'', ''fade'', ''fling'', ''float'', ''forge'', ''fuse'',
      ''glide'', ''glow'', ''grasp'', ''grind'', ''guard'', ''guide'', ''hatch'', ''haul'', ''hoist'', ''hover'',
      ''kneel'', ''knock'', ''latch'', ''launch'', ''leap'', ''lend'', ''lift'', ''loom'', ''march'', ''mend'',
      ''merge'', ''mold'', ''nudge'', ''pace'', ''parse'', ''patch'', ''pave'', ''perch'', ''pluck'', ''plumb'',
      ''probe'', ''pull'', ''push'', ''rally'', ''reach'', ''reap'', ''renew'', ''ride'', ''rinse'', ''roam'',
      ''scale'', ''scour'', ''sculpt'', ''seek'', ''seize'', ''shift'', ''shine'', ''shove'', ''sift'', ''sink'',
      ''skate'', ''slash'', ''slide'', ''soar'', ''span'', ''spark'', ''split'', ''steer'', ''stoke'', ''sweep'',
      ''swell'', ''trace'', ''trek'', ''vault'', ''wade'', ''weave'', ''weld'', ''whirl'', ''yield'', ''zoom'']"

text \<open>The three draws of \<^verbatim>\<open>cryptoRandInt\<close> are indices below the lengths of the lists.\<close>

definition generateDaemonIdentity :: "nat \<Rightarrow> nat \<Rightarrow> nat \<Rightarrow> string" where
  "generateDaemonIdentity a n v =
     identityAdjectives ! a @ ''-'' @ identityNouns ! n @ ''-'' @ identityVerbs ! v"

datatype read_result = ReadData string | ReadNotExist | ReadFailed

datatype identity_error =
    IdentityReadError | IdentityMkdirError | IdentityWriteError | IdentityNoHome | IdentityUnknownRole

text \<open>The result, and the bytes written to the file if any.\<close>

definition daemonIdentityFromPath ::
    "read_result \<Rightarrow> bool \<Rightarrow> bool \<Rightarrow> nat \<Rightarrow> nat \<Rightarrow> nat \<Rightarrow> (identity_error + string) \<times> string option" where
  "daemonIdentityFromPath data mkdirOk writeOk a n v =
     (let fresh =
        (let identity = generateDaemonIdentity a n v in
         if \<not> mkdirOk then (Inl IdentityMkdirError, None)
         else if \<not> writeOk then (Inl IdentityWriteError, None)
         else (Inr identity, Some identity)) in
      case data of
        ReadData d \<Rightarrow> if TrimSpace d \<noteq> '''' then (Inr (TrimSpace d), None) else fresh
      | ReadNotExist \<Rightarrow> fresh
      | ReadFailed \<Rightarrow> (Inl IdentityReadError, None))"

text \<open>\<^verbatim>\<open>DaemonIdentity\<close> over a file system that maps paths to the result of reading them.\<close>

definition DaemonIdentity ::
    "environment \<Rightarrow> string option \<Rightarrow> (string \<Rightarrow> read_result) \<Rightarrow> bool \<Rightarrow> bool \<Rightarrow> nat \<Rightarrow> nat \<Rightarrow> nat
     \<Rightarrow> (identity_error + string) \<times> (string \<Rightarrow> read_result)" where
  "DaemonIdentity env userHome fs mkdirOk writeOk a n v =
     (case userHome of
        None \<Rightarrow> (Inl IdentityNoHome, fs)
      | Some homeDir \<Rightarrow>
          (case roleSubdir ServerRoleLocal of
             None \<Rightarrow> (Inl IdentityUnknownRole, fs)
           | Some roleDir \<Rightarrow>
               let path = PathJoin [graftStateHome env homeDir, roleDir, ''identity''] in
               (case daemonIdentityFromPath (fs path) mkdirOk writeOk a n v of
                  (r, None) \<Rightarrow> (r, fs)
                | (r, Some content) \<Rightarrow> (r, fs(path := ReadData content)))))"

subsection \<open>Generated identities\<close>

definition plain_word :: "string \<Rightarrow> bool" where
  "plain_word w \<longleftrightarrow> w \<noteq> '''' \<and> list_all (\<lambda>c. 97 \<le> (of_char c :: nat) \<and> of_char c \<le> (122 :: nat)) w"

lemma words_plain:
  "list_all plain_word identityAdjectives" "list_all plain_word identityNouns" "list_all plain_word identityVerbs"
  by code_simp+

lemma word_counts: "length identityAdjectives = 50" "length identityNouns = 100" "length identityVerbs = 100"
  by (simp_all add: identityAdjectives_def identityNouns_def identityVerbs_def)

lemma plain_word_chars:
  assumes "plain_word w" and "c \<in> set w"
  shows "c \<noteq> slash \<and> c \<noteq> CHR ''.'' \<and> c \<noteq> CHR ''-'' \<and> \<not> IsSpace c"
  using assms by (auto simp: plain_word_def list_all_iff IsSpace_def)

lemma TrimSpace_id:
  assumes "\<forall>c \<in> set s. \<not> IsSpace c"
  shows "TrimSpace s = s"
proof -
  have "dropWhile IsSpace t = t" if "\<forall>c \<in> set t. \<not> IsSpace c" for t
    using that by (cases t) simp_all
  from this [of s] this [of "rev s"] show ?thesis
    using assms unfolding TrimSpace_def by (metis rev_rev_ident set_rev)
qed

lemma generated_words:
  assumes "a < 50" and "n < 100" and "v < 100"
  obtains x y z where "generateDaemonIdentity a n v = x @ ''-'' @ y @ ''-'' @ z"
    and "plain_word x" and "plain_word y" and "plain_word z"
  using assms words_plain word_counts by (auto simp: generateDaemonIdentity_def list_all_length)

lemma generated_identity:
  assumes "a < 50" and "n < 100" and "v < 100"
  shows "simple_name (generateDaemonIdentity a n v)"
    and "TrimSpace (generateDaemonIdentity a n v) = generateDaemonIdentity a n v"
    and "generateDaemonIdentity a n v \<noteq> ''sync''"
proof -
  obtain x y z where g: "generateDaemonIdentity a n v = x @ ''-'' @ y @ ''-'' @ z"
      "plain_word x" "plain_word y" "plain_word z"
    by (rule generated_words [OF assms])
  have chars: "c \<noteq> slash \<and> \<not> IsSpace c" if "c \<in> set (generateDaemonIdentity a n v)" for c
    using that g plain_word_chars by (auto simp: IsSpace_def)
  have dash: "CHR ''-'' \<in> set (generateDaemonIdentity a n v)"
    by (simp add: g(1))
  show "simple_name (generateDaemonIdentity a n v)"
    using chars dash by (auto simp: simple_name_def)
  show "TrimSpace (generateDaemonIdentity a n v) = generateDaemonIdentity a n v"
    using chars by (intro TrimSpace_id) blast
  show "generateDaemonIdentity a n v \<noteq> ''sync''"
    using dash by auto
qed

text \<open>
  C31. The identity is drawn once and then kept: when the first call succeeds, every later call returns
  the same identity, whatever it draws and whether or not it could write; and an identity that was
  drawn is a single path component, so that the directories of different daemons are isolated.
\<close>

theorem identity_is_persistent:
  assumes "DaemonIdentity env userHome fs mkdirOk writeOk a n v = (Inr identity, fs')"
    and "a < length identityAdjectives" and "n < length identityNouns" and "v < length identityVerbs"
  shows "DaemonIdentity env userHome fs' mkdirOk' writeOk' a' n' v' = (Inr identity, fs')
    \<and> identity \<noteq> ''''
    \<and> (fs' \<noteq> fs \<longrightarrow> valid_identity identity \<and> identity \<noteq> ''sync'')"
proof -
  note gen = generated_identity [OF assms(2-4) [unfolded word_counts]]
  have ne: "generateDaemonIdentity a n v \<noteq> ''''"
    using gen(1) by (simp add: simple_name_def)
  obtain homeDir where h: "userHome = Some homeDir"
    using assms(1) by (cases userHome) (auto simp: DaemonIdentity_def)
  let ?path = "PathJoin [graftStateHome env homeDir, ''local'', ''identity'']"
  show ?thesis
  proof (cases "\<exists>d. fs ?path = ReadData d \<and> TrimSpace d \<noteq> ''''")
    case True
    then show ?thesis
      using assms(1) h by (auto simp: DaemonIdentity_def daemonIdentityFromPath_def roleSubdir_def)
  next
    case False
    then have "identity = generateDaemonIdentity a n v \<and> fs' = fs(?path := ReadData identity)"
      using assms(1) h
      by (auto simp: DaemonIdentity_def daemonIdentityFromPath_def roleSubdir_def Let_def
          split: read_result.splits if_splits)
    then show ?thesis
      using h gen ne
      by (simp add: DaemonIdentity_def daemonIdentityFromPath_def roleSubdir_def Let_def valid_identity_def)
  qed
qed

theorem identity_is_persistent_witness:
  "\<exists>fs. DaemonIdentity (\<lambda>_. '''') (Some ''/root'') fs False False 1 1 1 = (Inr ''amber-acorn-bind'', fs)"
proof -
  have "DaemonIdentity (\<lambda>_. '''') (Some ''/root'') (\<lambda>_. ReadNotExist) True True 0 0 0 =
      (Inr ''amber-acorn-bind'',
       (\<lambda>_. ReadNotExist)(PathJoin [graftStateHome (\<lambda>_. '''') ''/root'', ''local'', ''identity''] :=
          ReadData ''amber-acorn-bind''))"
    by (simp add: DaemonIdentity_def daemonIdentityFromPath_def roleSubdir_def generateDaemonIdentity_def
        identityAdjectives_def identityNouns_def identityVerbs_def Let_def)
  from identity_is_persistent [OF this] show ?thesis
    unfolding word_counts by (metis zero_less_numeral)
qed

end
