(* ===== verification/Connection.thy ===== *)
theory Connection
  imports PathUtil "HOL-Library.AList"
begin

text \<open>
  A connection (\<^verbatim>\<open>pkg/connection.go\<close>, \<^verbatim>\<open>pkg/connection_state.go\<close>): its name, roots, forwarding lists and active
  synchronisations. A connection points to the daemon it shares with others by the daemon's number.
  Go maps are association lists with distinct keys, whose order is the order of some iteration.
\<close>

subsection \<open>States\<close>

datatype ConnectionState =
    ConnectionStateNew | ConnectionStateInitializing | ConnectionStateConnected
  | ConnectionStateFailed | ConnectionStateClosed | ConnectionStateReconnecting

fun ConnectionState_String :: "ConnectionState \<Rightarrow> string" where
  "ConnectionState_String ConnectionStateNew = ''New''"
| "ConnectionState_String ConnectionStateInitializing = ''Initializing''"
| "ConnectionState_String ConnectionStateConnected = ''Connected''"
| "ConnectionState_String ConnectionStateFailed = ''Failed''"
| "ConnectionState_String ConnectionStateClosed = ''Closed''"
| "ConnectionState_String ConnectionStateReconnecting = ''Reconnecting''"

datatype ConnectionStateProto =
    CONNECTION_STATE_UNKNOWN | CONNECTION_STATE_INITIALIZING | CONNECTION_STATE_CONNECTED
  | CONNECTION_STATE_FAILED | CONNECTION_STATE_CLOSED | CONNECTION_STATE_RECONNECTING

fun ConnectionState_Proto :: "ConnectionState \<Rightarrow> ConnectionStateProto" where
  "ConnectionState_Proto ConnectionStateNew = CONNECTION_STATE_INITIALIZING"
| "ConnectionState_Proto ConnectionStateInitializing = CONNECTION_STATE_INITIALIZING"
| "ConnectionState_Proto ConnectionStateConnected = CONNECTION_STATE_CONNECTED"
| "ConnectionState_Proto ConnectionStateFailed = CONNECTION_STATE_FAILED"
| "ConnectionState_Proto ConnectionStateClosed = CONNECTION_STATE_CLOSED"
| "ConnectionState_Proto ConnectionStateReconnecting = CONNECTION_STATE_RECONNECTING"

subsection \<open>Data\<close>

record ForwardCommandIntent =
  fi_Name :: string
  fi_Prefix :: bool
  fi_Global :: bool

definition LocalName :: "ForwardCommandIntent \<Rightarrow> string \<Rightarrow> string" where
  "LocalName i connName = (if fi_Prefix i then connName @ ''-'' @ fi_Name i else fi_Name i)"

record SynchronizationIntent =
  si_FromLocal :: string
  si_ToRemote :: string
  si_SyncGit :: bool
  si_SyncInclude :: "string list"
  si_DefaultFileMode :: string
  si_DefaultDirectoryMode :: string

text \<open>
  A pause function closes over a session identifier; the function returned when a replica is skipped
  does nothing.
\<close>

datatype pause_func = PauseSession string | PauseNothing

record activeSync =
  as_destination :: string
  as_closeFunc :: "pause_func option"
  as_syncGit :: bool
  as_gitCloseFunc :: "pause_func option"
  as_defaultFileMode :: string
  as_defaultDirectoryMode :: string
  as_syncInclude :: "string list"

definition inheritModesInto :: "activeSync \<Rightarrow> SynchronizationIntent \<Rightarrow> SynchronizationIntent" where
  "inheritModesInto s intent =
     (let i1 = (if si_DefaultFileMode intent = ''''
                then intent\<lparr>si_DefaultFileMode := as_defaultFileMode s\<rparr> else intent) in
      if si_DefaultDirectoryMode i1 = ''''
      then i1\<lparr>si_DefaultDirectoryMode := as_defaultDirectoryMode s\<rparr> else i1)"

record Connection =
  cn_daemon :: nat
  cn_name :: string
  cn_localRoot :: string
  cn_remoteRoot :: string
  cn_background :: bool
  cn_closed :: bool
  cn_fwdList :: "ForwardCommandIntent list"
  cn_envFwdList :: "string list"
  cn_synchronizations :: "(string \<times> activeSync) list"

definition newConnection :: "nat \<Rightarrow> string \<Rightarrow> string \<Rightarrow> string \<Rightarrow> bool \<Rightarrow> Connection" where
  "newConnection daemon name localRoot remoteRoot background =
     \<lparr>cn_daemon = daemon, cn_name = name, cn_localRoot = localRoot, cn_remoteRoot = remoteRoot,
      cn_background = background, cn_closed = False, cn_fwdList = [], cn_envFwdList = [],
      cn_synchronizations = []\<rparr>"

subsection \<open>Operations\<close>

definition cn_UpdateForwardCommands :: "Connection \<Rightarrow> ForwardCommandIntent list \<Rightarrow> Connection" where
  "cn_UpdateForwardCommands conn commands = conn\<lparr>cn_fwdList := cn_fwdList conn @ commands\<rparr>"

definition cn_RemoveForwardCommands :: "Connection \<Rightarrow> string list \<Rightarrow> Connection" where
  "cn_RemoveForwardCommands conn commands =
     conn\<lparr>cn_fwdList := filter (\<lambda>i. fi_Name i \<notin> set commands) (cn_fwdList conn)\<rparr>"

definition cn_UpdateEnvForward :: "Connection \<Rightarrow> string list \<Rightarrow> Connection" where
  "cn_UpdateEnvForward conn names = conn\<lparr>cn_envFwdList := cn_envFwdList conn @ names\<rparr>"

definition cn_RemoveEnvForward :: "Connection \<Rightarrow> string list \<Rightarrow> Connection" where
  "cn_RemoveEnvForward conn names =
     conn\<lparr>cn_envFwdList := filter (\<lambda>n. n \<notin> set names) (cn_envFwdList conn)\<rparr>"

datatype roots_error = RootsInUseBySync

definition SetRoots :: "Connection \<Rightarrow> string \<Rightarrow> string \<Rightarrow> roots_error + Connection" where
  "SetRoots conn localRoot remoteRoot =
     (if length (cn_synchronizations conn) > 0 then Inl RootsInUseBySync
      else
        let c1 = (if localRoot \<noteq> '''' then conn\<lparr>cn_localRoot := localRoot\<rparr> else conn) in
        Inr (if remoteRoot \<noteq> '''' then c1\<lparr>cn_remoteRoot := remoteRoot\<rparr> else c1))"

definition updateDaemon :: "Connection \<Rightarrow> nat \<Rightarrow> Connection" where
  "updateDaemon conn d = conn\<lparr>cn_daemon := d\<rparr>"

definition cn_State :: "(nat \<Rightarrow> ConnectionState \<times> string) \<Rightarrow> Connection \<Rightarrow> ConnectionState \<times> string" where
  "cn_State daemonState conn =
     (if cn_closed conn then (ConnectionStateClosed, '''') else daemonState (cn_daemon conn))"

definition Synchronizations :: "Connection \<Rightarrow> SynchronizationIntent list" where
  "Synchronizations conn =
     map (\<lambda>(f, s). \<lparr>si_FromLocal = f, si_ToRemote = as_destination s, si_SyncGit = as_syncGit s,
                     si_SyncInclude = as_syncInclude s, si_DefaultFileMode = as_defaultFileMode s,
                     si_DefaultDirectoryMode = as_defaultDirectoryMode s\<rparr>)
       (cn_synchronizations conn)"

fun matchSyncs :: "string \<Rightarrow> (string \<times> activeSync) list \<Rightarrow> string option" where
  "matchSyncs dir [] = None"
| "matchSyncs dir ((candFrom, s) # ss) =
     (case hasPathPrefix dir candFrom of
        Some after \<Rightarrow> Some (PathJoin [as_destination s, after])
      | None \<Rightarrow> matchSyncs dir ss)"

definition MatchCWD :: "Connection \<Rightarrow> string \<Rightarrow> string option" where
  "MatchCWD conn dir =
     (case (if cn_localRoot conn \<noteq> '''' \<and> cn_remoteRoot conn \<noteq> ''''
            then hasPathPrefix dir (cn_localRoot conn) else None) of
        Some after \<Rightarrow> Some (PathJoin [cn_remoteRoot conn, after])
      | None \<Rightarrow> matchSyncs dir (cn_synchronizations conn))"

text \<open>\<^verbatim>\<open>Close\<close> returns the connection and the pause functions it runs.\<close>

definition cn_Close :: "Connection \<Rightarrow> Connection \<times> pause_func list" where
  "cn_Close conn =
     (conn\<lparr>cn_synchronizations := [], cn_closed := True\<rparr>,
      concat (map (\<lambda>(_, s). (case as_closeFunc s of None \<Rightarrow> [] | Some f \<Rightarrow> [f])
                            @ (case as_gitCloseFunc s of None \<Rightarrow> [] | Some f \<Rightarrow> [f]))
                (cn_synchronizations conn)))"

definition cn_AvailableCommands :: "string list \<Rightarrow> (string \<Rightarrow> string list) \<Rightarrow> Connection \<Rightarrow> string list" where
  "cn_AvailableCommands allDirs byDir conn = remdups (byDir (cn_remoteRoot conn) @ allDirs)"

subsection \<open>Lemmas\<close>

lemma newConnection_simps [simp]:
  "cn_daemon (newConnection d n l r b) = d" "cn_name (newConnection d n l r b) = n"
  "cn_localRoot (newConnection d n l r b) = l" "cn_remoteRoot (newConnection d n l r b) = r"
  "cn_background (newConnection d n l r b) = b" "cn_closed (newConnection d n l r b) = False"
  "cn_synchronizations (newConnection d n l r b) = []"
  by (simp_all add: newConnection_def)

lemma updateDaemon_simps [simp]:
  "cn_daemon (updateDaemon c d) = d" "cn_name (updateDaemon c d) = cn_name c"
  "cn_localRoot (updateDaemon c d) = cn_localRoot c" "cn_background (updateDaemon c d) = cn_background c"
  by (simp_all add: updateDaemon_def)

text \<open>
  When no two synchronised directories contain one another, at most one of them contains a given
  directory, so that the order of the map does not matter.
\<close>

definition separated :: "string set \<Rightarrow> bool" where
  "separated dirs \<longleftrightarrow> (\<forall>a \<in> dirs. \<forall>b \<in> dirs. a \<noteq> b \<longrightarrow> \<not> under a b)"

lemma separated_unique:
  assumes "separated dirs" and "a \<in> dirs" and "b \<in> dirs" and "under p a" and "under p b"
  shows "a = b"
  using assms dirs.container_unique [of dirs "\<lambda>d. d" a b p] by (auto simp: separated_def)

lemma matchSyncs_Some:
  "matchSyncs dir ss = Some r \<Longrightarrow>
     \<exists>f s after. (f, s) \<in> set ss \<and> hasPathPrefix dir f = Some after \<and> r = PathJoin [as_destination s, after]"
  by (induction dir ss rule: matchSyncs.induct) (auto split: option.splits)

lemma matchSyncs_None: "matchSyncs dir ss = None \<longleftrightarrow> (\<forall>f \<in> fst ` set ss. \<not> under dir f)"
  by (induction dir ss rule: matchSyncs.induct) (auto simp: under_def split: option.splits)

lemma matchSyncs_order:
  assumes "separated (fst ` set ss)" and "distinct (map fst ss)" and "set ss = set ts"
  shows "matchSyncs dir ss = matchSyncs dir ts"
proof (cases "matchSyncs dir ss")
  case None
  then show ?thesis
    using assms(3) matchSyncs_None by (metis (no_types, lifting))
next
  case (Some r)
  then obtain f s after where 1: "(f, s) \<in> set ss" "hasPathPrefix dir f = Some after" "r = PathJoin [as_destination s, after]"
    using matchSyncs_Some by blast
  have "matchSyncs dir ts \<noteq> None"
    using Some assms(3) matchSyncs_None [of dir ss] matchSyncs_None [of dir ts] by auto
  then obtain r' where r': "matchSyncs dir ts = Some r'" by blast
  then obtain g t after' where 2: "(g, t) \<in> set ts" "hasPathPrefix dir g = Some after'" "r' = PathJoin [as_destination t, after']"
    using matchSyncs_Some by blast
  have "f = g"
    using 1 2 assms(3) by (intro separated_unique [OF assms(1), of f g dir]) (force simp: under_def)+
  moreover have "s = t"
    using calculation 1(1) 2(1) assms(2,3) eq_key_imp_eq_value by metis
  ultimately show ?thesis
    using Some r' 1 2 by simp
qed

end
