(* ===== verification/Version.thy ===== *)
theory Version
  imports GoStrings
begin

text \<open>
  Build versions (\<^verbatim>\<open>pkg/version.go\<close>): what a binary reports, how it is printed, and the comparison that
  decides whether a remote daemon must be replaced. Go's build information is an argument.
\<close>

subsection \<open>Definitions\<close>

record BuildInfo =
  bi_version :: string
  bi_settings :: "(string \<times> string) list"

record VersionInfo =
  vi_Version :: "string option"
  vi_VcsRevision :: "string option"
  vi_VcsTime :: "string option"
  vi_VcsModified :: "bool option"
  vi_Notes :: "string option"

definition goDevelVersionString :: string where
  "goDevelVersionString = ''(devel)''"

definition VersionIsInSourceTree :: "BuildInfo option \<Rightarrow> bool" where
  "VersionIsInSourceTree info = (case info of None \<Rightarrow> False | Some i \<Rightarrow> bi_version i = goDevelVersionString)"

definition BuildVersion :: "string \<Rightarrow> BuildInfo option \<Rightarrow> VersionInfo" where
  "BuildVersion buildVersion info =
     (case info of
        None \<Rightarrow>
          \<lparr>vi_Version = None, vi_VcsRevision = None, vi_VcsTime = None, vi_VcsModified = None,
           vi_Notes = Some ''unable to determine version info''\<rparr>
      | Some i \<Rightarrow>
          \<lparr>vi_Version =
             (if buildVersion \<noteq> '''' then Some buildVersion
              else if bi_version i \<noteq> '''' then Some (bi_version i) else None),
           vi_VcsRevision = map_of (bi_settings i) ''vcs.revision'',
           vi_VcsTime = map_of (bi_settings i) ''vcs.time'',
           vi_VcsModified = map_option (\<lambda>v. v = ''true'') (map_of (bi_settings i) ''vcs.modified''),
           vi_Notes = None\<rparr>)"

definition versionUnknown :: string where
  "versionUnknown = ''unknown''"

definition versionString :: "VersionInfo \<Rightarrow> string" where
  "versionString info =
     (let dev =
        (case vi_VcsRevision info of
           Some r \<Rightarrow>
             ''dev-'' @ (if length r > 7 then take 7 r else r)
             @ (if vi_VcsModified info = Some True then ''-dirty'' else '''')
         | None \<Rightarrow> (case vi_Notes info of Some n \<Rightarrow> n | None \<Rightarrow> versionUnknown)) in
      case vi_Version info of
        Some ver \<Rightarrow>
          if ver \<noteq> '''' \<and> ver \<noteq> goDevelVersionString \<and> \<not> HasPrefix ver ''v0.0.0-'' then ver else dev
      | None \<Rightarrow> dev)"

definition BuildVersionsEqual :: "VersionInfo \<Rightarrow> VersionInfo \<Rightarrow> string" where
  "BuildVersionsEqual a b =
     (let rest =
        (if vi_VcsModified a = Some True \<or> vi_VcsModified b = Some True then ''dirty vcs build''
         else
           (case (vi_VcsRevision a, vi_VcsRevision b) of
              (Some r, Some s) \<Rightarrow> if r \<noteq> s then ''different vcs revisions'' else ''''
            | _ \<Rightarrow>
                if vi_Version a \<noteq> None \<or> vi_Version b \<noteq> None
                   \<or> vi_VcsRevision a \<noteq> None \<or> vi_VcsRevision b \<noteq> None
                then ''version info mismatch'' else '''')) in
      case (vi_Version a, vi_Version b) of
        (Some v, Some w) \<Rightarrow>
          if v = w then (if v = goDevelVersionString then ''development build'' else '''')
          else ''different versions''
      | _ \<Rightarrow> rest)"

subsection \<open>Comparing versions\<close>

lemma BuildVersionsEqual_sym: "BuildVersionsEqual a b = BuildVersionsEqual b a"
  by (cases "vi_Version a"; cases "vi_Version b"; cases "vi_VcsRevision a"; cases "vi_VcsRevision b")
    (auto simp: BuildVersionsEqual_def)

text \<open>
  Two builds are taken to be the same exactly when both carry the same release version other than a
  development build; or one of them has no version, neither was built from a modified tree, and they
  agree on the revision or neither carries version or revision. The comparison is symmetric.
\<close>

theorem builds_equal_iff:
  "(BuildVersionsEqual a b = '''' \<longleftrightarrow>
     (if vi_Version a \<noteq> None \<and> vi_Version b \<noteq> None
      then vi_Version a = vi_Version b \<and> vi_Version a \<noteq> Some goDevelVersionString
      else vi_VcsModified a \<noteq> Some True \<and> vi_VcsModified b \<noteq> Some True \<and>
           vi_VcsRevision a = vi_VcsRevision b \<and>
           (vi_VcsRevision a = None \<longrightarrow> vi_Version a = None \<and> vi_Version b = None)))
   \<and> BuildVersionsEqual a b = BuildVersionsEqual b a"
  using BuildVersionsEqual_sym [of a b]
  by (cases "vi_Version a"; cases "vi_Version b"; cases "vi_VcsRevision a"; cases "vi_VcsRevision b")
    (simp_all add: BuildVersionsEqual_def Let_def)

end
