(* ===== verification/PortSpec.thy ===== *)
theory PortSpec
  imports GoStrings
begin

text \<open>
  Explicit port forwards (\<^verbatim>\<open>pkg/port_spec.go\<close>): the syntax \<^verbatim>\<open>[local_port:]remote_port[/protocol]\<close>, its
  parser, its printer, and the conversion to and from the protocol message.
\<close>

subsection \<open>Definitions\<close>

definition ProtocolTCP :: string where
  "ProtocolTCP = ''tcp''"

definition ProtocolUDP :: string where
  "ProtocolUDP = ''udp''"

record PortForwardSpec =
  ps_RemotePort :: "32 word"
  ps_LocalPort :: "32 word"
  ps_Protocol :: string

definition is_digit :: "char \<Rightarrow> bool" where
  "is_digit c \<longleftrightarrow> 48 \<le> (of_char c :: nat) \<and> of_char c \<le> (57 :: nat)"

text \<open>
  The regular expression \<^verbatim>\<open>^\d+(:\d+)?/(tcp|udp)$|^\d+(:\d+)?$\<close>: the digits are taken greedily, which is
  no restriction because what follows them is never a digit.
\<close>

definition portSpecPattern :: "string \<Rightarrow> bool" where
  "portSpecPattern s =
     (let r1 = dropWhile is_digit s in
      takeWhile is_digit s \<noteq> [] \<and>
      (r1 \<in> {'''', ''/tcp'', ''/udp''} \<or>
       (case r1 of
          [] \<Rightarrow> False
        | c # t \<Rightarrow>
            c = CHR '':'' \<and> takeWhile is_digit t \<noteq> [] \<and> dropWhile is_digit t \<in> {'''', ''/tcp'', ''/udp''})))"

definition IsPortSpec :: "string \<Rightarrow> bool" where
  "IsPortSpec s =
     (case s of
        [] \<Rightarrow> False
      | c # _ \<Rightarrow> if \<not> is_digit c then False else portSpecPattern s)"

datatype port_error =
    InvalidPortSpec string
  | InvalidProtocol string string
  | InvalidPortNumber string string
  | PortOutOfRange nat string

text \<open>\<^verbatim>\<open>strings.LastIndex\<close> of a byte, with the text on both sides of it.\<close>

definition CutLast :: "char \<Rightarrow> string \<Rightarrow> (string \<times> string) option" where
  "CutLast c s = (case Cut c (rev s) of None \<Rightarrow> None | Some (a, b) \<Rightarrow> Some (rev b, rev a))"

definition parsePort :: "string \<Rightarrow> string \<Rightarrow> port_error + 32 word" where
  "parsePort s fullSpec =
     (case ParseUint s 10 32 of
        None \<Rightarrow> Inl (InvalidPortNumber s fullSpec)
      | Some n \<Rightarrow> if n = 0 \<or> n > 65535 then Inl (PortOutOfRange n fullSpec) else Inr (of_nat n))"

definition parsePorts :: "string \<Rightarrow> string \<Rightarrow> string \<Rightarrow> port_error + PortForwardSpec" where
  "parsePorts s proto portPart =
     (case Cut CHR '':'' portPart of
        Some (localStr, remoteStr) \<Rightarrow>
          (case parsePort localStr s of
             Inl e \<Rightarrow> Inl e
           | Inr loc \<Rightarrow>
               (case parsePort remoteStr s of
                  Inl e \<Rightarrow> Inl e
                | Inr rem \<Rightarrow> Inr \<lparr>ps_RemotePort = rem, ps_LocalPort = loc, ps_Protocol = proto\<rparr>))
      | None \<Rightarrow>
          (case parsePort portPart s of
             Inl e \<Rightarrow> Inl e
           | Inr port \<Rightarrow> Inr \<lparr>ps_RemotePort = port, ps_LocalPort = port, ps_Protocol = proto\<rparr>))"

definition ParsePortSpec :: "string \<Rightarrow> port_error + PortForwardSpec" where
  "ParsePortSpec s =
     (if \<not> IsPortSpec s then Inl (InvalidPortSpec s)
      else
        (case CutLast CHR ''/'' s of
           None \<Rightarrow> parsePorts s ProtocolTCP s
         | Some (portPart, proto) \<Rightarrow>
             if proto \<noteq> ProtocolTCP \<and> proto \<noteq> ProtocolUDP then Inl (InvalidProtocol proto s)
             else parsePorts s proto portPart))"

definition EffectiveProtocol :: "PortForwardSpec \<Rightarrow> string" where
  "EffectiveProtocol s = (if ps_Protocol s = '''' then ProtocolTCP else ps_Protocol s)"

definition EffectiveLocalPort :: "PortForwardSpec \<Rightarrow> 32 word" where
  "EffectiveLocalPort s = (if ps_LocalPort s = 0 then ps_RemotePort s else ps_LocalPort s)"

record ExplicitPortForwardSpec =
  pb_RemotePort :: "32 word"
  pb_LocalPort :: "32 word"
  pb_Protocol :: string

text \<open>A message is a pointer; the getters of a nil message return zero values.\<close>

definition PortForwardSpecFromProto :: "ExplicitPortForwardSpec option \<Rightarrow> PortForwardSpec" where
  "PortForwardSpecFromProto p =
     (case p of
        None \<Rightarrow> \<lparr>ps_RemotePort = 0, ps_LocalPort = 0, ps_Protocol = ''''\<rparr>
      | Some m \<Rightarrow>
          \<lparr>ps_RemotePort = pb_RemotePort m, ps_LocalPort = pb_LocalPort m, ps_Protocol = pb_Protocol m\<rparr>)"

definition ToProto :: "PortForwardSpec \<Rightarrow> ExplicitPortForwardSpec" where
  "ToProto s =
     \<lparr>pb_RemotePort = ps_RemotePort s, pb_LocalPort = ps_LocalPort s, pb_Protocol = ps_Protocol s\<rparr>"

fun ParsePortSpecsToProto :: "string list \<Rightarrow> port_error + ExplicitPortForwardSpec list" where
  "ParsePortSpecsToProto [] = Inr []"
| "ParsePortSpecsToProto (s # ss) =
     (case ParsePortSpec s of
        Inl e \<Rightarrow> Inl e
      | Inr parsed \<Rightarrow>
          (case ParsePortSpecsToProto ss of
             Inl e \<Rightarrow> Inl e
           | Inr specs \<Rightarrow> Inr (ToProto parsed # specs)))"

definition PortForwardSpec_String :: "PortForwardSpec \<Rightarrow> string" where
  "PortForwardSpec_String s =
     (if ps_LocalPort s \<noteq> ps_RemotePort s
      then utoa (unat (ps_LocalPort s)) @ '':'' @ utoa (unat (ps_RemotePort s))
      else utoa (unat (ps_RemotePort s)))
     @ (if ps_Protocol s \<noteq> ProtocolTCP then ''/'' @ ps_Protocol s else '''')"

subsection \<open>Decimal numbers\<close>

lemma is_digit_digit_char [simp]: "d < 10 \<Longrightarrow> is_digit (digit_char d)"
  by (simp add: is_digit_def digit_char_def)

lemma utoa_digits: "c \<in> set (utoa n) \<Longrightarrow> is_digit c"
proof (induction n rule: utoa.induct)
  case (1 n)
  then show ?case
    by (subst (asm) (2) utoa.simps) (auto split: if_splits)
qed

subsection \<open>Printing and parsing\<close>

definition valid_port :: "32 word \<Rightarrow> bool" where
  "valid_port w \<longleftrightarrow> 1 \<le> unat w \<and> unat w \<le> 65535"

definition valid_spec :: "PortForwardSpec \<Rightarrow> bool" where
  "valid_spec s \<longleftrightarrow>
     valid_port (ps_RemotePort s) \<and> valid_port (ps_LocalPort s) \<and> ps_Protocol s \<in> {ProtocolTCP, ProtocolUDP}"

lemmas protocol_defs = ProtocolTCP_def ProtocolUDP_def

lemma parsePort_valid:
  assumes "parsePort s f = Inr w"
  shows "valid_port w"
proof -
  obtain n where "0 < n" "n \<le> 65535" "w = of_nat n"
    using assms by (auto simp: parsePort_def split: option.splits if_splits)
  moreover have "unat (of_nat n :: 32 word) = n" if "n \<le> 65535"
    using that by (simp add: unat_of_nat take_bit_nat_eq_self)
  ultimately show ?thesis
    by (simp add: valid_port_def)
qed

lemma parsePort_utoa: "valid_port w \<Longrightarrow> parsePort (utoa (unat w)) f = Inr w"
  by (simp add: parsePort_def ParseUint_utoa valid_port_def)

lemma CutLast_None: "c \<notin> set s \<Longrightarrow> CutLast c s = None"
  using Cut_None_iff [of c "rev s"] by (simp add: CutLast_def)

lemma CutLast_append: "c \<notin> set b \<Longrightarrow> CutLast c (a @ c # b) = Some (a, b)"
  by (simp add: CutLast_def Cut_append)

lemma parsePorts_valid:
  "parsePorts s proto p = Inr spec \<Longrightarrow> proto \<in> {ProtocolTCP, ProtocolUDP} \<Longrightarrow> valid_spec spec"
  by (auto simp: parsePorts_def valid_spec_def split: option.splits sum.splits)
    (blast intro: parsePort_valid)+

lemma ParsePortSpec_valid: "ParsePortSpec s = Inr spec \<Longrightarrow> valid_spec spec"
  by (auto simp: ParsePortSpec_def split: if_splits option.splits intro: parsePorts_valid)

definition port_text :: "PortForwardSpec \<Rightarrow> string" where
  "port_text s =
     (if ps_LocalPort s \<noteq> ps_RemotePort s
      then utoa (unat (ps_LocalPort s)) @ CHR '':'' # utoa (unat (ps_RemotePort s))
      else utoa (unat (ps_RemotePort s)))"

lemma String_port_text:
  "PortForwardSpec_String s = port_text s @ (if ps_Protocol s \<noteq> ProtocolTCP then CHR ''/'' # ps_Protocol s else '''')"
  by (simp add: PortForwardSpec_String_def port_text_def)

lemma not_digit: "\<not> is_digit CHR '':''" "\<not> is_digit CHR ''/''"
  by (simp_all add: is_digit_def)

lemma utoa_plain: "CHR '':'' \<notin> set (utoa n)" "CHR ''/'' \<notin> set (utoa n)"
  using utoa_digits not_digit by blast+

lemma parsePorts_port_text:
  assumes "valid_spec spec"
  shows "parsePorts s (ps_Protocol spec) (port_text spec) = Inr spec"
proof (cases "ps_LocalPort spec = ps_RemotePort spec")
  case True
  then have "Cut CHR '':'' (port_text spec) = None"
    by (simp add: port_text_def Cut_None_iff utoa_plain)
  then show ?thesis
    using True assms by (simp add: parsePorts_def port_text_def valid_spec_def parsePort_utoa)
next
  case False
  then show ?thesis
    using assms by (simp add: parsePorts_def port_text_def valid_spec_def parsePort_utoa Cut_append utoa_plain)
qed

lemma span_utoa:
  "takeWhile is_digit (utoa n) = utoa n" "dropWhile is_digit (utoa n) = []"
  "\<not> is_digit c \<Longrightarrow> takeWhile is_digit (utoa n @ c # t) = utoa n"
  "\<not> is_digit c \<Longrightarrow> dropWhile is_digit (utoa n @ c # t) = c # t"
  using utoa_digits by (auto simp: takeWhile_append dropWhile_append takeWhile_eq_all_conv)

lemma portSpecPattern_text:
  assumes "suf \<in> {'''', ''/tcp'', ''/udp''}"
  shows "portSpecPattern (utoa n @ suf)" and "portSpecPattern (utoa m @ CHR '':'' # utoa n @ suf)"
  using assms not_digit by (auto simp: portSpecPattern_def span_utoa Let_def dest: utoa_digits)

lemma IsPortSpec_text:
  assumes "suf \<in> {'''', ''/tcp'', ''/udp''}"
  shows "IsPortSpec (port_text spec @ suf)"
proof -
  have "is_digit (hd (utoa n))" for n
    by (meson hd_in_set utoa_digits utoa_not_Nil)
  then have "portSpecPattern (port_text spec @ suf) \<and> is_digit (hd (port_text spec @ suf))"
      "port_text spec @ suf \<noteq> []"
    using portSpecPattern_text [OF assms] by (auto simp: port_text_def)
  then show ?thesis
    by (auto simp: IsPortSpec_def split: list.split)
qed

lemma ParsePortSpec_String:
  assumes "valid_spec spec"
  shows "ParsePortSpec (PortForwardSpec_String spec) = Inr spec"
proof -
  have no: "CHR ''/'' \<notin> set (port_text spec)"
    by (simp add: port_text_def utoa_plain)
  have parse: "parsePorts s (ps_Protocol spec) (port_text spec) = Inr spec" for s
    by (rule parsePorts_port_text [OF assms])
  consider "ps_Protocol spec = ProtocolTCP" | "ps_Protocol spec = ProtocolUDP"
    using assms by (auto simp: valid_spec_def)
  then show ?thesis
  proof cases
    case 1
    then show ?thesis
      using parse IsPortSpec_text [of "''''" spec] CutLast_None [OF no]
      by (simp add: ParsePortSpec_def String_port_text)
  next
    case 2
    have "CutLast CHR ''/'' (port_text spec @ CHR ''/'' # ''udp'') = Some (port_text spec, ''udp'')"
      by (rule CutLast_append) simp
    then show ?thesis
      using 2 parse IsPortSpec_text [of "''/udp''" spec]
      by (simp add: ParsePortSpec_def String_port_text protocol_defs)
  qed
qed

lemma FromProto_ToProto: "PortForwardSpecFromProto (Some (ToProto s)) = s"
  by (simp add: PortForwardSpecFromProto_def ToProto_def)

lemma ParsePortSpecsToProto_specs:
  "ParsePortSpecsToProto ss = Inr ps \<Longrightarrow>
     map ParsePortSpec ss = map (\<lambda>p. Inr (PortForwardSpecFromProto (Some p))) ps"
  by (induction ss arbitrary: ps) (auto simp: FromProto_ToProto split: sum.splits)

subsection \<open>Properties\<close>

text \<open>
  C32. Printing a port specification and parsing it again gives it back exactly when both ports are
  between 1 and 65535 and the protocol is spelled out; this holds of every specification the parser
  returns. A specification that leaves the local port or the protocol to the default prints as text
  the parser does not read back.
\<close>

theorem port_spec_round_trip:
  "(ParsePortSpec (PortForwardSpec_String spec) = Inr spec \<longleftrightarrow>
      valid_spec spec) \<and>
   (ParsePortSpec s = Inr spec' \<longrightarrow>
      ParsePortSpec (PortForwardSpec_String spec') = Inr spec' \<and>
      EffectiveLocalPort spec' = ps_LocalPort spec' \<and> EffectiveProtocol spec' = ps_Protocol spec')"
proof (intro conjI impI)
  show "ParsePortSpec (PortForwardSpec_String spec) = Inr spec \<longleftrightarrow> valid_spec spec"
    using ParsePortSpec_String ParsePortSpec_valid by blast
  assume "ParsePortSpec s = Inr spec'"
  then have valid: "valid_spec spec'"
    by (rule ParsePortSpec_valid)
  show "ParsePortSpec (PortForwardSpec_String spec') = Inr spec'"
    by (rule ParsePortSpec_String [OF valid])
  show "EffectiveLocalPort spec' = ps_LocalPort spec'"
    using valid by (auto simp: EffectiveLocalPort_def valid_spec_def valid_port_def)
  show "EffectiveProtocol spec' = ps_Protocol spec'"
    using valid by (auto simp: EffectiveProtocol_def valid_spec_def protocol_defs)
qed

theorem port_spec_round_trip_witness:
  "ParsePortSpec ''3000:8080/udp'' = Inr \<lparr>ps_RemotePort = 8080, ps_LocalPort = 3000, ps_Protocol = ''udp''\<rparr> \<and>
   ParsePortSpec (PortForwardSpec_String \<lparr>ps_RemotePort = 8080, ps_LocalPort = 3000, ps_Protocol = ''udp''\<rparr>) =
     Inr \<lparr>ps_RemotePort = 8080, ps_LocalPort = 3000, ps_Protocol = ''udp''\<rparr>"
proof -
  let ?spec = "\<lparr>ps_RemotePort = 8080, ps_LocalPort = 3000, ps_Protocol = ''udp''\<rparr>"
  have printed: "PortForwardSpec_String ?spec = ''3000:8080/udp''"
    by (simp add: PortForwardSpec_String_def protocol_defs utoa.simps digit_char_def char_of_eq_iff)
  have "valid_spec ?spec"
    by (simp add: valid_spec_def valid_port_def protocol_defs)
  then have "ParsePortSpec ''3000:8080/udp'' = Inr ?spec"
    using port_spec_round_trip [of ?spec] by (simp only: printed)
  then show ?thesis
    using port_spec_round_trip [of ?spec "''3000:8080/udp''" ?spec] by blast
qed

end
