(* ===== verification/PortScan.thy ===== *)
theory PortScan
  imports PortSpec "HOL-Library.Multiset" "HOL-Library.List_Lexorder"
    "HOL-Library.Char_ord" "HOL-Library.Product_Lexorder"
begin

text \<open>
  The scan for listening ports of a process tree (\<^verbatim>\<open>pkg/port_scan_linux.go\<close>) and the parser of
  \<^verbatim>\<open>/proc/net\<close> it uses (\<^verbatim>\<open>pkg/running_command_local.go\<close>). What the kernel reports in \<^verbatim>\<open>/proc\<close> is an argument;
  the order in which Go iterates over a map is an argument too.
\<close>

subsection \<open>Addresses\<close>

fun uhex :: "nat \<Rightarrow> string" where
  "uhex n = (if n < 16 then [digit_char n] else uhex (n div 16) @ [digit_char (n mod 16)])"

declare uhex.simps [simp del]

definition ipv4String :: "byte list \<Rightarrow> string" where
  "ipv4String b = Join ''.'' (map (\<lambda>x. utoa (unat x)) b)"

fun ipGroups :: "byte list \<Rightarrow> nat list" where
  "ipGroups (a # b # bs) = (256 * unat a + unat b) # ipGroups bs"
| "ipGroups _ = []"

definition zeroRun :: "nat list \<Rightarrow> nat \<Rightarrow> nat" where
  "zeroRun gs i = length (takeWhile (\<lambda>g. g = 0) (drop i gs))"

text \<open>The first longest run of at least two zero groups, as start and end.\<close>

definition longestRun :: "nat list \<Rightarrow> (nat \<times> nat) option" where
  "longestRun gs =
     foldl (\<lambda>best i.
         let l = zeroRun gs i in
         if l \<ge> 2 \<and> (case best of None \<Rightarrow> True | Some (s, e) \<Rightarrow> l > e - s) then Some (i, i + l) else best)
       None [0..<length gs]"

definition ipv6String :: "nat list \<Rightarrow> string" where
  "ipv6String gs =
     (case longestRun gs of
        None \<Rightarrow> Join '':'' (map uhex gs)
      | Some (s, e) \<Rightarrow> Join '':'' (map uhex (take s gs)) @ ''::'' @ Join '':'' (map uhex (drop e gs)))"

text \<open>\<^verbatim>\<open>net.IP.String\<close>: a mapped IPv4 address prints as IPv4.\<close>

definition ipString :: "byte list \<Rightarrow> string" where
  "ipString b =
     (if length b = 4 then ipv4String b
      else if take 10 b = replicate 10 0 \<and> take 2 (drop 10 b) = [255, 255] then ipv4String (drop 12 b)
      else ipv6String (ipGroups b))"

fun swap4 :: "byte list \<Rightarrow> byte list" where
  "swap4 (a # b # c # d # bs) = d # c # b # a # swap4 bs"
| "swap4 bs = bs"

definition parseHexIP :: "string \<Rightarrow> string" where
  "parseHexIP hexStr =
     (case DecodeString hexStr of
        None \<Rightarrow> hexStr
      | Some b \<Rightarrow> if length b = 4 \<or> length b = 16 then ipString (swap4 b) else hexStr)"

subsection \<open>Listening ports\<close>

record ListeningPort =
  lp_Port :: int
  lp_Host :: string
  lp_Protocol :: string
  lp_PID :: int
  lp_Inode :: nat

definition parseProcNetLine :: "string \<Rightarrow> string \<Rightarrow> string \<Rightarrow> ListeningPort option" where
  "parseProcNetLine protocol state line =
     (let fields = Fields line in
      if length fields < 10 then None
      else if fields ! 3 \<noteq> state then None
      else
        (case Split CHR '':'' (fields ! 1) of
           [addr, p] \<Rightarrow>
             (case ParseInt p 16 32 of
                None \<Rightarrow> None
              | Some port \<Rightarrow>
                  (case ParseUint (fields ! 9) 10 64 of
                     None \<Rightarrow> None
                   | Some inode \<Rightarrow>
                       Some \<lparr>lp_Port = port, lp_Host = parseHexIP addr, lp_Protocol = protocol,
                             lp_PID = 0, lp_Inode = inode\<rparr>))
         | _ \<Rightarrow> None))"

definition parseProcNetEntries :: "string \<Rightarrow> string \<Rightarrow> string \<Rightarrow> ListeningPort list" where
  "parseProcNetEntries content protocol state =
     List.map_filter (parseProcNetLine protocol state) (tl (Split CHR 0x0A content))"

text \<open>
  What \<^verbatim>\<open>/proc\<close> holds: the directory entries, the \<^verbatim>\<open>stat\<close> file of each, the links of a process's open
  files (\<open>None\<close> where a read fails), and the \<^verbatim>\<open>net\<close> files.
\<close>

record procfs =
  pf_entries :: "string list option"
  pf_stat :: "string \<Rightarrow> string option"
  pf_fds :: "int \<Rightarrow> string option list option"
  pf_net :: "string \<Rightarrow> string option"

definition statParent :: "procfs \<Rightarrow> string \<Rightarrow> (int \<times> int) option" where
  "statParent fs name =
     (case Atoi name of
        None \<Rightarrow> None
      | Some pid \<Rightarrow>
          (case pf_stat fs name of
             None \<Rightarrow> None
           | Some s \<Rightarrow>
               (case CutLast CHR '')'' s of
                  None \<Rightarrow> None
                | Some (_, after) \<Rightarrow>
                    let fields = Fields after in
                    if length fields < 2 then None
                    else map_option (\<lambda>ppid. (ppid, pid)) (Atoi (fields ! 1)))))"

definition childrenOf :: "(int \<times> int) list \<Rightarrow> int \<Rightarrow> int list" where
  "childrenOf edges p = map snd (filter (\<lambda>e. fst e = p) edges)"

definition visit :: "int list \<times> int list \<Rightarrow> int \<Rightarrow> int list \<times> int list" where
  "visit pq child = (case pq of (pids, queue) \<Rightarrow>
     if child \<in> set pids then (pids, queue) else (pids @ [child], queue @ [child]))"

lemma foldl_visit:
  "\<exists>new. foldl visit (pids, queue) cs = (pids @ new, queue @ new) \<and> distinct new \<and>
     set new = set cs - set pids"
proof (induction cs arbitrary: pids queue)
  case (Cons c cs)
  show ?case
  proof (cases "c \<in> set pids")
    case True
    then show ?thesis
      using Cons.IH [of pids queue] by (auto simp: visit_def)
  next
    case False
    obtain new where n: "foldl visit (pids @ [c], queue @ [c]) cs = ((pids @ [c]) @ new, (queue @ [c]) @ new)"
      "distinct new" "set new = set cs - set (pids @ [c])"
      using Cons.IH [of "pids @ [c]" "queue @ [c]"] by blast
    have "foldl visit (pids, queue) (c # cs) = (pids @ (c # new), queue @ (c # new))"
      using n(1) False by (simp add: visit_def)
    moreover have "distinct (c # new)" "set (c # new) = set (c # cs) - set pids"
      using n(2,3) False by auto
    ultimately show ?thesis by blast
  qed
qed simp

text \<open>The breadth-first loop; every process found was not found before.\<close>

function bfs :: "(int \<times> int) list \<Rightarrow> int list \<Rightarrow> int list \<Rightarrow> int list" where
  "bfs edges pids [] = pids"
| "bfs edges pids (cur # queue) =
     (case foldl visit (pids, queue) (childrenOf edges cur) of (pids', queue') \<Rightarrow> bfs edges pids' queue')"
  by pat_completeness auto

termination
proof (relation "measure (\<lambda>(edges, pids, queue). card (snd ` set edges - set pids) + length queue)", simp)
  fix edges :: "(int \<times> int) list" and pids cur queue pids' queue'
  assume "(pids', queue') = foldl visit (pids, queue) (childrenOf edges cur)"
  then obtain new where n: "pids' = pids @ new" "queue' = queue @ new" "distinct new"
      "set new = set (childrenOf edges cur) - set pids"
    using foldl_visit [of pids queue "childrenOf edges cur"] by auto
  have sub: "set new \<subseteq> snd ` set edges - set pids"
    using n(4) by (auto simp: childrenOf_def)
  have "card (snd ` set edges - set pids') = card ((snd ` set edges - set pids) - set new)"
    by (simp add: n(1) Diff_eq Int_assoc)
  also have "\<dots> = card (snd ` set edges - set pids) - length new"
    using sub n(3) by (simp add: card_Diff_subset distinct_card)
  finally show "((edges, pids', queue'), edges, pids, cur # queue) \<in>
      measure (\<lambda>(edges, pids, queue). card (snd ` set edges - set pids) + length queue)"
    using card_mono [OF _ sub] n(2,3) by (simp add: distinct_card)
qed

definition getDescendants :: "procfs \<Rightarrow> int \<Rightarrow> int list option" where
  "getDescendants fs parentPID =
     map_option (\<lambda>entries. bfs (List.map_filter (statParent fs) entries) [parentPID] [parentPID]) (pf_entries fs)"

text \<open>
  The inode of a link \<^verbatim>\<open>socket:[12345]\<close>. The inner \<open>None\<close> is a link that is skipped, the outer one the panic
  of slicing past the end, for a link that is just the prefix.
\<close>

definition linkInode :: "string \<Rightarrow> nat option option" where
  "linkInode link =
     (if HasPrefix link ''socket:['' then
        if length link < 9 then None
        else Some (ParseUint (drop 8 (take (length link - 1) link)) 10 64)
      else Some None)"

fun collectInodes :: "string option list \<Rightarrow> nat list option" where
  "collectInodes [] = Some []"
| "collectInodes (None # ls) = collectInodes ls"
| "collectInodes (Some l # ls) =
     (case linkInode l of
        None \<Rightarrow> None
      | Some None \<Rightarrow> collectInodes ls
      | Some (Some i) \<Rightarrow> map_option ((#) i) (collectInodes ls))"

definition getSocketInodes :: "procfs \<Rightarrow> int \<Rightarrow> nat list option" where
  "getSocketInodes fs pid = (case pf_fds fs pid of None \<Rightarrow> Some [] | Some links \<Rightarrow> collectInodes links)"

definition procNetFiles :: "(string \<times> string \<times> string) list" where
  "procNetFiles =
     [(''/proc/net/tcp'', ''tcp'', ''0A''), (''/proc/net/tcp6'', ''tcp'', ''0A''),
      (''/proc/net/udp'', ''udp'', ''07''), (''/proc/net/udp6'', ''udp'', ''07'')]"

definition getListeningPorts :: "procfs \<Rightarrow> ListeningPort list" where
  "getListeningPorts fs =
     concat (map (\<lambda>(path, protocol, state).
         case pf_net fs path of None \<Rightarrow> [] | Some content \<Rightarrow> parseProcNetEntries content protocol state)
       procNetFiles)"

fun inodeOwners :: "procfs \<Rightarrow> int list \<Rightarrow> (nat \<rightharpoonup> int) \<Rightarrow> (nat \<rightharpoonup> int) option" where
  "inodeOwners fs [] m = Some m"
| "inodeOwners fs (pid # pids) m =
     (case getSocketInodes fs pid of
        None \<Rightarrow> None
      | Some inodes \<Rightarrow> inodeOwners fs pids (foldl (\<lambda>m i. m(i \<mapsto> pid)) m inodes))"

fun matchPorts :: "(nat \<rightharpoonup> int) \<Rightarrow> (string \<times> int) list \<Rightarrow> ListeningPort list \<Rightarrow> ListeningPort list" where
  "matchPorts m seen [] = []"
| "matchPorts m seen (lp # lps) =
     (case m (lp_Inode lp) of
        None \<Rightarrow> matchPorts m seen lps
      | Some pid \<Rightarrow>
          let dk = (lp_Protocol lp, lp_Port lp) in
          if dk \<in> set seen then matchPorts m seen lps
          else lp\<lparr>lp_PID := pid\<rparr> # matchPorts m (dk # seen) lps)"

datatype scan_error = ScanReadDir | ScanPanic

text \<open>\<open>order\<close> is the order in which the map of processes is iterated over.\<close>

definition GetPortsForParent :: "(int list \<Rightarrow> int list) \<Rightarrow> procfs \<Rightarrow> int \<Rightarrow> scan_error + ListeningPort list" where
  "GetPortsForParent order fs parentPID =
     (case getDescendants fs parentPID of
        None \<Rightarrow> Inl ScanReadDir
      | Some pids \<Rightarrow>
          (case inodeOwners fs (order pids) Map.empty of
             None \<Rightarrow> Inl ScanPanic
           | Some m \<Rightarrow>
               Inr (sort_key (\<lambda>lp. (lp_Protocol lp, lp_Port lp, lp_Host lp))
                      (matchPorts m [] (getListeningPorts fs)))))"

subsection \<open>The process tree\<close>

lemma childrenOf_set [simp]: "c \<in> set (childrenOf edges p) \<longleftrightarrow> (p, c) \<in> set edges"
  by (force simp: childrenOf_def)

definition tree_inv :: "(int \<times> int) list \<Rightarrow> int \<Rightarrow> int list \<Rightarrow> int list \<Rightarrow> bool" where
  "tree_inv edges root pids queue \<longleftrightarrow>
     root \<in> set pids \<and> set queue \<subseteq> set pids \<and> (\<forall>p \<in> set pids. (root, p) \<in> (set edges)\<^sup>*) \<and>
     (\<forall>p \<in> set pids - set queue. \<forall>c. (p, c) \<in> set edges \<longrightarrow> c \<in> set pids)"

lemma tree_inv_step:
  assumes "tree_inv edges root pids (cur # queue)"
    and "foldl visit (pids, queue) (childrenOf edges cur) = (pids', queue')"
  shows "tree_inv edges root pids' queue'"
proof -
  obtain new where n: "pids' = pids @ new" "queue' = queue @ new"
      "set new = set (childrenOf edges cur) - set pids"
    using foldl_visit [of pids queue "childrenOf edges cur"] assms(2) by auto
  have inv: "root \<in> set pids" "cur \<in> set pids" "set queue \<subseteq> set pids"
      "\<And>p. p \<in> set pids \<Longrightarrow> (root, p) \<in> (set edges)\<^sup>*"
      "\<And>p c. p \<in> set pids \<Longrightarrow> p \<noteq> cur \<Longrightarrow> p \<notin> set queue \<Longrightarrow> (p, c) \<in> set edges \<Longrightarrow> c \<in> set pids"
    using assms(1) by (auto simp: tree_inv_def)
  have reach: "(root, p) \<in> (set edges)\<^sup>*" if "p \<in> set new" for p
    using that n(3) inv(2,4) by (auto intro: rtrancl_into_rtrancl)
  have closed: "c \<in> set pids'" if "p \<in> set pids' - set queue'" "(p, c) \<in> set edges" for p c
    using that n inv(5) [of p c] by (cases "p = cur") auto
  show ?thesis
    using inv(1,3,4) reach closed unfolding tree_inv_def n(1,2) by auto
qed

lemma bfs_reachable: "tree_inv edges root pids queue \<Longrightarrow> set (bfs edges pids queue) = {p. (root, p) \<in> (set edges)\<^sup>*}"
proof (induction edges pids queue rule: bfs.induct)
  case (1 edges pids)
  have "p \<in> set pids" if "(root, p) \<in> (set edges)\<^sup>*" for p
    using that
  proof (induction rule: rtrancl_induct)
    case (step p c)
    then show ?case
      using 1 by (auto simp: tree_inv_def)
  qed (use 1 in \<open>simp add: tree_inv_def\<close>)
  moreover have "(root, p) \<in> (set edges)\<^sup>*" if "p \<in> set pids" for p
    using that 1 by (simp add: tree_inv_def)
  ultimately show ?case
    by (simp only: bfs.simps) blast
next
  case (2 edges pids cur queue)
  obtain pids' queue' where step: "foldl visit (pids, queue) (childrenOf edges cur) = (pids', queue')"
    by fastforce
  have "tree_inv edges root pids' queue'"
    by (rule tree_inv_step [OF 2(2) step])
  then show ?case
    using 2(1) [OF step [symmetric]] by (simp add: step)
qed

definition parent_edges :: "procfs \<Rightarrow> string list \<Rightarrow> (int \<times> int) set" where
  "parent_edges fs entries = {e. \<exists>name \<in> set entries. statParent fs name = Some e}"

lemma getDescendants_reachable:
  assumes "pf_entries fs = Some entries"
  shows "\<exists>pids. getDescendants fs parentPID = Some pids \<and>
           set pids = {p. (parentPID, p) \<in> (parent_edges fs entries)\<^sup>*}"
proof -
  let ?edges = "List.map_filter (statParent fs) entries"
  have "set ?edges = parent_edges fs entries"
    by (force simp: parent_edges_def List.map_filter_def)
  moreover have "tree_inv ?edges parentPID [parentPID] [parentPID]"
    by (simp add: tree_inv_def)
  ultimately show ?thesis
    using bfs_reachable [of ?edges parentPID] assms by (simp add: getDescendants_def del: bfs.simps)
qed

subsection \<open>Owners of sockets\<close>

text \<open>A process holds a socket inode when one of its open files is a link to it.\<close>

definition holds :: "procfs \<Rightarrow> int \<Rightarrow> nat \<Rightarrow> bool" where
  "holds fs pid i \<longleftrightarrow> (\<exists>links. pf_fds fs pid = Some links \<and> (\<exists>l. Some l \<in> set links \<and> linkInode l = Some (Some i)))"

definition links_ok :: "procfs \<Rightarrow> bool" where
  "links_ok fs \<longleftrightarrow> (\<forall>pid links l. pf_fds fs pid = Some links \<longrightarrow> Some l \<in> set links \<longrightarrow> l \<noteq> ''socket:['')"

lemma linkInode_ok: "l \<noteq> ''socket:['' \<Longrightarrow> linkInode l \<noteq> None"
  by (auto simp: linkInode_def HasPrefix_iff)

lemma collectInodes_ok:
  assumes "\<And>l. Some l \<in> set links \<Longrightarrow> linkInode l \<noteq> None"
  shows "\<exists>is. collectInodes links = Some is \<and> set is = {i. \<exists>l. Some l \<in> set links \<and> linkInode l = Some (Some i)}"
  using assms
proof (induction links)
  case (Cons x links)
  obtain js where js: "collectInodes links = Some js"
      "set js = {i. \<exists>l. Some l \<in> set links \<and> linkInode l = Some (Some i)}"
    using Cons by auto
  show ?case
  proof (cases x)
    case None
    then show ?thesis
      using js by simp
  next
    case (Some l)
    then obtain r where r: "linkInode l = Some r"
      using Cons.prems [of l] by auto
    have "{i. \<exists>k. Some k \<in> set (x # links) \<and> linkInode k = Some (Some i)} = set_option r \<union> set js"
      using r Some unfolding js(2) by auto
    then show ?thesis
      using r js(1) Some by (cases r) simp_all
  qed
qed simp

lemma getSocketInodes_ok:
  assumes "links_ok fs"
  shows "\<exists>is. getSocketInodes fs pid = Some is \<and> set is = {i. holds fs pid i}"
proof (cases "pf_fds fs pid")
  case (Some links)
  have "linkInode l \<noteq> None" if "Some l \<in> set links" for l
    using assms Some that by (intro linkInode_ok) (auto simp: links_ok_def)
  from collectInodes_ok [OF this] show ?thesis
    using Some by (simp add: getSocketInodes_def holds_def)
qed (simp add: getSocketInodes_def holds_def)

lemma foldl_owner: "foldl (\<lambda>m i. m(i \<mapsto> pid)) m is i = (if i \<in> set is then Some pid else m i)"
  by (induction "is" arbitrary: m) auto

lemma inodeOwners_ok:
  assumes "links_ok fs"
  shows "\<exists>m'. inodeOwners fs pids m = Some m' \<and>
           (\<forall>i. case m' i of
                  None \<Rightarrow> m i = None \<and> (\<forall>pid \<in> set pids. \<not> holds fs pid i)
                | Some pid \<Rightarrow> (pid \<in> set pids \<and> holds fs pid i) \<or> m i = Some pid)"
proof (induction pids arbitrary: m)
  case Nil
  show ?case by (auto split: option.split)
next
  case (Cons p pids)
  obtain inodes where i: "getSocketInodes fs p = Some inodes" "set inodes = {i. holds fs p i}"
    using getSocketInodes_ok [OF assms] by blast
  let ?m = "foldl (\<lambda>m i. m(i \<mapsto> p)) m inodes"
  obtain m' where m': "inodeOwners fs pids ?m = Some m'"
      "\<And>i. case m' i of
                  None \<Rightarrow> ?m i = None \<and> (\<forall>pid \<in> set pids. \<not> holds fs pid i)
                | Some pid \<Rightarrow> (pid \<in> set pids \<and> holds fs pid i) \<or> ?m i = Some pid"
    using Cons.IH [of ?m] by blast
  have "case m' i of
                  None \<Rightarrow> m i = None \<and> (\<forall>pid \<in> set (p # pids). \<not> holds fs pid i)
                | Some pid \<Rightarrow> (pid \<in> set (p # pids) \<and> holds fs pid i) \<or> m i = Some pid" for i
    using m'(2) [of i] by (auto simp: foldl_owner i(2) split: option.splits if_splits)
  then show ?case
    using i(1) m'(1) by auto
qed

definition port_key :: "ListeningPort \<Rightarrow> string \<times> int" where
  "port_key lp = (lp_Protocol lp, lp_Port lp)"

lemma matchPorts_keys:
  "port_key ` set (matchPorts m seen lps) =
     {port_key lp | lp. lp \<in> set lps \<and> m (lp_Inode lp) \<noteq> None} - set seen"
  by (induction lps arbitrary: seen) (auto simp: port_key_def Let_def split: option.split)

lemma matchPorts_distinct:
  "distinct (map port_key (matchPorts m seen lps)) \<and> set (map port_key (matchPorts m seen lps)) \<inter> set seen = {}"
proof (induction lps arbitrary: seen)
  case (Cons lp lps)
  then show ?case
    using matchPorts_keys [of m "port_key lp # seen" lps]
    by (auto simp: port_key_def Let_def split: option.split)
qed simp

lemma matchPorts_owner:
  "lp \<in> set (matchPorts m seen lps) \<Longrightarrow>
     \<exists>lp0 \<in> set lps. m (lp_Inode lp0) = Some (lp_PID lp) \<and> lp = lp0\<lparr>lp_PID := lp_PID lp\<rparr>"
  by (induction lps arbitrary: seen) (auto simp: Let_def split: option.splits if_splits)

text \<open>
  C8. A port scan ends and returns, sorted and each once, exactly the protocol and port pairs on which a
  process of the tree below the given one listens: a listening socket counts when its inode is held
  by a process reachable from the root through parent links, and the process reported for it is such
  a process. This holds for every order in which the map of processes is iterated over.
\<close>

theorem port_scan_finds_the_tree:
  assumes "pf_entries fs = Some entries" and "links_ok fs" and "\<And>xs. set (order xs) = set xs"
  shows "\<exists>ports. GetPortsForParent order fs root = Inr ports \<and>
    sorted (map (\<lambda>lp. (lp_Protocol lp, lp_Port lp, lp_Host lp)) ports) \<and>
    distinct (map port_key ports) \<and>
    port_key ` set ports =
      {port_key lp | lp. lp \<in> set (getListeningPorts fs) \<and>
         (\<exists>pid. (root, pid) \<in> (parent_edges fs entries)\<^sup>* \<and> holds fs pid (lp_Inode lp))} \<and>
    (\<forall>lp \<in> set ports. (root, lp_PID lp) \<in> (parent_edges fs entries)\<^sup>* \<and> holds fs (lp_PID lp) (lp_Inode lp))"
proof -
  obtain pids where pids: "getDescendants fs root = Some pids"
      "set pids = {p. (root, p) \<in> (parent_edges fs entries)\<^sup>*}"
    using getDescendants_reachable [OF assms(1)] by blast
  obtain m where m: "inodeOwners fs (order pids) Map.empty = Some m"
      "\<And>i. case m i of
             None \<Rightarrow> \<forall>pid \<in> set pids. \<not> holds fs pid i
           | Some pid \<Rightarrow> pid \<in> set pids \<and> holds fs pid i"
    using inodeOwners_ok [OF assms(2), of "order pids" Map.empty]
    by (simp add: assms(3) cong: option.case_cong) blast
  let ?ports = "sort_key (\<lambda>lp. (lp_Protocol lp, lp_Port lp, lp_Host lp)) (matchPorts m [] (getListeningPorts fs))"
  have owned: "(m i \<noteq> None) = (\<exists>pid. (root, pid) \<in> (parent_edges fs entries)\<^sup>* \<and> holds fs pid i)" for i
    using m(2) [of i] pids(2) by (auto split: option.splits)
  have "distinct (map port_key ?ports)"
    using matchPorts_distinct [of m "[]"]
    by (simp add: distinct_map inj_on_def)
  moreover have "port_key ` set ?ports = {port_key lp | lp. lp \<in> set (getListeningPorts fs) \<and>
      (\<exists>pid. (root, pid) \<in> (parent_edges fs entries)\<^sup>* \<and> holds fs pid (lp_Inode lp))}"
    using matchPorts_keys [of m "[]" "getListeningPorts fs"] unfolding owned by simp
  moreover have "lp_PID lp \<in> set pids \<and> holds fs (lp_PID lp) (lp_Inode lp)" if mem: "lp \<in> set ?ports" for lp
  proof -
    obtain lp0 where "m (lp_Inode lp0) = Some (lp_PID lp)" "lp = lp0\<lparr>lp_PID := lp_PID lp\<rparr>"
      using mem matchPorts_owner [of lp m "[]" "getListeningPorts fs"] by auto
    then have "m (lp_Inode lp) = Some (lp_PID lp)"
      by (metis ListeningPort.select_convs(5) ListeningPort.surjective ListeningPort.update_convs(4))
    then show ?thesis
      using m(2) [of "lp_Inode lp"] by simp
  qed
  ultimately show ?thesis
    using pids m(1) by (auto simp: GetPortsForParent_def)
qed

theorem port_scan_finds_the_tree_witness:
  "\<exists>fs ports. GetPortsForParent rev fs 1 = Inr ports \<and> map port_key ports = [(''tcp'', 8080)]"
proof -
  let ?line = "''0 0100007F:1F90 00000000:0000 0A 0 0 0 0 0 7''"
  let ?fs = "\<lparr>pf_entries = Some [''1'', ''42'', ''net''],
    pf_stat = (\<lambda>n. if n = ''42'' then Some ''42 (a b) S 1 42'' else None),
    pf_fds = (\<lambda>pid. if pid = 42 then Some [Some ''/dev/null'', Some ''socket:[7]''] else None),
    pf_net = (\<lambda>f. if f = ''/proc/net/tcp'' then Some (''h'' @ [CHR 0x0A] @ ?line) else None)\<rparr>"
  have edges: "(1, 42) \<in> parent_edges ?fs [''1'', ''42'', ''net'']"
    by (simp add: parent_edges_def statParent_def Atoi_def ParseInt_def parse_digits_def char_digit_def
        CutLast_def Fields_def IsSpace_def)
  have "linkInode ''socket:[7]'' = Some (Some 7)"
    by (simp add: linkInode_def HasPrefix_def ParseUint_def parse_digits_def char_digit_def)
  then have holds: "holds ?fs 42 7"
    by (force simp: holds_def)
  have "Fields ?line =
      [''0'', ''0100007F:1F90'', ''00000000:0000'', ''0A'', ''0'', ''0'', ''0'', ''0'', ''0'', ''7'']"
    by (simp add: Fields_def IsSpace_def)
  moreover have "ParseInt ''1F90'' 16 32 = Some 8080" "ParseUint ''7'' 10 64 = Some 7"
    by (simp_all add: ParseInt_def ParseUint_def parse_digits_def char_digit_def)
  moreover have "Split CHR 0x0A (''h'' @ [CHR 0x0A] @ ?line) = [''h'', ?line]"
    by simp
  ultimately have "map (\<lambda>lp. (port_key lp, lp_Inode lp)) (getListeningPorts ?fs) = [((''tcp'', 8080), 7)]"
    by (simp add: getListeningPorts_def procNetFiles_def parseProcNetEntries_def parseProcNetLine_def
        List.map_filter_def port_key_def)
  then obtain lp where lp: "getListeningPorts ?fs = [lp]" "port_key lp = (''tcp'', 8080)" "lp_Inode lp = 7"
    by (auto simp: map_eq_Cons_conv)
  have "links_ok ?fs"
    by (simp add: links_ok_def)
  from port_scan_finds_the_tree [of ?fs "[''1'', ''42'', ''net'']" rev 1, OF _ this]
  obtain ports where p: "GetPortsForParent rev ?fs 1 = Inr ports" "distinct (map port_key ports)"
      "port_key ` set ports = {port_key lp | lp. lp \<in> set (getListeningPorts ?fs) \<and>
         (\<exists>pid. (1, pid) \<in> (parent_edges ?fs [''1'', ''42'', ''net''])\<^sup>* \<and> holds ?fs pid (lp_Inode lp))}"
    by auto
  have "port_key ` set ports = {(''tcp'', 8080)}"
    using p(3) lp edges holds by auto
  then have "set (map port_key ports) = {(''tcp'', 8080)}"
    by simp
  with p(2) have "map port_key ports = [(''tcp'', 8080)]"
    by (cases "map port_key ports") (auto simp: set_empty2 subset_singleton_iff)
  with p(1) show ?thesis by (intro exI conjI)
qed

end
