(* ===== verification/PortForward.thy ===== *)
theory PortForward
  imports PortScan "HOL-Library.AList" "HOL-Library.Multiset"
begin

text \<open>
  Port forwards of a remote daemon (\<^verbatim>\<open>pkg/remote_daemon.go\<close>): the forwards a user asks for, the forwards
  for ports that were found listening on the remote host, and the reconciliation of both with the sockets that
  are open. An operation that leaves the mutex to open a socket is cut there. A forward is numbered; the number
  stands for its two contexts and its listener. Sockets of other processes are an argument.
\<close>

subsection \<open>Forwards and sockets\<close>

record activePortForward =
  pf_id :: nat
  pf_remotePort :: "32 word"
  pf_localPort :: "32 word"
  pf_protocol :: string
  pf_conflict :: bool
  pf_conflictReason :: string
  pf_explicit :: bool

record PortInfo =
  pi_Port :: "32 word"
  pi_Host :: string
  pi_Protocol :: string

text \<open>
  The part of a daemon that concerns port forwards, with the local sockets this process has open (whether the
  socket is a UDP one, the port it was asked for, and the forward that opened it) and the forwards whose relay
  context is alive.
\<close>

record port_daemon =
  pd_closed :: bool
  pd_portForwards :: "(string \<times> activePortForward) list"
  pd_explicitPorts :: "(string \<times> PortForwardSpec) list"
  pd_sockets :: "((bool \<times> 32 word) \<times> nat) list"
  pd_relays :: "nat list"
  pd_nextId :: nat

definition portForwardKey :: "string \<Rightarrow> 32 word \<Rightarrow> string" where
  "portForwardKey protocol port = protocol @ '':'' @ utoa (unat port)"

text \<open>
  What the other processes of the machine do to a question asked of the network: a connection is accepted, or a
  port is held by someone else. A port above 65535 is no port, and port 0 asks for any free one.
\<close>

datatype net_query = Accepts | HeldTCP | HeldAnyUDP | HeldUDP

definition ownSocket :: "port_daemon \<Rightarrow> bool \<Rightarrow> 32 word \<Rightarrow> bool" where
  "ownSocket d udp port \<longleftrightarrow> port \<noteq> 0 \<and> (udp, port) \<in> fst ` set (pd_sockets d)"

definition probePortConflict :: "(net_query \<Rightarrow> 32 word \<Rightarrow> bool) \<Rightarrow> port_daemon \<Rightarrow> string \<Rightarrow> 32 word \<Rightarrow> bool" where
  "probePortConflict foreign d protocol port \<longleftrightarrow>
     (if protocol = ProtocolTCP
      then unat port \<le> 65535 \<and> (foreign Accepts port \<or> ownSocket d False port)
      else unat port > 65535 \<or> (port \<noteq> 0 \<and> foreign HeldAnyUDP port) \<or> ownSocket d True port)"

definition listenFails :: "(net_query \<Rightarrow> 32 word \<Rightarrow> bool) \<Rightarrow> port_daemon \<Rightarrow> bool \<Rightarrow> 32 word \<Rightarrow> bool" where
  "listenFails foreign d udp port \<longleftrightarrow>
     unat port > 65535 \<or> (port \<noteq> 0 \<and> foreign (if udp then HeldUDP else HeldTCP) port) \<or> ownSocket d udp port"

definition conflictText :: "32 word \<Rightarrow> string" where
  "conflictText port = ''port '' @ utoa (unat port) @ '' already in use locally''"

text \<open>Options: the local port, 0 when none is given, and whether the user asked for the forward.\<close>

definition startPortForward ::
    "(net_query \<Rightarrow> 32 word \<Rightarrow> bool) \<Rightarrow> PortInfo \<Rightarrow> 32 word \<times> bool \<Rightarrow> port_daemon \<Rightarrow> activePortForward \<times> port_daemon" where
  "startPortForward foreign portInfo opts d =
     (let localPort = (if fst opts \<noteq> 0 then fst opts else pi_Port portInfo);
          udp = (pi_Protocol portInfo = ProtocolUDP);
          conflict = (probePortConflict foreign d (pi_Protocol portInfo) localPort \<or> listenFails foreign d udp localPort);
          fwd = \<lparr>pf_id = pd_nextId d, pf_remotePort = pi_Port portInfo, pf_localPort = localPort,
                 pf_protocol = pi_Protocol portInfo, pf_conflict = conflict,
                 pf_conflictReason = (if conflict then conflictText localPort else ''''), pf_explicit = snd opts\<rparr>;
          d1 = d\<lparr>pd_nextId := pd_nextId d + 1\<rparr>
      in (fwd, if conflict then d1
               else d1\<lparr>pd_sockets := ((udp, localPort), pd_nextId d) # pd_sockets d,
                       pd_relays := pd_nextId d # pd_relays d\<rparr>))"

text \<open>
  \<^verbatim>\<open>listener.Close\<close> and \<^verbatim>\<open>cancel\<close> close the socket of the forward; \<^verbatim>\<open>relayCancel\<close> also ends the relays it has
  started.
\<close>

definition stopForward :: "activePortForward \<Rightarrow> port_daemon \<Rightarrow> port_daemon" where
  "stopForward fwd d = d\<lparr>pd_sockets := filter (\<lambda>(_, i). i \<noteq> pf_id fwd) (pd_sockets d)\<rparr>"

definition cancelForward :: "activePortForward \<Rightarrow> port_daemon \<Rightarrow> port_daemon" where
  "cancelForward fwd d = (stopForward fwd d)\<lparr>pd_relays := removeAll (pf_id fwd) (pd_relays d)\<rparr>"

definition forgetForward :: "string \<Rightarrow> port_daemon \<Rightarrow> port_daemon" where
  "forgetForward key d = d\<lparr>pd_portForwards := AList.delete key (pd_portForwards d)\<rparr>"

definition dropForward :: "string \<Rightarrow> activePortForward \<Rightarrow> port_daemon \<Rightarrow> port_daemon" where
  "dropForward key fwd d = forgetForward key (cancelForward fwd d)"

subsection \<open>Forwards the user asks for\<close>

datatype add_begin = AddDone port_daemon | AddStart string PortInfo "32 word" port_daemon

definition addExplicitBegin :: "PortForwardSpec \<Rightarrow> port_daemon \<Rightarrow> add_begin" where
  "addExplicitBegin spec d =
     (let localPort = EffectiveLocalPort spec;
          protocol = EffectiveProtocol spec;
          key = portForwardKey protocol (ps_RemotePort spec);
          info = \<lparr>pi_Port = ps_RemotePort spec, pi_Host = ''127.0.0.1'', pi_Protocol = protocol\<rparr> in
      if map_of (pd_explicitPorts d) key \<noteq> None then AddDone d
      else
        let d1 = d\<lparr>pd_explicitPorts := AList.update key spec (pd_explicitPorts d)\<rparr> in
        (case map_of (pd_portForwards d1) key of
           Some existing \<Rightarrow>
             if pf_localPort existing = localPort \<and> \<not> pf_conflict existing
             then AddDone (d1\<lparr>pd_portForwards := AList.update key (existing\<lparr>pf_explicit := True\<rparr>) (pd_portForwards d1)\<rparr>)
             else AddStart key info localPort (dropForward key existing d1)
         | None \<Rightarrow> AddStart key info localPort d1))"

datatype add_error = PortInUse "32 word" string | DaemonClosed

definition addExplicitEnd :: "string \<Rightarrow> 32 word \<Rightarrow> activePortForward \<Rightarrow> port_daemon \<Rightarrow> add_error option \<times> port_daemon" where
  "addExplicitEnd key localPort newFwd d =
     (if pf_conflict newFwd then
        (Some (PortInUse localPort (pf_conflictReason newFwd)),
         d\<lparr>pd_explicitPorts := AList.delete key (pd_explicitPorts d)\<rparr>)
      else if pd_closed d then (Some DaemonClosed, cancelForward newFwd d)
      else (None, d\<lparr>pd_portForwards := AList.update key newFwd (pd_portForwards d)\<rparr>))"

definition AddExplicitPortForward ::
    "(net_query \<Rightarrow> 32 word \<Rightarrow> bool) \<Rightarrow> PortForwardSpec \<Rightarrow> port_daemon \<Rightarrow> add_error option \<times> port_daemon" where
  "AddExplicitPortForward foreign spec d =
     (case addExplicitBegin spec d of
        AddDone d1 \<Rightarrow> (None, d1)
      | AddStart key info localPort d1 \<Rightarrow>
          let (newFwd, d2) = startPortForward foreign info (localPort, True) d1
          in addExplicitEnd key localPort newFwd d2)"

definition RemoveExplicitPortForward :: "PortForwardSpec \<Rightarrow> port_daemon \<Rightarrow> bool \<times> port_daemon" where
  "RemoveExplicitPortForward spec d =
     (let key = portForwardKey (EffectiveProtocol spec) (ps_RemotePort spec) in
      if map_of (pd_explicitPorts d) key = None then (False, d)
      else
        let d1 = d\<lparr>pd_explicitPorts := AList.delete key (pd_explicitPorts d)\<rparr> in
        (True, case map_of (pd_portForwards d1) key of None \<Rightarrow> d1 | Some fwd \<Rightarrow> dropForward key fwd d1))"

definition IsExplicitPortForward :: "string \<Rightarrow> 32 word \<Rightarrow> port_daemon \<Rightarrow> bool" where
  "IsExplicitPortForward protocol remotePort d \<longleftrightarrow>
     (let spec = \<lparr>ps_RemotePort = remotePort, ps_LocalPort = 0, ps_Protocol = protocol\<rparr> in
      map_of (pd_explicitPorts d) (portForwardKey (EffectiveProtocol spec) remotePort) \<noteq> None)"

text \<open>\<^verbatim>\<open>PortForwardStatuses\<close> copies every field of every forward but the handles.\<close>

definition PortForwardStatuses :: "port_daemon \<Rightarrow> (32 word \<times> 32 word \<times> string \<times> bool \<times> string \<times> bool) list" where
  "PortForwardStatuses d =
     map (\<lambda>(_, fwd). (pf_remotePort fwd, pf_localPort fwd, pf_protocol fwd, pf_conflict fwd, pf_conflictReason fwd,
                      pf_explicit fwd)) (pd_portForwards d)"

subsection \<open>Reconciliation\<close>

definition hasConflictedForwards :: "port_daemon \<Rightarrow> bool" where
  "hasConflictedForwards d \<longleftrightarrow> (\<exists>fwd \<in> snd ` set (pd_portForwards d). pf_conflict fwd)"

text \<open>The ports that should be forwarded: those found on the remote host, and those the user asked for.\<close>

definition infoOfSpec :: "PortForwardSpec \<Rightarrow> PortInfo" where
  "infoOfSpec spec = \<lparr>pi_Port = ps_RemotePort spec, pi_Host = ''127.0.0.1'', pi_Protocol = EffectiveProtocol spec\<rparr>"

definition remoteSet :: "PortInfo list \<Rightarrow> (string \<times> PortForwardSpec) list \<Rightarrow> (string \<times> PortInfo) list" where
  "remoteSet remotePorts explicitPorts =
     (let detected = foldl (\<lambda>s p. AList.update (portForwardKey (pi_Protocol p) (pi_Port p)) p s) [] remotePorts
      in foldl (\<lambda>s (key, spec). if map_of s key = None then AList.update key (infoOfSpec spec) s else s)
           detected explicitPorts)"

definition explicitOptsForKey :: "(string \<times> PortForwardSpec) list \<Rightarrow> string \<Rightarrow> 32 word \<times> bool" where
  "explicitOptsForKey explicitPorts key =
     (case map_of explicitPorts key of None \<Rightarrow> (0, False) | Some spec \<Rightarrow> (EffectiveLocalPort spec, True))"

text \<open>
  The first critical section stops what is no longer wanted and what is in conflict, and lists what has to be
  started; the sockets are opened outside; the last one enters the new forwards. The relays of a forward that is
  stopped here go on.
\<close>

definition stopWhere :: "(string \<Rightarrow> activePortForward \<Rightarrow> bool) \<Rightarrow> port_daemon \<Rightarrow> port_daemon" where
  "stopWhere P d =
     foldl (\<lambda>d (key, fwd). if P key fwd then forgetForward key (stopForward fwd d) else d) d (pd_portForwards d)"

definition reconcileBegin ::
    "PortInfo list \<Rightarrow> port_daemon \<Rightarrow> (string \<times> PortInfo \<times> 32 word \<times> bool) list \<times> port_daemon" where
  "reconcileBegin remotePorts d =
     (let wanted = remoteSet remotePorts (pd_explicitPorts d);
          d1 = stopWhere (\<lambda>key _. map_of wanted key = None) d;
          d2 = stopWhere (\<lambda>key fwd. pf_conflict fwd \<and> map_of wanted key \<noteq> None) d1;
          toStart = map (\<lambda>(key, p). (key, p, explicitOptsForKey (pd_explicitPorts d) key))
                      (filter (\<lambda>(key, _). map_of (pd_portForwards d2) key = None) wanted)
      in (toStart, d2))"

fun startAll ::
    "(net_query \<Rightarrow> 32 word \<Rightarrow> bool) \<Rightarrow> (string \<times> PortInfo \<times> 32 word \<times> bool) list \<Rightarrow> port_daemon
     \<Rightarrow> (string \<times> activePortForward) list \<times> port_daemon" where
  "startAll foreign [] d = ([], d)"
| "startAll foreign ((key, p, opts) # rest) d =
     (let (fwd, d1) = startPortForward foreign p opts d;
          (fwds, d2) = startAll foreign rest d1
      in ((key, fwd) # fwds, d2))"

definition reconcileEnd :: "(string \<times> activePortForward) list \<Rightarrow> port_daemon \<Rightarrow> port_daemon" where
  "reconcileEnd newForwards d =
     (if pd_closed d then foldl (\<lambda>d (_, fwd). cancelForward fwd d) d newForwards
      else d\<lparr>pd_portForwards := foldl (\<lambda>m (key, fwd). AList.update key fwd m) (pd_portForwards d) newForwards\<rparr>)"

text \<open>\<open>order\<close> is the order in which Go walks the table of the ports to start.\<close>

definition reconcilePortForwards ::
    "((string \<times> PortInfo \<times> 32 word \<times> bool) list \<Rightarrow> (string \<times> PortInfo \<times> 32 word \<times> bool) list)
     \<Rightarrow> (net_query \<Rightarrow> 32 word \<Rightarrow> bool) \<Rightarrow> PortInfo list \<Rightarrow> port_daemon \<Rightarrow> port_daemon" where
  "reconcilePortForwards order foreign remotePorts d =
     (let (toStart, d1) = reconcileBegin remotePorts d;
          (newForwards, d2) = startAll foreign (order toStart) d1
      in reconcileEnd newForwards d2)"

text \<open>The port forwards under \<^verbatim>\<open>teardownForReconnect\<close> and \<^verbatim>\<open>Close\<close>: the ports the user asked for are kept.\<close>

definition teardownPorts :: "port_daemon \<Rightarrow> port_daemon" where
  "teardownPorts d = foldl (\<lambda>d (key, fwd). dropForward key fwd d) d (pd_portForwards d)"

definition closePorts :: "port_daemon \<Rightarrow> port_daemon" where
  "closePorts d = (if pd_closed d then d else teardownPorts (d\<lparr>pd_closed := True\<rparr>))"

definition newPortDaemon :: port_daemon where
  "newPortDaemon = \<lparr>pd_closed = False, pd_portForwards = [], pd_explicitPorts = [], pd_sockets = [], pd_relays = [],
                    pd_nextId = 0\<rparr>"

subsection \<open>The snapshots of the remote side\<close>

definition listeningPortsEqual :: "ListeningPort list \<Rightarrow> ListeningPort list \<Rightarrow> bool" where
  "listeningPortsEqual a b \<longleftrightarrow>
     length a = length b \<and>
     list_all (\<lambda>(x, y). lp_Port x = lp_Port y \<and> lp_Protocol x = lp_Protocol y \<and> lp_Host x = lp_Host y) (zip a b)"

definition listeningPortsToProto :: "ListeningPort list \<Rightarrow> PortInfo list" where
  "listeningPortsToProto ports =
     map (\<lambda>lp. \<lparr>pi_Port = word_of_int (lp_Port lp), pi_Host = lp_Host lp, pi_Protocol = lp_Protocol lp\<rparr>) ports"

text \<open>
  \<^verbatim>\<open>WatchPorts\<close>: the first scan is always sent, empty when it failed; a later one is sent when it succeeded and
  differs from the last one that was sent.
\<close>

fun watchTicks :: "ListeningPort list \<Rightarrow> ListeningPort list option list \<Rightarrow> PortInfo list list" where
  "watchTicks lastPorts [] = []"
| "watchTicks lastPorts (None # scans) = watchTicks lastPorts scans"
| "watchTicks lastPorts (Some ports # scans) =
     (if listeningPortsEqual lastPorts ports then watchTicks lastPorts scans
      else listeningPortsToProto ports # watchTicks ports scans)"

definition WatchPorts :: "ListeningPort list option \<Rightarrow> ListeningPort list option list \<Rightarrow> PortInfo list list" where
  "WatchPorts first scans =
     (let lastPorts = (case first of None \<Rightarrow> [] | Some ports \<Rightarrow> ports)
      in listeningPortsToProto lastPorts # watchTicks lastPorts scans)"

text \<open>
  \<^verbatim>\<open>runPortWatchStream\<close>: a snapshot is reconciled when it arrives; a tick reconciles the last one again, when
  there is one and some forward is in conflict. (A snapshot without ports arrives as nil.)
\<close>

datatype watch_event = Snapshot "PortInfo list" | RetryTick

fun watchStep ::
    "((string \<times> PortInfo \<times> 32 word \<times> bool) list \<Rightarrow> (string \<times> PortInfo \<times> 32 word \<times> bool) list)
     \<Rightarrow> (net_query \<Rightarrow> 32 word \<Rightarrow> bool) \<Rightarrow> watch_event \<Rightarrow> PortInfo list \<times> port_daemon \<Rightarrow> PortInfo list \<times> port_daemon" where
  "watchStep order foreign (Snapshot ports) (lastPorts, d) = (ports, reconcilePortForwards order foreign ports d)"
| "watchStep order foreign RetryTick (lastPorts, d) =
     (lastPorts, if lastPorts \<noteq> [] \<and> hasConflictedForwards d then reconcilePortForwards order foreign lastPorts d else d)"

subsection \<open>Which sockets are open\<close>

definition socketOf :: "activePortForward \<Rightarrow> (bool \<times> 32 word) \<times> nat" where
  "socketOf f = ((pf_protocol f = ProtocolUDP, pf_localPort f), pf_id f)"

definition opens :: "activePortForward set \<Rightarrow> ((bool \<times> 32 word) \<times> nat) set" where
  "opens F = socketOf ` {f \<in> F. \<not> pf_conflict f}"

definition entries :: "port_daemon \<Rightarrow> activePortForward set" where
  "entries d = snd ` set (pd_portForwards d)"

text \<open>
  The sockets are those of the forwards in the table and of the forwards in \<open>E\<close>, which were started and are not
  entered yet; every forward has its own number.
\<close>

definition accounted :: "activePortForward set \<Rightarrow> port_daemon \<Rightarrow> bool" where
  "accounted E d \<longleftrightarrow>
     set (pd_sockets d) = opens (entries d \<union> E) \<and>
     inj_on pf_id (entries d \<union> E) \<and>
     (\<forall>f \<in> entries d \<union> E. pf_id f < pd_nextId d)"

definition fwdKey :: "activePortForward \<Rightarrow> string" where
  "fwdKey f = portForwardKey (pf_protocol f) (pf_remotePort f)"

definition keyed :: "(string \<times> activePortForward) list \<Rightarrow> bool" where
  "keyed m \<longleftrightarrow> distinct (map fst m) \<and> (\<forall>(k, f) \<in> set m. k = fwdKey f)"

definition specKey :: "PortForwardSpec \<Rightarrow> string" where
  "specKey spec = portForwardKey (EffectiveProtocol spec) (ps_RemotePort spec)"

definition specs_keyed :: "(string \<times> PortForwardSpec) list \<Rightarrow> bool" where
  "specs_keyed m \<longleftrightarrow> distinct (map fst m) \<and> (\<forall>(k, spec) \<in> set m. k = specKey spec)"

text \<open>A forward is as the user asked for it, or is an automatic one on the port of the remote side.\<close>

definition as_asked :: "(string \<times> PortForwardSpec) list \<Rightarrow> activePortForward \<Rightarrow> bool" where
  "as_asked asked f \<longleftrightarrow>
     (pf_localPort f, pf_explicit f) =
       (case map_of asked (fwdKey f) of None \<Rightarrow> (pf_remotePort f, False) | Some spec \<Rightarrow> (EffectiveLocalPort spec, True))"

definition ports_inv :: "port_daemon \<Rightarrow> bool" where
  "ports_inv d \<longleftrightarrow>
     accounted {} d \<and> keyed (pd_portForwards d) \<and> specs_keyed (pd_explicitPorts d) \<and>
     (\<forall>f \<in> entries d. as_asked (pd_explicitPorts d) f) \<and>
     (pd_closed d \<longrightarrow> pd_portForwards d = [])"

lemma opens_insert: "opens (insert f F) = (if pf_conflict f then opens F else insert (socketOf f) (opens F))"
  by (auto simp: opens_def)

lemma opens_remove:
  "\<forall>g \<in> A. pf_id g \<noteq> pf_id f \<Longrightarrow> {s \<in> opens (insert f A). snd s \<noteq> pf_id f} = opens A"
  by (auto simp: opens_def socketOf_def)

lemma accounted_start:
  assumes acc: "accounted E d" and start: "startPortForward foreign p opts d = (f, d')"
  shows "accounted (insert f E) d'" and "pf_id f = pd_nextId d" and "pd_nextId d' = pd_nextId d + 1"
    and "pd_portForwards d' = pd_portForwards d" and "pd_explicitPorts d' = pd_explicitPorts d"
    and "pd_closed d' = pd_closed d"
proof -
  show same: "pf_id f = pd_nextId d" "pd_nextId d' = pd_nextId d + 1" "pd_portForwards d' = pd_portForwards d"
    "pd_explicitPorts d' = pd_explicitPorts d" "pd_closed d' = pd_closed d"
    using start by (auto simp: startPortForward_def Let_def split: if_splits)
  have entries: "entries d' = entries d"
    using same by (simp add: entries_def)
  have socks: "set (pd_sockets d') = (if pf_conflict f then set (pd_sockets d) else insert (socketOf f) (set (pd_sockets d)))"
    using start by (auto simp: startPortForward_def Let_def socketOf_def split: if_splits)
  have fresh: "\<forall>g \<in> entries d \<union> E. pf_id g < pf_id f"
    using acc same by (simp add: accounted_def)
  have "inj_on pf_id (insert f (entries d \<union> E))"
  proof -
    have "pf_id f \<notin> pf_id ` (entries d \<union> E)"
      using fresh by force
    then show ?thesis
      using acc by (auto simp: accounted_def inj_on_insert)
  qed
  then show "accounted (insert f E) d'"
    using acc fresh entries socks same(1,2) by (auto simp: accounted_def opens_insert less_Suc_eq)
qed

text \<open>What a start makes of an element of the list of ports to start.\<close>

definition started :: "string \<times> PortInfo \<times> 32 word \<times> bool \<Rightarrow> string \<times> activePortForward \<Rightarrow> bool" where
  "started s e \<longleftrightarrow>
     (case s of (key, p, lp, ex) \<Rightarrow>
        fst e = key \<and> pf_remotePort (snd e) = pi_Port p \<and> pf_protocol (snd e) = pi_Protocol p \<and>
        pf_localPort (snd e) = (if lp \<noteq> 0 then lp else pi_Port p) \<and> pf_explicit (snd e) = ex)"

lemma started_start: "startPortForward foreign p opts d = (f, d') \<Longrightarrow> started (key, p, opts) (key, f)"
  by (cases opts) (auto simp: startPortForward_def Let_def started_def split: if_splits)

lemma startAll_accounted:
  assumes "accounted E d" "startAll foreign xs d = (fs, d')"
  shows "accounted (E \<union> snd ` set fs) d' \<and> list_all2 started xs fs \<and> distinct (map (\<lambda>e. pf_id (snd e)) fs) \<and>
    (\<forall>f \<in> snd ` set fs. pd_nextId d \<le> pf_id f) \<and>
    pd_portForwards d' = pd_portForwards d \<and> pd_explicitPorts d' = pd_explicitPorts d \<and> pd_closed d' = pd_closed d"
  using assms
proof (induction foreign xs d arbitrary: E fs d' rule: startAll.induct)
  case (2 foreign key p opts rest d)
  obtain f d1 where start: "startPortForward foreign p opts d = (f, d1)"
    by (cases "startPortForward foreign p opts d")
  obtain gs where rest: "startAll foreign rest d1 = (gs, d')" and fs: "fs = (key, f) # gs"
    using "2.prems"(2) start by (auto split: prod.splits)
  note step = accounted_start [OF "2.prems"(1) start]
  have ih: "accounted (insert f E \<union> snd ` set gs) d' \<and> list_all2 started rest gs \<and> distinct (map (\<lambda>e. pf_id (snd e)) gs) \<and>
    (\<forall>f \<in> snd ` set gs. pd_nextId d1 \<le> pf_id f) \<and>
    pd_portForwards d' = pd_portForwards d1 \<and> pd_explicitPorts d' = pd_explicitPorts d1 \<and> pd_closed d' = pd_closed d1"
    by (rule "2.IH" [OF start [symmetric] refl step(1) rest])
  have E: "E \<union> snd ` set fs = insert f E \<union> snd ` set gs"
    by (auto simp: fs)
  have above: "\<forall>g \<in> snd ` set gs. pd_nextId d + 1 \<le> pf_id g"
    using ih step by simp
  have "distinct (map (\<lambda>e. pf_id (snd e)) fs)" "\<forall>g \<in> snd ` set fs. pd_nextId d \<le> pf_id g"
    using ih step(2) above by (force simp: fs)+
  then show ?case
    using ih step started_start [OF start, of key] unfolding E by (simp add: fs)
qed auto

lemma accounted_cancel:
  assumes acc: "accounted (insert f E) d" and new: "f \<notin> E" "f \<notin> entries d"
  shows "accounted E (cancelForward f d)"
proof -
  let ?A = "entries d \<union> E"
  have other: "\<forall>g \<in> ?A. pf_id g \<noteq> pf_id f"
    using acc new by (auto simp: accounted_def inj_on_def)
  have "set (pd_sockets (cancelForward f d)) = {s \<in> opens (insert f ?A). snd s \<noteq> pf_id f}"
    using acc by (auto simp: cancelForward_def stopForward_def accounted_def)
  also have "\<dots> = opens ?A"
    by (rule opens_remove [OF other])
  finally show ?thesis
    using acc by (auto simp: accounted_def cancelForward_def stopForward_def entries_def inj_on_def)
qed

lemma accounted_stop_forget:
  assumes acc: "accounted {} d" and keyed: "keyed (pd_portForwards d)" and mem: "(key, f) \<in> set (pd_portForwards d)"
  shows "accounted {} (forgetForward key (stopForward f d))"
proof -
  let ?A = "snd ` set (AList.delete key (pd_portForwards d))"
  have rest: "set (AList.delete key (pd_portForwards d)) = {e \<in> set (pd_portForwards d). fst e \<noteq> key}"
    unfolding AList.delete_eq by auto
  have only: "g = f" if "(key, g) \<in> set (pd_portForwards d)" for g
    using that mem keyed by (auto simp: keyed_def intro: eq_key_imp_eq_value)
  have cover: "e = (key, f) \<or> e \<in> set (AList.delete key (pd_portForwards d))" if "e \<in> set (pd_portForwards d)" for e
  proof (cases "fst e = key")
    case True
    then have "e = (key, snd e)"
      by (simp add: prod_eq_iff)
    then show ?thesis
      using that only by metis
  qed (simp add: rest that)
  have "set (pd_portForwards d) = insert (key, f) (set (AList.delete key (pd_portForwards d)))"
    by (rule set_eqI, rule iffI) (simp_all add: cover, auto simp: mem rest)
  from arg_cong [OF this, of "image snd"] have split: "entries d = insert f ?A"
    by (simp only: entries_def image_insert snd_conv)
  have "key = fwdKey f" "\<And>k. (k, f) \<in> set (pd_portForwards d) \<Longrightarrow> k = fwdKey f"
    using keyed mem by (auto simp: keyed_def)
  then have "f \<notin> ?A"
    unfolding rest by force
  then have other: "\<forall>g \<in> ?A. pf_id g \<noteq> pf_id f"
    using acc unfolding accounted_def split by (metis Un_empty_right inj_on_contraD insertCI)
  have "set (pd_sockets (stopForward f d)) = {s \<in> opens (insert f ?A). snd s \<noteq> pf_id f}"
    using acc split by (auto simp: stopForward_def accounted_def)
  also have "\<dots> = opens ?A"
    by (rule opens_remove [OF other])
  finally have socks: "set (pd_sockets (stopForward f d)) = opens ?A" .
  have same: "entries (forgetForward key (stopForward f d)) = ?A"
    "pd_nextId (forgetForward key (stopForward f d)) = pd_nextId d"
    "pd_sockets (forgetForward key (stopForward f d)) = pd_sockets (stopForward f d)"
    by (simp_all add: entries_def forgetForward_def stopForward_def)
  show ?thesis
    using acc socks unfolding accounted_def same split Un_empty_right by (simp add: inj_on_insert)
qed

lemma portForwardKey_inject [simp]:
  "portForwardKey protocol port = portForwardKey protocol' port' \<longleftrightarrow> protocol = protocol' \<and> port = port'"
proof
  assume "portForwardKey protocol port = portForwardKey protocol' port'"
  then have "CutLast CHR '':'' (protocol @ CHR '':'' # utoa (unat port)) =
    CutLast CHR '':'' (protocol' @ CHR '':'' # utoa (unat port'))"
    by (simp add: portForwardKey_def)
  then have "protocol = protocol' \<and> utoa (unat port) = utoa (unat port')"
    by (simp add: CutLast_append utoa_plain)
  then show "protocol = protocol' \<and> port = port'"
    by (simp add: utoa_inject word_unat_eq_iff)
qed simp

lemma accounted_relays [simp]: "accounted E (d\<lparr>pd_relays := r\<rparr>) = accounted E d"
  by (simp add: accounted_def entries_def)

text \<open>Taking forwards out of the table, one after the other.\<close>

lemma delete_filter: "AList.delete k m = filter (\<lambda>e. fst e \<noteq> k) m"
  by (auto simp: AList.delete_eq intro!: filter_cong)

lemma dropping_fold:
  assumes step: "\<And>k f d. pd_portForwards (step k f d) = AList.delete k (pd_portForwards d) \<and>
      pd_explicitPorts (step k f d) = pd_explicitPorts d \<and> pd_closed (step k f d) = pd_closed d"
    and acc: "\<And>k f d. accounted {} d \<Longrightarrow> keyed (pd_portForwards d) \<Longrightarrow> (k, f) \<in> set (pd_portForwards d) \<Longrightarrow>
      accounted {} (step k f d)"
  shows "\<lbrakk>accounted {} d; keyed (pd_portForwards d); set xs \<subseteq> set (pd_portForwards d); distinct (map fst xs)\<rbrakk> \<Longrightarrow>
    d' = foldl (\<lambda>d (k, f). if P k f then step k f d else d) d xs \<Longrightarrow>
    accounted {} d' \<and>
    pd_portForwards d' = filter (\<lambda>e. \<not> (e \<in> set xs \<and> P (fst e) (snd e))) (pd_portForwards d) \<and>
    pd_explicitPorts d' = pd_explicitPorts d \<and> pd_closed d' = pd_closed d"
proof (induction xs arbitrary: d)
  case (Cons x xs)
  obtain k f where x: "x = (k, f)"
    by (cases x)
  let ?d = "if P k f then step k f d else d"
  have mem: "(k, f) \<in> set (pd_portForwards d)"
    using Cons.prems x by simp
  have only: "e = (k, f)" if "e \<in> set (pd_portForwards d)" "fst e = k" for e
    using that mem Cons.prems(2) eq_key_imp_eq_value [of "pd_portForwards d" k "snd e" f]
    by (cases e) (auto simp: keyed_def)
  have fwds: "pd_portForwards ?d = filter (\<lambda>e. \<not> (e = x \<and> P (fst e) (snd e))) (pd_portForwards d)"
  proof (cases "P k f")
    case True
    have "filter (\<lambda>e. fst e \<noteq> k) (pd_portForwards d) = filter (\<lambda>e. \<not> (e = x \<and> P (fst e) (snd e))) (pd_portForwards d)"
      by (rule filter_cong [OF refl]) (metis True fst_conv only snd_conv x)
    then show ?thesis
      using True by (simp add: step delete_filter)
  next
    case False
    then show ?thesis
      by (simp add: x filter_id_conv)
  qed
  have "accounted {} ?d" "keyed (pd_portForwards ?d)"
    using Cons.prems acc [OF _ _ mem] unfolding fwds by (auto simp: keyed_def distinct_map_filter)
  moreover have "set xs \<subseteq> set (pd_portForwards ?d)"
    using Cons.prems(3,4) unfolding fwds by (auto simp: x image_iff)
  ultimately have "accounted {} d' \<and>
    pd_portForwards d' = filter (\<lambda>e. \<not> (e \<in> set xs \<and> P (fst e) (snd e))) (pd_portForwards ?d) \<and>
    pd_explicitPorts d' = pd_explicitPorts ?d \<and> pd_closed d' = pd_closed ?d"
    using Cons.prems(4,5) x by (intro Cons.IH) (simp_all add: x)
  then show ?case
    unfolding fwds by (auto simp: step intro!: filter_cong split: if_splits)
qed simp

lemma stopWhere_accounted:
  assumes "accounted {} d" "keyed (pd_portForwards d)"
  shows "accounted {} (stopWhere P d)"
    and "pd_portForwards (stopWhere P d) = filter (\<lambda>e. \<not> P (fst e) (snd e)) (pd_portForwards d)"
    and "pd_explicitPorts (stopWhere P d) = pd_explicitPorts d" and "pd_closed (stopWhere P d) = pd_closed d"
proof -
  have "accounted {} (stopWhere P d) \<and>
    pd_portForwards (stopWhere P d) =
      filter (\<lambda>e. \<not> (e \<in> set (pd_portForwards d) \<and> P (fst e) (snd e))) (pd_portForwards d) \<and>
    pd_explicitPorts (stopWhere P d) = pd_explicitPorts d \<and> pd_closed (stopWhere P d) = pd_closed d"
    using assms
    by (intro dropping_fold [where step = "\<lambda>k f d. forgetForward k (stopForward f d)" and P = P
          and xs = "pd_portForwards d"])
      (auto simp: stopWhere_def forgetForward_def stopForward_def keyed_def
        intro: accounted_stop_forget [unfolded forgetForward_def stopForward_def, simplified])
  then show "accounted {} (stopWhere P d)"
    "pd_portForwards (stopWhere P d) = filter (\<lambda>e. \<not> P (fst e) (snd e)) (pd_portForwards d)"
    "pd_explicitPorts (stopWhere P d) = pd_explicitPorts d" "pd_closed (stopWhere P d) = pd_closed d"
    by (auto intro!: filter_cong)
qed

lemma dropForward_eq: "dropForward k f d = (forgetForward k (stopForward f d))\<lparr>pd_relays := removeAll (pf_id f) (pd_relays d)\<rparr>"
  by (simp add: dropForward_def cancelForward_def forgetForward_def stopForward_def)

lemma accounted_drop:
  "accounted {} d \<Longrightarrow> keyed (pd_portForwards d) \<Longrightarrow> (key, f) \<in> set (pd_portForwards d) \<Longrightarrow> accounted {} (dropForward key f d)"
  by (simp add: dropForward_eq accounted_stop_forget)

lemma dropForward_fields [simp]:
  "pd_portForwards (dropForward k f d) = AList.delete k (pd_portForwards d)"
  "pd_explicitPorts (dropForward k f d) = pd_explicitPorts d"
  "pd_closed (dropForward k f d) = pd_closed d"
  by (simp_all add: dropForward_eq forgetForward_def stopForward_def)

lemma teardownPorts_accounted:
  assumes "accounted {} d" "keyed (pd_portForwards d)"
  shows "accounted {} (teardownPorts d)" and "pd_portForwards (teardownPorts d) = []"
    and "pd_explicitPorts (teardownPorts d) = pd_explicitPorts d" and "pd_closed (teardownPorts d) = pd_closed d"
proof -
  have "accounted {} (teardownPorts d) \<and>
    pd_portForwards (teardownPorts d) =
      filter (\<lambda>e. \<not> (e \<in> set (pd_portForwards d) \<and> True)) (pd_portForwards d) \<and>
    pd_explicitPorts (teardownPorts d) = pd_explicitPorts d \<and> pd_closed (teardownPorts d) = pd_closed d"
    using assms
    by (intro dropping_fold [where step = dropForward and P = "\<lambda>_ _. True" and xs = "pd_portForwards d"])
      (auto simp: teardownPorts_def keyed_def intro: accounted_drop [unfolded keyed_def])
  then show "accounted {} (teardownPorts d)" "pd_portForwards (teardownPorts d) = []"
    "pd_explicitPorts (teardownPorts d) = pd_explicitPorts d" "pd_closed (teardownPorts d) = pd_closed d"
    by auto
qed

definition infoKey :: "PortInfo \<Rightarrow> string" where
  "infoKey p = portForwardKey (pi_Protocol p) (pi_Port p)"

text \<open>The ports that should be forwarded, as a table from keys to ports.\<close>

definition infos_keyed :: "(string \<times> PortInfo) list \<Rightarrow> bool" where
  "infos_keyed m \<longleftrightarrow> distinct (map fst m) \<and> (\<forall>(k, p) \<in> set m. k = infoKey p)"

lemma update_new: "k \<notin> fst ` set m \<Longrightarrow> AList.update k v m = m @ [(k, v)]"
  by (induction m) auto

lemma set_update: "distinct (map fst m) \<Longrightarrow> set (AList.update k v m) = insert (k, v) {e \<in> set m. fst e \<noteq> k}"
  by (induction m) (auto simp: image_iff)

lemma infos_keyed_update:
  "infos_keyed m \<Longrightarrow> k = infoKey p \<Longrightarrow> infos_keyed (AList.update k p m) \<and> fst ` set (AList.update k p m) = insert k (fst ` set m)"
  by (auto simp: infos_keyed_def set_update distinct_update dom_update)

lemma remoteSet_detected:
  "infos_keyed m \<Longrightarrow>
   infos_keyed (foldl (\<lambda>s p. AList.update (portForwardKey (pi_Protocol p) (pi_Port p)) p s) m ports) \<and>
   fst ` set (foldl (\<lambda>s p. AList.update (portForwardKey (pi_Protocol p) (pi_Port p)) p s) m ports) =
     fst ` set m \<union> infoKey ` set ports"
proof (induction ports arbitrary: m)
  case (Cons p ports)
  have m: "infos_keyed (AList.update (infoKey p) p m) \<and> fst ` set (AList.update (infoKey p) p m) = insert (infoKey p) (fst ` set m)"
    by (rule infos_keyed_update [OF Cons.prems refl])
  show ?case
    using Cons.IH m by (simp add: infoKey_def)
qed simp

lemma remoteSet_explicit:
  "infos_keyed m \<Longrightarrow> \<forall>(k, spec) \<in> set asked. k = specKey spec \<Longrightarrow>
   infos_keyed (foldl (\<lambda>s (key, spec). if map_of s key = None then AList.update key (infoOfSpec spec) s else s) m asked) \<and>
   fst ` set (foldl (\<lambda>s (key, spec). if map_of s key = None then AList.update key (infoOfSpec spec) s else s) m asked) =
     fst ` set m \<union> fst ` set asked"
proof (induction asked arbitrary: m)
  case (Cons a asked)
  obtain key spec where a: "a = (key, spec)"
    by (cases a)
  have "key = infoKey (infoOfSpec spec)"
    using Cons.prems(2) by (simp add: a infoKey_def infoOfSpec_def specKey_def)
  note upd = infos_keyed_update [OF Cons.prems(1) this]
  obtain m' where m': "m' = (if map_of m key = None then AList.update key (infoOfSpec spec) m else m)"
    by blast
  have next_m: "infos_keyed m'" "fst ` set m' = insert key (fst ` set m)"
    using upd Cons.prems(1) by (auto simp: m' map_of_eq_None_iff insert_absorb)
  have "\<forall>(k, spec) \<in> set asked. k = specKey spec"
    using Cons.prems(2) by simp
  from Cons.IH [OF next_m(1) this] show ?case
    by (simp add: a m' [symmetric] next_m(2))
qed simp

lemma remoteSet_keyed:
  assumes "specs_keyed asked"
  shows "infos_keyed (remoteSet ports asked)" and "fst ` set (remoteSet ports asked) = infoKey ` set ports \<union> fst ` set asked"
proof -
  have "infos_keyed []"
    by (simp add: infos_keyed_def)
  note detected = remoteSet_detected [OF this, of ports]
  note all = remoteSet_explicit [OF conjunct1 [OF detected], of asked]
  show "infos_keyed (remoteSet ports asked)" "fst ` set (remoteSet ports asked) = infoKey ` set ports \<union> fst ` set asked"
    using all detected assms by (simp_all add: remoteSet_def specs_keyed_def Let_def)
qed

text \<open>What the first critical section of a reconciliation leaves.\<close>

definition to_start :: "(string \<times> PortForwardSpec) list \<Rightarrow> string \<times> PortInfo \<times> 32 word \<times> bool \<Rightarrow> bool" where
  "to_start asked s \<longleftrightarrow> (case s of (key, p, opts) \<Rightarrow> key = infoKey p \<and> opts = explicitOptsForKey asked key)"

lemma reconcileBegin_facts:
  assumes inv: "ports_inv d" and begin_eq: "reconcileBegin ports d = (toStart, d2)"
  shows "accounted {} d2" and "keyed (pd_portForwards d2)" and "entries d2 \<subseteq> entries d"
    and "pd_explicitPorts d2 = pd_explicitPorts d" and "pd_closed d2 = pd_closed d"
    and "distinct (map fst toStart)" and "\<forall>s \<in> set toStart. to_start (pd_explicitPorts d) s"
    and "fst ` set toStart \<inter> fst ` set (pd_portForwards d2) = {}"
    and "fst ` set toStart \<union> fst ` set (pd_portForwards d2) = infoKey ` set ports \<union> fst ` set (pd_explicitPorts d)"
proof -
  let ?wanted = "remoteSet ports (pd_explicitPorts d)"
  let ?P = "\<lambda>key (_ :: activePortForward). map_of ?wanted key = None"
  let ?Q = "\<lambda>key fwd. pf_conflict fwd \<and> map_of ?wanted key \<noteq> None"
  have acc: "accounted {} d" and keyed: "keyed (pd_portForwards d)" and specs: "specs_keyed (pd_explicitPorts d)"
    using inv by (simp_all add: ports_inv_def)
  have d2: "d2 = stopWhere ?Q (stopWhere ?P d)"
    and toStart: "toStart = map (\<lambda>(key, p). (key, p, explicitOptsForKey (pd_explicitPorts d) key))
      (filter (\<lambda>(key, _). map_of (pd_portForwards d2) key = None) ?wanted)"
    using begin_eq by (auto simp: reconcileBegin_def Let_def)
  note one = stopWhere_accounted [OF acc keyed, of ?P]
  have keyed1: "keyed (pd_portForwards (stopWhere ?P d))"
    using keyed by (auto simp: one keyed_def distinct_map_filter)
  note two = stopWhere_accounted [OF one(1) keyed1, of ?Q, folded d2]
  have fwds: "set (pd_portForwards d2) = {e \<in> set (pd_portForwards d). map_of ?wanted (fst e) \<noteq> None \<and> \<not> pf_conflict (snd e)}"
    by (auto simp: two one)
  note rs = remoteSet_keyed [OF specs, of ports]
  show "accounted {} d2" "pd_explicitPorts d2 = pd_explicitPorts d" "pd_closed d2 = pd_closed d" "entries d2 \<subseteq> entries d"
    using two one fwds by (auto simp: entries_def)
  show "keyed (pd_portForwards d2)"
    using keyed1 by (auto simp: two(2) keyed_def distinct_map_filter)
  have "map fst toStart = map fst (filter (\<lambda>(key, _). map_of (pd_portForwards d2) key = None) ?wanted)"
    unfolding toStart by (simp add: comp_def case_prod_beta)
  then show "distinct (map fst toStart)"
    using rs(1) by (simp add: infos_keyed_def distinct_map_filter)
  show "\<forall>s \<in> set toStart. to_start (pd_explicitPorts d) s"
    using rs(1) by (auto simp: toStart to_start_def infos_keyed_def)
  have keys: "fst ` set toStart = {k \<in> fst ` set ?wanted. k \<notin> fst ` set (pd_portForwards d2)}"
    unfolding toStart by (force simp: map_of_eq_None_iff)
  then show "fst ` set toStart \<inter> fst ` set (pd_portForwards d2) = {}"
    by blast
  have "fst ` set (pd_portForwards d2) \<subseteq> fst ` set ?wanted"
    using fwds by (auto simp: map_of_eq_None_iff)
  then show "fst ` set toStart \<union> fst ` set (pd_portForwards d2) = infoKey ` set ports \<union> fst ` set (pd_explicitPorts d)"
    using keys rs(2) by auto
qed

lemma started_as_asked:
  assumes "started s e" "to_start asked s" "specs_keyed asked"
  shows "fst e = fwdKey (snd e)" and "as_asked asked (snd e)"
proof -
  obtain key p lp ex where s: "s = (key, p, lp, ex)"
    by (cases s)
  have key: "key = infoKey p" "fst e = key" "pf_remotePort (snd e) = pi_Port p" "pf_protocol (snd e) = pi_Protocol p"
    and opts: "(lp, ex) = explicitOptsForKey asked key"
    and local: "pf_localPort (snd e) = (if lp \<noteq> 0 then lp else pi_Port p)" "pf_explicit (snd e) = ex"
    using assms by (auto simp: s started_def to_start_def)
  show fk: "fst e = fwdKey (snd e)"
    using key by (simp add: fwdKey_def infoKey_def)
  show "as_asked asked (snd e)"
  proof (cases "map_of asked key")
    case None
    then show ?thesis
      using opts local key fk by (simp add: as_asked_def explicitOptsForKey_def)
  next
    case (Some spec)
    then have "key = specKey spec"
      using assms(3) by (auto simp: specs_keyed_def dest: map_of_SomeD)
    then have "pi_Port p = ps_RemotePort spec"
      using key by (simp add: infoKey_def specKey_def)
    then have "EffectiveLocalPort spec = 0 \<Longrightarrow> pi_Port p = 0"
      by (simp add: EffectiveLocalPort_def split: if_splits)
    then show ?thesis
      using Some opts local key(2) fk by (simp add: as_asked_def explicitOptsForKey_def)
  qed
qed

lemma foldl_update_new:
  "distinct (map fst new) \<Longrightarrow> fst ` set new \<inter> fst ` set m = {} \<Longrightarrow>
   foldl (\<lambda>m (key, fwd). AList.update key fwd m) m new = m @ new"
proof (induction new arbitrary: m)
  case (Cons e new)
  obtain k f where e: "e = (k, f)"
    by (cases e)
  have "AList.update k f m = m @ [(k, f)]"
    using Cons.prems(2) by (intro update_new) (auto simp: e)
  then show ?case
    using Cons.IH [of "m @ [(k, f)]"] Cons.prems by (auto simp: e)
qed simp

lemma cancel_all:
  "accounted (snd ` set new) d \<Longrightarrow> pd_portForwards d = [] \<Longrightarrow> distinct (map (\<lambda>e. pf_id (snd e)) new) \<Longrightarrow>
   d' = foldl (\<lambda>d (_, fwd). cancelForward fwd d) d new \<Longrightarrow>
   accounted {} d' \<and> pd_portForwards d' = [] \<and> pd_explicitPorts d' = pd_explicitPorts d \<and> pd_closed d' = pd_closed d"
proof (induction new arbitrary: d)
  case (Cons e new)
  have "accounted (snd ` set new) (cancelForward (snd e) d)"
  proof (rule accounted_cancel)
    show "accounted (insert (snd e) (snd ` set new)) d" "snd e \<notin> entries d"
      using Cons.prems by (simp_all add: entries_def)
    have "pf_id (snd e) \<notin> pf_id ` snd ` set new"
      using Cons.prems(3) by (simp add: image_image)
    then show "snd e \<notin> snd ` set new"
      by blast
  qed
  moreover have "pd_portForwards (cancelForward (snd e) d) = []" "pd_explicitPorts (cancelForward (snd e) d) = pd_explicitPorts d"
    "pd_closed (cancelForward (snd e) d) = pd_closed d"
    using Cons.prems(2) by (simp_all add: cancelForward_def stopForward_def)
  ultimately show ?case
    using Cons.IH [of "cancelForward (snd e) d"] Cons.prems(3,4) by (simp add: case_prod_beta)
qed simp

lemma list_all2_started_keys: "list_all2 started xs fs \<Longrightarrow> map fst fs = map fst xs"
  by (induction rule: list_all2_induct) (auto simp: started_def)

lemma list_all2_in_set: "list_all2 P xs ys \<Longrightarrow> y \<in> set ys \<Longrightarrow> \<exists>x \<in> set xs. P x y"
  by (induction rule: list_all2_induct) auto

definition permuting :: "('a list \<Rightarrow> 'a list) \<Rightarrow> bool" where
  "permuting order \<longleftrightarrow> (\<forall>xs. mset (order xs) = mset xs)"

lemma permutingD:
  assumes "permuting order"
  shows "set (order xs) = set xs" and "distinct (map f (order xs)) = distinct (map f xs)"
proof -
  have *: "mset (order xs) = mset xs"
    using assms by (simp add: permuting_def)
  show "set (order xs) = set xs"
    by (rule mset_eq_setD [OF *])
  have "mset (map f (order xs)) = mset (map f xs)"
    by (simp add: *)
  then show "distinct (map f (order xs)) = distinct (map f xs)"
    by (rule mset_eq_imp_distinct_iff)
qed

lemma reconcile_facts:
  assumes inv: "ports_inv d" and order: "permuting order" and d': "d' = reconcilePortForwards order foreign ports d"
  shows "ports_inv d'" and "pd_explicitPorts d' = pd_explicitPorts d"
    and "\<not> pd_closed d \<Longrightarrow> fst ` set (pd_portForwards d') = infoKey ` set ports \<union> fst ` set (pd_explicitPorts d)"
proof -
  obtain toStart d2 where b: "reconcileBegin ports d = (toStart, d2)"
    by (cases "reconcileBegin ports d")
  obtain new d3 where s: "startAll foreign (order toStart) d2 = (new, d3)"
    by (cases "startAll foreign (order toStart) d2")
  have d'_eq: "d' = reconcileEnd new d3"
    by (simp add: d' reconcilePortForwards_def b s)
  note fs = reconcileBegin_facts [OF inv b]
  have st: "accounted (snd ` set new) d3" "list_all2 started (order toStart) new" "distinct (map (\<lambda>e. pf_id (snd e)) new)"
    and same: "pd_portForwards d3 = pd_portForwards d2" "pd_explicitPorts d3 = pd_explicitPorts d" "pd_closed d3 = pd_closed d"
    using startAll_accounted [OF fs(1) s] fs(4,5) by auto
  have keys: "map fst new = map fst (order toStart)"
    by (rule list_all2_started_keys [OF st(2)])
  then have new_keys: "fst ` set new = fst ` set toStart" "distinct (map fst new)"
    using fs(6) permutingD(1) [OF order] permutingD(2) [OF order, of fst toStart] by (metis set_map, simp)
  have specs: "specs_keyed (pd_explicitPorts d)"
    using inv by (simp add: ports_inv_def)
  have asked: "fst e = fwdKey (snd e) \<and> as_asked (pd_explicitPorts d) (snd e)" if mem: "e \<in> set new" for e
  proof -
    obtain x where "x \<in> set (order toStart)" "started x e"
      using list_all2_in_set [OF st(2) mem] by blast
    then show ?thesis
      using started_as_asked [OF _ _ specs] fs(7) permutingD [OF order] by metis
  qed
  show "ports_inv d'" "pd_explicitPorts d' = pd_explicitPorts d"
    "\<not> pd_closed d \<Longrightarrow> fst ` set (pd_portForwards d') = infoKey ` set ports \<union> fst ` set (pd_explicitPorts d)"
  proof (atomize (full), cases "pd_closed d")
    case True
    then have "pd_portForwards d3 = []"
      using inv fs(3) same by (auto simp: ports_inv_def entries_def)
    then show "ports_inv d' \<and> pd_explicitPorts d' = pd_explicitPorts d \<and>
      (\<not> pd_closed d \<longrightarrow> fst ` set (pd_portForwards d') = infoKey ` set ports \<union> fst ` set (pd_explicitPorts d))"
      using cancel_all [OF st(1) _ st(3) refl] same True specs
      by (simp add: d'_eq reconcileEnd_def ports_inv_def keyed_def entries_def)
  next
    case False
    then have d'_fwds: "pd_portForwards d' = pd_portForwards d2 @ new" "pd_explicitPorts d' = pd_explicitPorts d"
      "pd_closed d' = pd_closed d" "pd_sockets d' = pd_sockets d3" "pd_nextId d' = pd_nextId d3"
      using foldl_update_new [OF new_keys(2), of "pd_portForwards d2"] fs(8) new_keys(1) same
      by (simp_all add: d'_eq reconcileEnd_def)
    have entries: "entries d' = entries d2 \<union> snd ` set new" "entries d3 = entries d2"
      by (simp_all add: entries_def d'_fwds same image_Un)
    have "accounted {} d'"
      using st(1) by (simp add: accounted_def entries d'_fwds)
    moreover have "keyed (pd_portForwards d')"
      using fs(2,8) new_keys asked by (auto simp: keyed_def d'_fwds)
    moreover have "\<forall>f \<in> entries d'. as_asked (pd_explicitPorts d') f"
      using asked fs(3) inv by (auto simp: entries d'_fwds ports_inv_def)
    ultimately show "ports_inv d' \<and> pd_explicitPorts d' = pd_explicitPorts d \<and>
      (\<not> pd_closed d \<longrightarrow> fst ` set (pd_portForwards d') = infoKey ` set ports \<union> fst ` set (pd_explicitPorts d))"
      using False specs fs(9) new_keys(1) by (auto simp: ports_inv_def d'_fwds image_Un)
  qed
qed

lemma as_asked_other: "fwdKey f \<noteq> key \<Longrightarrow> as_asked (AList.update key spec asked) f = as_asked asked f"
  "fwdKey f \<noteq> key \<Longrightarrow> as_asked (AList.delete key asked) f = as_asked asked f"
  by (simp_all add: as_asked_def update_conv' delete_conv')

lemma asked_elsewhere:
  "\<forall>f. fwdKey f \<noteq> key \<longrightarrow> as_asked (AList.update key spec asked) f = as_asked asked f"
  "\<forall>f. fwdKey f \<noteq> key \<longrightarrow> as_asked (AList.delete key asked) f = as_asked asked f"
  by (simp_all add: as_asked_other)

lemma specs_keyed_update: "specs_keyed m \<Longrightarrow> specs_keyed (AList.update (specKey spec) spec m)"
  by (auto simp: specs_keyed_def set_update distinct_update)

lemma specs_keyed_delete: "specs_keyed m \<Longrightarrow> specs_keyed (AList.delete key m)"
  by (auto simp: specs_keyed_def delete_filter distinct_map_filter)

lemma accounted_image:
  assumes "accounted {} d" and h: "\<And>f. socketOf (h f) = socketOf f \<and> pf_id (h f) = pf_id f \<and> pf_conflict (h f) = pf_conflict f"
    and "entries d' = h ` entries d" "pd_sockets d' = pd_sockets d" "pd_nextId d' = pd_nextId d"
  shows "accounted {} d'"
proof -
  have "opens (h ` entries d) = opens (entries d)"
  proof -
    have "{f \<in> h ` entries d. \<not> pf_conflict f} = h ` {f \<in> entries d. \<not> pf_conflict f}"
      by (auto simp: h)
    then show ?thesis
      by (simp add: opens_def image_image h)
  qed
  moreover have "inj_on pf_id (h ` entries d)"
    using assms(1) by (auto simp: accounted_def inj_on_def h)
  ultimately show ?thesis
    using assms by (simp add: accounted_def)
qed

lemma keyed_entries:
  assumes "keyed m" "map_of m key = Some f"
  shows "fwdKey f = key" and "(key, f) \<in> set m" and "\<forall>e \<in> set m. fst e = key \<longrightarrow> snd e = f"
    and "\<forall>g \<in> snd ` set (AList.delete key m). fwdKey g \<noteq> key"
    and "keyed (AList.delete key m)"
proof -
  have dist: "distinct (map fst m)" and keys: "\<And>k g. (k, g) \<in> set m \<Longrightarrow> k = fwdKey g"
    using assms(1) by (auto simp: keyed_def)
  show mem: "(key, f) \<in> set m"
    using assms(2) by (rule map_of_SomeD)
  show "fwdKey f = key"
    using keys [OF mem] by simp
  show "\<forall>e \<in> set m. fst e = key \<longrightarrow> snd e = f"
    using eq_key_imp_eq_value [OF dist _ mem] by auto
  show "\<forall>g \<in> snd ` set (AList.delete key m). fwdKey g \<noteq> key" "keyed (AList.delete key m)"
    using keys dist by (auto simp: keyed_def delete_filter distinct_map_filter)
qed

lemma keyed_none: "keyed m \<Longrightarrow> map_of m key = None \<Longrightarrow> \<forall>g \<in> snd ` set m. fwdKey g \<noteq> key"
  by (force simp: keyed_def map_of_eq_None_iff)

text \<open>Marking an automatic forward as asked for.\<close>

lemma mark_explicit:
  assumes inv: "ports_inv d" and found: "map_of (pd_portForwards d) key = Some f" and key: "key = specKey spec"
    and local: "pf_localPort f = EffectiveLocalPort spec"
    and d': "d' = d\<lparr>pd_explicitPorts := AList.update key spec (pd_explicitPorts d),
      pd_portForwards := AList.update key (f\<lparr>pf_explicit := True\<rparr>) (pd_portForwards d)\<rparr>"
  shows "ports_inv d'"
proof -
  have keyed: "keyed (pd_portForwards d)" and acc: "accounted {} d"
    using inv by (simp_all add: ports_inv_def)
  note k = keyed_entries [OF keyed found]
  let ?h = "\<lambda>g. if g = f then f\<lparr>pf_explicit := True\<rparr> else g"
  have set': "set (pd_portForwards d') = insert (key, f\<lparr>pf_explicit := True\<rparr>) {e \<in> set (pd_portForwards d). fst e \<noteq> key}"
    using keyed by (simp add: d' set_update keyed_def)
  have same_key: "e \<in> set (pd_portForwards d) \<Longrightarrow> snd e = f \<longleftrightarrow> fst e = key" for e
    using keyed k by (auto simp: keyed_def)
  have "entries d' = ?h ` entries d"
  proof -
    have "snd ` {e \<in> set (pd_portForwards d). fst e \<noteq> key} = {g \<in> entries d. g \<noteq> f}"
      unfolding entries_def using same_key by auto
    moreover have "f \<in> entries d"
      using k(2) by (force simp: entries_def)
    ultimately show ?thesis
      by (auto simp: entries_def [of d'] set')
  qed
  then have acc': "accounted {} d'"
    by (rule accounted_image [OF acc, rotated]) (simp_all add: d' socketOf_def)
  have keyed': "keyed (pd_portForwards d')"
    using keyed k(1) unfolding keyed_def set' by (auto simp: d' distinct_update fwdKey_def)
  have asked': "as_asked (pd_explicitPorts d') g" if mem: "g \<in> entries d'" for g
  proof (cases "g = f\<lparr>pf_explicit := True\<rparr>")
    case True
    then show ?thesis
      using k(1) local by (simp add: as_asked_def d' fwdKey_def update_conv')
  next
    case False
    then obtain e where e: "e \<in> set (pd_portForwards d)" "fst e \<noteq> key" "g = snd e"
      using mem by (auto simp: entries_def set')
    then have "fwdKey g \<noteq> key"
      using keyed by (auto simp: keyed_def)
    moreover have "as_asked (pd_explicitPorts d) g"
      using inv e by (auto simp: ports_inv_def entries_def)
    ultimately show ?thesis
      by (simp add: d' as_asked_other)
  qed
  have "pd_closed d' \<longrightarrow> pd_portForwards d' = []"
    using inv found by (auto simp: ports_inv_def d')
  moreover have "specs_keyed (pd_explicitPorts d')"
    using inv by (simp add: ports_inv_def d' key specs_keyed_update)
  ultimately show ?thesis
    using acc' keyed' asked' by (simp add: ports_inv_def)
qed

text \<open>Taking a forward out, whose port is asked for from now on or is asked for no longer.\<close>

definition dropAt :: "string \<Rightarrow> port_daemon \<Rightarrow> port_daemon" where
  "dropAt key d = (case map_of (pd_portForwards d) key of None \<Rightarrow> d | Some f \<Rightarrow> dropForward key f d)"

lemma dropAt_inv:
  assumes inv: "ports_inv d" and asked: "specs_keyed asked"
    and other: "\<forall>f. fwdKey f \<noteq> key \<longrightarrow> as_asked asked f = as_asked (pd_explicitPorts d) f"
    and d': "d' = dropAt key (d\<lparr>pd_explicitPorts := asked\<rparr>)"
  shows "ports_inv d'" and "map_of (pd_portForwards d') key = None" and "pd_explicitPorts d' = asked"
    and "pd_closed d' = pd_closed d"
proof -
  let ?d = "d\<lparr>pd_explicitPorts := asked\<rparr>"
  have keyed: "keyed (pd_portForwards d)" and acc: "accounted {} ?d"
    using inv by (simp_all add: ports_inv_def accounted_def entries_def)
  have fw: "pd_portForwards d' = AList.delete key (pd_portForwards d)"
  proof (cases "map_of (pd_portForwards d) key")
    case None
    then have "AList.delete key (pd_portForwards d) = pd_portForwards d"
      by (auto simp: delete_filter map_of_eq_None_iff intro!: filter_True)
    then show ?thesis
      using None by (simp add: d' dropAt_def)
  qed (simp add: d' dropAt_def)
  show "map_of (pd_portForwards d') key = None" "pd_explicitPorts d' = asked" "pd_closed d' = pd_closed d"
    by (simp_all add: fw delete_conv' d' dropAt_def split: option.split)
  have "accounted {} d'"
    using acc accounted_drop [OF acc] keyed by (auto simp: d' dropAt_def map_of_SomeD split: option.split)
  moreover have "keyed (pd_portForwards d')"
    using keyed by (auto simp: fw keyed_def delete_filter distinct_map_filter)
  moreover have "as_asked asked f" if "f \<in> entries d'" for f
  proof -
    have "f \<in> entries d" "fwdKey f \<noteq> key"
      using that keyed by (auto simp: entries_def fw delete_filter keyed_def)
    then show ?thesis
      using inv other by (simp add: ports_inv_def)
  qed
  moreover have "pd_closed d' \<longrightarrow> pd_portForwards d' = []"
    using inv \<open>pd_closed d' = pd_closed d\<close> by (auto simp: ports_inv_def fw)
  ultimately show "ports_inv d'"
    using asked \<open>pd_explicitPorts d' = asked\<close> by (simp add: ports_inv_def)
qed

lemma addExplicitBegin_eq:
  "addExplicitBegin spec d =
     (if map_of (pd_explicitPorts d) (specKey spec) \<noteq> None then AddDone d
      else case map_of (pd_portForwards d) (specKey spec) of
        Some f \<Rightarrow>
          if pf_localPort f = EffectiveLocalPort spec \<and> \<not> pf_conflict f
          then AddDone (d\<lparr>pd_explicitPorts := AList.update (specKey spec) spec (pd_explicitPorts d),
            pd_portForwards := AList.update (specKey spec) (f\<lparr>pf_explicit := True\<rparr>) (pd_portForwards d)\<rparr>)
          else AddStart (specKey spec) (infoOfSpec spec) (EffectiveLocalPort spec)
            (dropAt (specKey spec) (d\<lparr>pd_explicitPorts := AList.update (specKey spec) spec (pd_explicitPorts d)\<rparr>))
      | None \<Rightarrow> AddStart (specKey spec) (infoOfSpec spec) (EffectiveLocalPort spec)
            (dropAt (specKey spec) (d\<lparr>pd_explicitPorts := AList.update (specKey spec) spec (pd_explicitPorts d)\<rparr>)))"
  by (simp add: addExplicitBegin_def specKey_def infoOfSpec_def dropAt_def Let_def split: option.split)

lemma entries_cong [simp]:
  "entries (d\<lparr>pd_explicitPorts := x\<rparr>) = entries d" "entries (d\<lparr>pd_closed := b\<rparr>) = entries d"
  by (simp_all add: entries_def)

lemma accounted_cong [simp]:
  "accounted E (d\<lparr>pd_explicitPorts := x\<rparr>) = accounted E d" "accounted E (d\<lparr>pd_closed := b\<rparr>) = accounted E d"
  by (simp_all add: accounted_def)

lemma accounted_conflict: "accounted (insert f E) d \<Longrightarrow> pf_conflict f \<Longrightarrow> accounted E d"
  by (auto simp: accounted_def opens_insert inj_on_insert)

lemma ports_invD:
  "ports_inv d \<Longrightarrow> accounted {} d" "ports_inv d \<Longrightarrow> keyed (pd_portForwards d)"
  "ports_inv d \<Longrightarrow> specs_keyed (pd_explicitPorts d)" "ports_inv d \<Longrightarrow> pd_closed d \<Longrightarrow> pd_portForwards d = []"
  by (simp_all add: ports_inv_def)

lemma addExplicit_start:
  assumes inv: "ports_inv d" and free: "map_of (pd_portForwards d) key = None" and key: "key = specKey spec"
    and asked: "map_of (pd_explicitPorts d) key = Some spec"
    and start: "startPortForward foreign (infoOfSpec spec) (EffectiveLocalPort spec, True) d = (f, d2)"
    and fin: "addExplicitEnd key (EffectiveLocalPort spec) f d2 = (r, d')"
  shows "ports_inv d'"
proof -
  note st = accounted_start [OF ports_invD(1) [OF inv] start]
  have wished: "fwdKey f = key \<and> as_asked (pd_explicitPorts d) f"
  proof -
    have "to_start (pd_explicitPorts d) (key, infoOfSpec spec, EffectiveLocalPort spec, True)"
      using asked by (simp add: to_start_def infoKey_def infoOfSpec_def key specKey_def explicitOptsForKey_def)
    from started_as_asked [OF started_start [OF start] this ports_invD(3) [OF inv]] show ?thesis
      by simp
  qed
  consider "pf_conflict f" | "\<not> pf_conflict f" "pd_closed d" | "\<not> pf_conflict f" "\<not> pd_closed d"
    by blast
  then show ?thesis
  proof cases
    case 1
    have "\<forall>g \<in> entries d. fwdKey g \<noteq> key"
      using keyed_none [OF ports_invD(2) [OF inv] free] by (simp add: entries_def)
    then have "\<forall>g \<in> entries d. as_asked (AList.delete key (pd_explicitPorts d)) g"
      using inv by (simp add: ports_inv_def as_asked_other)
    moreover have "d' = d2\<lparr>pd_explicitPorts := AList.delete key (pd_explicitPorts d)\<rparr>" "entries d2 = entries d"
      using fin 1 st(4,5) by (auto simp: addExplicitEnd_def entries_def)
    ultimately show ?thesis
      using accounted_conflict [OF st(1) 1] st(4-6) inv by (simp add: ports_inv_def specs_keyed_delete)
  next
    case 2
    then have "accounted {} d'"
      using fin st ports_invD(4) [OF inv] accounted_cancel [OF st(1)] by (auto simp: addExplicitEnd_def entries_def)
    then show ?thesis
      using fin 2 st(4-6) inv by (auto simp: addExplicitEnd_def ports_inv_def cancelForward_def stopForward_def entries_def)
  next
    case 3
    then have d': "d' = d2\<lparr>pd_portForwards := pd_portForwards d @ [(key, f)]\<rparr>"
      using fin st(4,6) free by (auto simp: addExplicitEnd_def update_new map_of_eq_None_iff)
    then have entries: "entries d' = insert f (entries d)" "entries d2 = entries d"
      using st(4) by (simp_all add: entries_def)
    have "accounted {} d'"
      using st(1) unfolding accounted_def entries by (simp add: d')
    moreover have "keyed (pd_portForwards d')"
      using ports_invD(2) [OF inv] free wished by (auto simp: d' keyed_def map_of_eq_None_iff)
    moreover have "\<forall>g \<in> entries d'. as_asked (pd_explicitPorts d) g"
      using wished inv by (simp add: entries ports_inv_def)
    ultimately show ?thesis
      using 3 st(5,6) inv by (simp add: ports_inv_def d')
  qed
qed

lemma AddExplicitPortForward_inv:
  assumes inv: "ports_inv d"
  shows "ports_inv (snd (AddExplicitPortForward foreign spec d))"
proof (cases "addExplicitBegin spec d")
  case (AddDone d1)
  then have "ports_inv d1"
    using inv mark_explicit [OF inv _ refl _ refl]
    by (auto simp: addExplicitBegin_eq split: if_splits option.splits)
  then show ?thesis
    by (simp add: AddExplicitPortForward_def AddDone)
next
  case (AddStart key info localPort d1)
  then have eqs: "key = specKey spec" "info = infoOfSpec spec" "localPort = EffectiveLocalPort spec"
    "d1 = dropAt key (d\<lparr>pd_explicitPorts := AList.update key spec (pd_explicitPorts d)\<rparr>)"
    by (auto simp: addExplicitBegin_eq split: if_splits option.splits)
  have "specs_keyed (AList.update key spec (pd_explicitPorts d))"
    unfolding eqs(1) by (rule specs_keyed_update [OF ports_invD(3) [OF inv]])
  note dropped = dropAt_inv [OF inv this asked_elsewhere(1) eqs(4)]
  obtain f d2 where start: "startPortForward foreign info (localPort, True) d1 = (f, d2)"
    by (cases "startPortForward foreign info (localPort, True) d1")
  obtain r d' where fin: "addExplicitEnd key localPort f d2 = (r, d')"
    by (cases "addExplicitEnd key localPort f d2")
  have "ports_inv d'"
    by (rule addExplicit_start [OF dropped(1,2) eqs(1) _ start [unfolded eqs(2,3)] fin [unfolded eqs(3)]])
      (simp add: dropped(3) update_conv')
  then show ?thesis
    by (simp add: AddExplicitPortForward_def AddStart start fin)
qed

lemma RemoveExplicitPortForward_inv:
  assumes inv: "ports_inv d"
  shows "ports_inv (snd (RemoveExplicitPortForward spec d))"
proof -
  have "specs_keyed (AList.delete (specKey spec) (pd_explicitPorts d))"
    by (rule specs_keyed_delete [OF ports_invD(3) [OF inv]])
  from dropAt_inv(1) [OF inv this asked_elsewhere(2) refl]
  have "ports_inv (dropAt (specKey spec) (d\<lparr>pd_explicitPorts := AList.delete (specKey spec) (pd_explicitPorts d)\<rparr>))" .
  then show ?thesis
    using inv by (simp add: RemoveExplicitPortForward_def Let_def specKey_def dropAt_def)
qed

lemma teardown_inv: "ports_inv d \<Longrightarrow> ports_inv (teardownPorts d)"
  using teardownPorts_accounted [OF ports_invD(1,2)] by (simp add: ports_inv_def keyed_def entries_def)

lemma closePorts_inv:
  assumes inv: "ports_inv d"
  shows "ports_inv (closePorts d)"
proof -
  have "accounted {} (d\<lparr>pd_closed := True\<rparr>)" "keyed (pd_portForwards (d\<lparr>pd_closed := True\<rparr>))"
    using inv by (simp_all add: ports_inv_def accounted_def entries_def)
  from teardownPorts_accounted [OF this] show ?thesis
    using inv by (simp add: closePorts_def ports_inv_def keyed_def entries_def)
qed

subsection \<open>Operations one after the other\<close>

inductive port_step :: "port_daemon \<Rightarrow> port_daemon \<Rightarrow> bool" where
  add: "port_step d (snd (AddExplicitPortForward foreign spec d))"
| remove: "port_step d (snd (RemoveExplicitPortForward spec d))"
| reconcile: "permuting order \<Longrightarrow> port_step d (reconcilePortForwards order foreign ports d)"
| teardown: "port_step d (teardownPorts d)"
| close: "port_step d (closePorts d)"

lemma port_step_inv: "port_step d d' \<Longrightarrow> ports_inv d \<Longrightarrow> ports_inv d'"
  by (induction rule: port_step.induct)
    (simp_all add: AddExplicitPortForward_inv RemoveExplicitPortForward_inv reconcile_facts(1) teardown_inv closePorts_inv)

interpretation serial_ports: preserved port_step ports_inv
  by unfold_locales (rule port_step_inv)

lemma newPortDaemon_inv: "ports_inv newPortDaemon"
  by (simp add: newPortDaemon_def ports_inv_def accounted_def entries_def opens_def keyed_def specs_keyed_def)

lemma port_reachable_inv: "port_step\<^sup>*\<^sup>* newPortDaemon d \<Longrightarrow> ports_inv d"
  by (rule serial_ports.run_keeps [OF _ newPortDaemon_inv])

text \<open>
  C12. As long as operations do not overlap, a reconciliation makes the forwards exactly those of the ports found
  on the remote host and of the ports the user asked for, with the local port and the mark that the user asked
  for (an automatic forward uses the number of the remote port), whatever the order in which the table of ports
  is walked and whatever ports other processes hold; and the sockets that are open are exactly those of the
  forwards in the table that are not in conflict, at all times.
\<close>

theorem port_forwards_follow_the_wishes:
  assumes run: "port_step\<^sup>*\<^sup>* newPortDaemon d" and order: "permuting order" and live: "\<not> pd_closed d"
    and d': "d' = reconcilePortForwards order foreign ports d"
  shows "fst ` set (pd_portForwards d') = infoKey ` set ports \<union> fst ` set (pd_explicitPorts d) \<and>
    (\<forall>(key, f) \<in> set (pd_portForwards d').
       key = portForwardKey (pf_protocol f) (pf_remotePort f) \<and>
       (pf_localPort f, pf_explicit f) =
         (case map_of (pd_explicitPorts d) key of
            None \<Rightarrow> (pf_remotePort f, False)
          | Some spec \<Rightarrow> (EffectiveLocalPort spec, True))) \<and>
    set (pd_sockets d) = opens (entries d) \<and> set (pd_sockets d') = opens (entries d')"
proof -
  have inv: "ports_inv d"
    by (rule port_reachable_inv [OF run])
  note rec = reconcile_facts [OF inv order d']
  have "key = portForwardKey (pf_protocol f) (pf_remotePort f) \<and>
      (pf_localPort f, pf_explicit f) = (case map_of (pd_explicitPorts d) key of
          None \<Rightarrow> (pf_remotePort f, False) | Some spec \<Rightarrow> (EffectiveLocalPort spec, True))"
    if "(key, f) \<in> set (pd_portForwards d')" for key f
  proof -
    have "key = fwdKey f" "as_asked (pd_explicitPorts d) f"
      using rec(1,2) that by (auto simp: ports_inv_def keyed_def entries_def)
    then show ?thesis
      by (simp add: as_asked_def fwdKey_def)
  qed
  then show ?thesis
    using rec(3) [OF live] inv rec(1) by (auto simp: ports_inv_def accounted_def)
qed

definition exSpec :: PortForwardSpec where
  "exSpec = \<lparr>ps_RemotePort = 8080, ps_LocalPort = 9090, ps_Protocol = ''tcp''\<rparr>"

definition exFree :: "net_query \<Rightarrow> 32 word \<Rightarrow> bool" where
  "exFree q port \<longleftrightarrow> False"

theorem port_forwards_follow_the_wishes_witness:
  "let d = snd (AddExplicitPortForward exFree exSpec newPortDaemon);
       d' = reconcilePortForwards id exFree [\<lparr>pi_Port = 53, pi_Host = ''127.0.0.1'', pi_Protocol = ''udp''\<rparr>] d
   in port_step\<^sup>*\<^sup>* newPortDaemon d \<and> permuting (id :: (string \<times> PortInfo \<times> 32 word \<times> bool) list \<Rightarrow> _) \<and> \<not> pd_closed d \<and>
      fst ` set (pd_portForwards d') = {portForwardKey ''udp'' 53} \<union> fst ` set (pd_explicitPorts d)"
proof -
  let ?d = "snd (AddExplicitPortForward exFree exSpec newPortDaemon)"
  have run: "port_step\<^sup>*\<^sup>* newPortDaemon ?d"
    by (rule r_into_rtranclp) (rule port_step.add)
  have order: "permuting (id :: (string \<times> PortInfo \<times> 32 word \<times> bool) list \<Rightarrow> _)"
    by (simp add: permuting_def)
  have live: "\<not> pd_closed ?d"
    by (simp add: AddExplicitPortForward_def addExplicitBegin_def newPortDaemon_def Let_def startPortForward_def
        addExplicitEnd_def exFree_def)
  show ?thesis
    using port_forwards_follow_the_wishes [OF run order live refl, of exFree
        "[\<lparr>pi_Port = 53, pi_Host = ''127.0.0.1'', pi_Protocol = ''udp''\<rparr>]"] run order live
    by (simp add: Let_def infoKey_def)
qed

subsection \<open>Operations that overlap\<close>

definition exInfo :: PortInfo where
  "exInfo = \<lparr>pi_Port = 8080, pi_Host = ''127.0.0.1'', pi_Protocol = ''tcp''\<rparr>"

definition exSame :: PortForwardSpec where
  "exSame = \<lparr>ps_RemotePort = 8080, ps_LocalPort = 8080, ps_Protocol = ''tcp''\<rparr>"

text \<open>The user asks for a port between the first critical section of a reconciliation and the start of its forwards.\<close>

definition exListed :: "(string \<times> PortInfo \<times> 32 word \<times> bool) list \<times> port_daemon" where
  "exListed = reconcileBegin [exInfo] newPortDaemon"

definition exAdded :: "add_error option \<times> port_daemon" where
  "exAdded = AddExplicitPortForward exFree exSame (snd exListed)"

definition exReconciled :: port_daemon where
  "exReconciled =
     (let (new, d) = startAll exFree (fst exListed) (snd exAdded) in reconcileEnd new d)"

definition exRemoved :: "bool \<times> port_daemon" where
  "exRemoved = RemoveExplicitPortForward exSame exReconciled"

lemmas ex_port_defs = exListed_def exAdded_def exReconciled_def exRemoved_def exInfo_def exSame_def exFree_def
  newPortDaemon_def reconcileBegin_def remoteSet_def stopWhere_def explicitOptsForKey_def Let_def
  AddExplicitPortForward_def addExplicitBegin_def startPortForward_def addExplicitEnd_def probePortConflict_def
  listenFails_def ownSocket_def EffectiveLocalPort_def EffectiveProtocol_def protocol_defs

abbreviation exKey :: string where
  "exKey \<equiv> portForwardKey ''tcp'' 8080"

lemma ex_listed: "fst exListed = [(exKey, exInfo, 0, False)]" "snd exListed = newPortDaemon"
  by (simp_all add: ex_port_defs)

lemma ex_added:
  "fst exAdded = None"
  "snd exAdded = newPortDaemon\<lparr>pd_nextId := 1, pd_explicitPorts := [(exKey, exSame)],
     pd_sockets := [((False, 8080), 0)], pd_relays := [0],
     pd_portForwards := [(exKey, \<lparr>pf_id = 0, pf_remotePort = 8080, pf_localPort = 8080, pf_protocol = ''tcp'',
        pf_conflict = False, pf_conflictReason = '''', pf_explicit = True\<rparr>)]\<rparr>"
  unfolding exAdded_def ex_listed by (simp_all add: ex_port_defs)

lemma ex_reconciled:
  "exReconciled = (snd exAdded)\<lparr>pd_nextId := 2,
     pd_portForwards := [(exKey, \<lparr>pf_id = 1, pf_remotePort = 8080, pf_localPort = 8080, pf_protocol = ''tcp'',
        pf_conflict = True, pf_conflictReason = conflictText 8080, pf_explicit = False\<rparr>)]\<rparr>"
  unfolding exReconciled_def ex_listed ex_added
  by (simp add: newPortDaemon_def Let_def startPortForward_def probePortConflict_def ownSocket_def listenFails_def
      exFree_def exInfo_def protocol_defs reconcileEnd_def)

lemma ex_removed:
  "fst exRemoved"
  "snd exRemoved = newPortDaemon\<lparr>pd_nextId := 2, pd_sockets := [((False, 8080), 0)], pd_relays := [0]\<rparr>"
  unfolding exRemoved_def ex_reconciled ex_added
  by (simp_all add: RemoveExplicitPortForward_def exSame_def EffectiveProtocol_def newPortDaemon_def Let_def
      dropForward_def forgetForward_def cancelForward_def stopForward_def)

text \<open>
  When the user asks for a port while a reconciliation that found the same port on the remote host is between
  its critical sections, the request succeeds, and the reconciliation then overwrites its entry with one in
  conflict that is not marked as asked for. The forward of the user is in no table any more and keeps its socket:
  removing the port reports success and leaves the socket open, a new request for the port fails, and closing the
  daemon does not close the socket either.
\<close>

theorem overlapping_request_leaks_a_socket:
  "fst exAdded = None \<and>
   map pf_conflict (map snd (pd_portForwards exReconciled)) = [True] \<and>
   map pf_explicit (map snd (pd_portForwards exReconciled)) = [False] \<and>
   fst exRemoved \<and> pd_portForwards (snd exRemoved) = [] \<and> pd_explicitPorts (snd exRemoved) = [] \<and>
   pd_sockets (snd exRemoved) = [((False, 8080), 0)] \<and>
   fst (AddExplicitPortForward exFree exSame (snd exRemoved)) = Some (PortInUse 8080 (conflictText 8080)) \<and>
   pd_sockets (closePorts (snd exRemoved)) = [((False, 8080), 0)]"
proof -
  have "fst (AddExplicitPortForward exFree exSame (snd exRemoved)) = Some (PortInUse 8080 (conflictText 8080))"
    unfolding ex_removed by (simp add: ex_port_defs)
  moreover have "pd_sockets (closePorts (snd exRemoved)) = [((False, 8080), 0)]"
    unfolding ex_removed by (simp add: closePorts_def teardownPorts_def newPortDaemon_def)
  ultimately show ?thesis
    unfolding ex_reconciled ex_added by (simp add: ex_removed newPortDaemon_def)
qed

subsection \<open>What the remote side reports\<close>

lemma listeningPortsEqual_proto: "listeningPortsEqual a b \<Longrightarrow> listeningPortsToProto a = listeningPortsToProto b"
  unfolding listeningPortsEqual_def
  by (induction a b rule: list_induct2') (auto simp: listeningPortsToProto_def)

lemma listeningPortsEqual_refl [simp]: "listeningPortsEqual a a"
  by (auto simp: listeningPortsEqual_def list_all_iff zip_same_conv_map)

lemma watchTicks_last:
  "listeningPortsEqual p q \<Longrightarrow>
   last (listeningPortsToProto p # watchTicks p scans) =
     listeningPortsToProto (last (q # map the (filter (\<lambda>s. s \<noteq> None) scans)))"
proof (induction p scans arbitrary: q rule: watchTicks.induct)
  case (1 p)
  then show ?case
    by (simp add: listeningPortsEqual_proto)
next
  case (3 p ports scans)
  show ?case
  proof (cases "listeningPortsEqual p ports")
    case True
    from "3.IH"(1) [OF True True] True show ?thesis
      by simp
  next
    case False
    from "3.IH"(2) [OF False listeningPortsEqual_refl] False show ?thesis
      by simp
  qed
qed simp

text \<open>
  The last snapshot a watcher receives is always that of the last scan that succeeded: a snapshot that is not sent
  is one that reads the same.
\<close>

lemma watch_reports_the_last_scan:
  "last (WatchPorts first scans) =
     listeningPortsToProto (last ((case first of None \<Rightarrow> [] | Some ports \<Rightarrow> ports) # map the (filter (\<lambda>s. s \<noteq> None) scans)))"
  unfolding WatchPorts_def Let_def by (rule watchTicks_last [OF listeningPortsEqual_refl])

end
