(* ===== verification/AgentForward.thy ===== *)
theory AgentForward
  imports Prelude "HOL-Library.AList" "HOL-Library.Multiset"
begin

text \<open>
  Forwarding of the local SSH agent by a remote daemon (\<^verbatim>\<open>pkg/remote_daemon.go\<close>): one slot per connection
  name, taken by a background worker and tagged with the number of its start, and the waiting times after
  failures. A worker is cut at each of its critical sections, so that the steps of workers, explicit stops, the
  teardown before a reconnection and the closing of the daemon interleave freely.
\<close>

subsection \<open>Waiting times\<close>

text \<open>Durations are counted in nanoseconds, in 64 bits with a sign.\<close>

definition int64 :: "int \<Rightarrow> int" where
  "int64 x = sint (word_of_int x :: 64 word)"

definition second :: int where
  "second = 1000000000"

definition agentForwardBaseBackoff :: int where
  "agentForwardBaseBackoff = second"

definition agentForwardMaxBackoff :: int where
  "agentForwardMaxBackoff = 30 * second"

text \<open>A shift by a negative amount panics.\<close>

definition agentForwardBackoffFor :: "int \<Rightarrow> int option" where
  "agentForwardBackoffFor failures =
     (let shift = min (failures - 1) 5 in
      if shift < 0 then None
      else Some (min (int64 (agentForwardBaseBackoff * 2 ^ nat shift)) agentForwardMaxBackoff))"

definition reconnectInitialBackoff :: int where
  "reconnectInitialBackoff = second"

definition reconnectMaxBackoff :: int where
  "reconnectMaxBackoff = 30 * second"

text \<open>
  The waiting time before attempt \<open>n + 1\<close> of \<^verbatim>\<open>Reconnect\<close>, and in the same way of the port watcher as long as its
  streams are short-lived.
\<close>

primrec reconnectBackoff :: "nat \<Rightarrow> int" where
  "reconnectBackoff 0 = reconnectInitialBackoff"
| "reconnectBackoff (Suc n) = min (int64 (reconnectBackoff n * 2)) reconnectMaxBackoff"

text \<open>\<^verbatim>\<open>watchAndForwardPorts\<close>: a stream that lived longer than the largest waiting time resets it.\<close>

definition watchBackoff :: "int \<Rightarrow> int \<Rightarrow> int \<times> int" where
  "watchBackoff lived backoff =
     (let b = (if lived > 30 * second then second else backoff) in (b, min (int64 (b * 2)) (30 * second)))"

subsection \<open>The slots\<close>

record agent_daemon =
  ag_closed :: bool
  ag_forwards :: "(string \<times> 64 word) list"
  ag_gen :: "64 word"
  ag_failures :: "(string \<times> int) list"
  ag_canceled :: "64 word list"

definition tryBeginAgentForward :: "string \<Rightarrow> agent_daemon \<Rightarrow> 64 word option \<times> agent_daemon" where
  "tryBeginAgentForward connName d =
     (if ag_closed d then (None, d)
      else if map_of (ag_forwards d) connName \<noteq> None then (None, d)
      else let gen = ag_gen d + 1
           in (Some gen, d\<lparr>ag_gen := gen, ag_forwards := AList.update connName gen (ag_forwards d)\<rparr>))"

definition endAgentForward :: "string \<Rightarrow> agent_daemon \<Rightarrow> agent_daemon" where
  "endAgentForward connName d =
     (let d1 = d\<lparr>ag_failures := AList.delete connName (ag_failures d)\<rparr> in
      case map_of (ag_forwards d) connName of
        None \<Rightarrow> d1
      | Some gen \<Rightarrow> d1\<lparr>ag_forwards := AList.delete connName (ag_forwards d), ag_canceled := gen # ag_canceled d\<rparr>)"

definition stopAgentForward :: "string \<Rightarrow> agent_daemon \<Rightarrow> agent_daemon" where
  "stopAgentForward connName d = endAgentForward connName d"

text \<open>The critical section of \<^verbatim>\<open>holdAgentForwardBackoff\<close>: the number of failures so far.\<close>

definition recordFailure :: "string \<Rightarrow> agent_daemon \<Rightarrow> int \<times> agent_daemon" where
  "recordFailure connName d =
     (let failures = (case map_of (ag_failures d) connName of None \<Rightarrow> 0 | Some n \<Rightarrow> n) + 1
      in (failures, d\<lparr>ag_failures := AList.update connName failures (ag_failures d)\<rparr>))"

definition resetAgentForwardBackoff :: "string \<Rightarrow> agent_daemon \<Rightarrow> agent_daemon" where
  "resetAgentForwardBackoff connName d = d\<lparr>ag_failures := AList.delete connName (ag_failures d)\<rparr>"

definition endAgentForwardGen :: "string \<Rightarrow> 64 word \<Rightarrow> agent_daemon \<Rightarrow> agent_daemon" where
  "endAgentForwardGen connName gen d =
     (if map_of (ag_forwards d) connName \<noteq> Some gen then d
      else d\<lparr>ag_forwards := AList.delete connName (ag_forwards d), ag_canceled := gen # ag_canceled d\<rparr>)"

text \<open>The agent forwards under \<^verbatim>\<open>teardownForReconnect\<close> and \<^verbatim>\<open>Close\<close>; the latter keeps the canceled entries.\<close>

definition teardownAgents :: "agent_daemon \<Rightarrow> agent_daemon" where
  "teardownAgents d =
     d\<lparr>ag_canceled := map snd (ag_forwards d) @ ag_canceled d, ag_forwards := [], ag_failures := []\<rparr>"

definition closeAgents :: "agent_daemon \<Rightarrow> agent_daemon" where
  "closeAgents d =
     (if ag_closed d then d
      else d\<lparr>ag_closed := True, ag_canceled := map snd (ag_forwards d) @ ag_canceled d\<rparr>)"

subsection \<open>Workers\<close>

text \<open>
  Where a worker is: serving the agent, about to look whether its context is canceled, about to record the
  failure, waiting, about to clear the failures, about to give its slot back.
\<close>

datatype worker_pc = Serving | Failing | Recording | Holding "int option" | Resetting | Ending

record worker =
  wk_conn :: string
  wk_gen :: "64 word"
  wk_pc :: worker_pc

record agent_sys =
  as_daemon :: agent_daemon
  as_workers :: "worker multiset"
  as_starts :: nat

definition agent_start :: agent_sys where
  "agent_start = \<lparr>as_daemon = \<lparr>ag_closed = False, ag_forwards = [], ag_gen = 0, ag_failures = [], ag_canceled = []\<rparr>,
                  as_workers = {#}, as_starts = 0\<rparr>"

text \<open>\<^verbatim>\<open>startAgentForward\<close>: a worker runs when the slot was free. The number of starts is a ghost.\<close>

definition startAgentForward :: "string \<Rightarrow> agent_sys \<Rightarrow> agent_sys" where
  "startAgentForward connName s =
     (case tryBeginAgentForward connName (as_daemon s) of
        (None, d) \<Rightarrow> s\<lparr>as_daemon := d\<rparr>
      | (Some gen, d) \<Rightarrow>
          s\<lparr>as_daemon := d, as_starts := as_starts s + 1,
            as_workers := add_mset \<lparr>wk_conn = connName, wk_gen = gen, wk_pc = Serving\<rparr> (as_workers s)\<rparr>)"

text \<open>One step of a worker: its next position, or \<^const>\<open>None\<close> when it is done, and the daemon.\<close>

inductive worker_step :: "worker \<Rightarrow> agent_daemon \<Rightarrow> worker_pc option \<Rightarrow> agent_daemon \<Rightarrow> bool" where
  served: "wk_pc w = Serving \<Longrightarrow> worker_step w d (Some Resetting) d"
| failed: "wk_pc w = Serving \<Longrightarrow> worker_step w d (Some Failing) d"
| canceled: "wk_pc w = Failing \<Longrightarrow> wk_gen w \<in> set (ag_canceled d) \<Longrightarrow> worker_step w d (Some Ending) d"
| not_canceled: "wk_pc w = Failing \<Longrightarrow> wk_gen w \<notin> set (ag_canceled d) \<Longrightarrow> worker_step w d (Some Recording) d"
| record_failure: "wk_pc w = Recording \<Longrightarrow> recordFailure (wk_conn w) d = (failures, d') \<Longrightarrow>
    worker_step w d (Some (Holding (agentForwardBackoffFor failures))) d'"
| waited: "wk_pc w = Holding b \<Longrightarrow> worker_step w d (Some Ending) d"
| reset: "wk_pc w = Resetting \<Longrightarrow> worker_step w d (Some Ending) (resetAgentForwardBackoff (wk_conn w) d)"
| ended: "wk_pc w = Ending \<Longrightarrow> worker_step w d None (endAgentForwardGen (wk_conn w) (wk_gen w) d)"

inductive agent_step :: "agent_sys \<Rightarrow> agent_sys \<Rightarrow> bool" where
  start: "agent_step s (startAgentForward connName s)"
| stop: "agent_step s (s\<lparr>as_daemon := stopAgentForward connName (as_daemon s)\<rparr>)"
| teardown: "agent_step s (s\<lparr>as_daemon := teardownAgents (as_daemon s)\<rparr>)"
| close: "agent_step s (s\<lparr>as_daemon := closeAgents (as_daemon s)\<rparr>)"
| work: "as_workers s = add_mset w ws \<Longrightarrow> worker_step w (as_daemon s) (Some pc) d \<Longrightarrow>
    agent_step s (s\<lparr>as_daemon := d, as_workers := add_mset (w\<lparr>wk_pc := pc\<rparr>) ws\<rparr>)"
| finish: "as_workers s = add_mset w ws \<Longrightarrow> worker_step w (as_daemon s) None d \<Longrightarrow>
    agent_step s (s\<lparr>as_daemon := d, as_workers := ws\<rparr>)"

subsection \<open>Bounds of the waiting times\<close>

lemma int64_id: "- (2 ^ 63) \<le> x \<Longrightarrow> x < 2 ^ 63 \<Longrightarrow> int64 x = x"
  by (simp add: int64_def signed_take_bit_int_eq_self sint_sbintrunc')

lemma reconnectBackoff_closed: "reconnectBackoff n = min (second * 2 ^ n) (30 * second)"
proof (induction n)
  case 0
  show ?case
    by (simp add: reconnectInitialBackoff_def second_def)
next
  case (Suc n)
  have "0 \<le> second * 2 ^ n"
    by (simp add: second_def)
  then have "0 \<le> reconnectBackoff n" "reconnectBackoff n \<le> 30 * second"
    unfolding Suc by (simp_all add: second_def)
  then have "int64 (reconnectBackoff n * 2) = reconnectBackoff n * 2"
    by (intro int64_id) (simp_all add: second_def)
  then show ?case
    by (simp add: Suc reconnectMaxBackoff_def second_def min_def)
qed

lemma agentForwardBackoffFor_closed:
  "agentForwardBackoffFor failures =
     (if failures \<le> 0 then None else Some (min (second * 2 ^ nat (failures - 1)) (30 * second)))"
proof (cases "failures \<le> 0")
  case False
  define n where "n = nat (failures - 1)"
  then have f: "failures - 1 = int n"
    using False by simp
  have cap: "int64 (second * 2 ^ min n 5) = second * 2 ^ min n 5"
  proof (rule int64_id)
    have "(2 :: int) ^ min n 5 \<le> 2 ^ 5"
      by (rule power_increasing) simp_all
    then show "second * 2 ^ min n 5 < 2 ^ 63"
      by (simp add: second_def)
    show "- (2 ^ 63) \<le> second * 2 ^ min n 5"
      by (rule order_trans [of _ 0]) (simp_all add: second_def)
  qed
  have "min (second * 2 ^ min n 5) (30 * second) = min (second * 2 ^ n) (30 * second)"
  proof (cases "n \<le> 5")
    case False
    then have "(2 :: int) ^ 5 \<le> 2 ^ n"
      by (intro power_increasing) simp_all
    with False show ?thesis
      by (simp add: second_def min_def)
  qed (simp add: min_def)
  moreover have "nat (min (int n) 5) = min n 5"
    by (simp add: min_def)
  ultimately show ?thesis
    using False cap
    by (simp add: agentForwardBackoffFor_def Let_def f agentForwardBaseBackoff_def agentForwardMaxBackoff_def)
qed (simp add: agentForwardBackoffFor_def Let_def)



subsection \<open>One worker per slot\<close>

lemma as_workers_step [simp]: "as_starts (startAgentForward n s) =
    (if fst (tryBeginAgentForward n (as_daemon s)) = None then as_starts s else as_starts s + 1)"
  by (auto simp: startAgentForward_def split: prod.split option.split)

lemma len64: "LENGTH(64) = 64"
  by simp

text \<open>
  Generations are the numbers of the starts, so that they differ as long as there are fewer than \<open>2 ^ 64\<close> of
  them. Every slot belongs to a worker that is still running, and a worker whose context is not canceled has the
  slot of its connection.
\<close>

definition slots_owned :: "worker multiset \<Rightarrow> agent_daemon \<Rightarrow> bool" where
  "slots_owned ws d \<longleftrightarrow>
     distinct (map fst (ag_forwards d)) \<and>
     (\<forall>n g. map_of (ag_forwards d) n = Some g \<longrightarrow> (\<exists>w \<in># ws. wk_conn w = n \<and> wk_gen w = g)) \<and>
     (\<forall>w \<in># ws. wk_gen w \<notin> set (ag_canceled d) \<longrightarrow> map_of (ag_forwards d) (wk_conn w) = Some (wk_gen w))"

definition gens_ok :: "worker multiset \<Rightarrow> nat \<Rightarrow> agent_daemon \<Rightarrow> bool" where
  "gens_ok ws starts d \<longleftrightarrow>
     ag_gen d = of_nat starts \<and> (\<forall>w \<in># ws. unat (wk_gen w) \<le> starts) \<and> (\<forall>g \<in> set (ag_canceled d). unat g \<le> starts) \<and>
     (\<forall>g \<in># image_mset wk_gen ws. count (image_mset wk_gen ws) g = 1)"

definition agent_inv :: "agent_sys \<Rightarrow> bool" where
  "agent_inv s \<longleftrightarrow> slots_owned (as_workers s) (as_daemon s) \<and> gens_ok (as_workers s) (as_starts s) (as_daemon s)"

lemma same_worker:
  assumes "gens_ok ws starts d" "w \<in># ws" "w' \<in># ws" "wk_gen w = wk_gen w'"
  shows "w = w'"
proof (rule ccontr)
  assume "w \<noteq> w'"
  then obtain vs where "ws = add_mset w (add_mset w' vs)"
    using assms(2,3) by (metis insert_DiffM insert_noteq_member)
  then have "count (image_mset wk_gen ws) (wk_gen w) \<ge> 2"
    using assms(4) by simp
  moreover have "count (image_mset wk_gen ws) (wk_gen w) = 1"
    using assms(1,2) by (simp add: gens_ok_def)
  ultimately show False
    by simp
qed

lemma inv_start:
  assumes inv: "agent_inv s" and few: "as_starts (startAgentForward n s) < 2 ^ 64"
  shows "agent_inv (startAgentForward n s)"
proof (cases "fst (tryBeginAgentForward n (as_daemon s))")
  case None
  then have "startAgentForward n s = s"
    by (auto simp: startAgentForward_def tryBeginAgentForward_def Let_def split: if_splits)
  with inv show ?thesis
    by simp
next
  case (Some g)
  let ?d = "as_daemon s" and ?ws = "as_workers s"
  have free: "map_of (ag_forwards ?d) n = None" and g: "g = ag_gen ?d + 1"
    using Some by (auto simp: tryBeginAgentForward_def Let_def split: if_splits)
  have new: "startAgentForward n s = s\<lparr>as_daemon := ?d\<lparr>ag_gen := g, ag_forwards := AList.update n g (ag_forwards ?d)\<rparr>,
      as_starts := as_starts s + 1, as_workers := add_mset \<lparr>wk_conn = n, wk_gen = g, wk_pc = Serving\<rparr> ?ws\<rparr>"
    using Some by (auto simp: startAgentForward_def tryBeginAgentForward_def Let_def split: if_splits)
  have starts: "as_starts s + 1 < 2 ^ 64"
    using few Some by simp
  have gen: "ag_gen ?d = of_nat (as_starts s)"
    using inv by (simp add: agent_inv_def gens_ok_def)
  then have g_nat: "g = of_nat (as_starts s + 1)"
    by (simp add: g)
  then have unat_g: "unat g = as_starts s + 1"
    using starts by (simp only: unat_of_nat len64 mod_less)
  have fresh: "g \<notin># image_mset wk_gen ?ws" "g \<notin> set (ag_canceled ?d)"
    using inv unat_g by (fastforce simp: agent_inv_def gens_ok_def)+
  have "slots_owned (add_mset \<lparr>wk_conn = n, wk_gen = g, wk_pc = Serving\<rparr> ?ws)
      (?d\<lparr>ag_gen := g, ag_forwards := AList.update n g (ag_forwards ?d)\<rparr>)"
    using inv free by (auto simp: agent_inv_def slots_owned_def update_conv' distinct_update)
  moreover have "gens_ok (add_mset \<lparr>wk_conn = n, wk_gen = g, wk_pc = Serving\<rparr> ?ws) (as_starts s + 1)
      (?d\<lparr>ag_gen := g, ag_forwards := AList.update n g (ag_forwards ?d)\<rparr>)"
    using inv fresh unat_g g_nat by (auto simp: agent_inv_def gens_ok_def le_Suc_eq count_eq_zero_iff)
  ultimately show ?thesis
    by (simp add: agent_inv_def new)
qed

text \<open>Operations of the daemon that free slots cancel the workers of those slots.\<close>

lemma inv_free:
  assumes inv: "agent_inv s" and frees: "\<And>n. map_of (ag_forwards d) n = map_of (ag_forwards (as_daemon s)) n \<or>
      map_of (ag_forwards d) n = None \<and> (\<forall>g. map_of (ag_forwards (as_daemon s)) n = Some g \<longrightarrow> g \<in> set (ag_canceled d))"
    and canceled: "set (ag_canceled (as_daemon s)) \<subseteq> set (ag_canceled d)"
    "set (ag_canceled d) \<subseteq> set (ag_canceled (as_daemon s)) \<union> snd ` set (ag_forwards (as_daemon s))"
    and gen: "ag_gen d = ag_gen (as_daemon s)" and dist: "distinct (map fst (ag_forwards d))"
  shows "agent_inv (s\<lparr>as_daemon := d\<rparr>)"
proof -
  have "unat g \<le> as_starts s" if "(n, g) \<in> set (ag_forwards (as_daemon s))" for n g
  proof -
    have "map_of (ag_forwards (as_daemon s)) n = Some g"
      using that inv by (simp add: agent_inv_def slots_owned_def)
    then obtain w where "w \<in># as_workers s" "wk_gen w = g"
      using inv unfolding agent_inv_def slots_owned_def by blast
    then show ?thesis
      using inv by (auto simp: agent_inv_def gens_ok_def)
  qed
  then have "\<forall>g \<in> set (ag_canceled d). unat g \<le> as_starts s"
    using inv canceled(2) by (force simp: agent_inv_def gens_ok_def)
  then have "gens_ok (as_workers s) (as_starts s) d"
    using inv gen by (simp add: agent_inv_def gens_ok_def)
  moreover have "slots_owned (as_workers s) d"
    unfolding slots_owned_def
  proof (intro conjI allI impI ballI dist)
    fix n g
    assume "map_of (ag_forwards d) n = Some g"
    then show "\<exists>w \<in># as_workers s. wk_conn w = n \<and> wk_gen w = g"
      using inv frees [of n] by (auto simp: agent_inv_def slots_owned_def)
  next
    fix w
    assume w: "w \<in># as_workers s" "wk_gen w \<notin> set (ag_canceled d)"
    then have "map_of (ag_forwards (as_daemon s)) (wk_conn w) = Some (wk_gen w)"
      using inv canceled by (auto simp: agent_inv_def slots_owned_def)
    then show "map_of (ag_forwards d) (wk_conn w) = Some (wk_gen w)"
      using frees [of "wk_conn w"] w(2) by auto
  qed
  ultimately show ?thesis
    by (simp add: agent_inv_def)
qed

lemma size_filter_image: "size {#v \<in># A. f v = x#} = count (image_mset f A) x"
  by (induction A) auto

lemma inv_stop:
  assumes inv: "agent_inv s"
  shows "agent_inv (s\<lparr>as_daemon := stopAgentForward n (as_daemon s)\<rparr>)"
proof (rule inv_free [OF inv])
  let ?d = "as_daemon s"
  have dist: "distinct (map fst (ag_forwards ?d))"
    using inv by (simp add: agent_inv_def slots_owned_def)
  then show "distinct (map fst (ag_forwards (stopAgentForward n ?d)))"
    by (simp add: stopAgentForward_def endAgentForward_def Let_def distinct_delete split: option.split)
  show "map_of (ag_forwards (stopAgentForward n ?d)) m = map_of (ag_forwards ?d) m \<or>
    map_of (ag_forwards (stopAgentForward n ?d)) m = None \<and>
    (\<forall>g. map_of (ag_forwards ?d) m = Some g \<longrightarrow> g \<in> set (ag_canceled (stopAgentForward n ?d)))" for m
    by (simp add: stopAgentForward_def endAgentForward_def Let_def delete_conv' split: option.split)
  show "set (ag_canceled (stopAgentForward n ?d)) \<subseteq> set (ag_canceled ?d) \<union> snd ` set (ag_forwards ?d)"
    by (auto simp: stopAgentForward_def endAgentForward_def Let_def dest!: map_of_SomeD split: option.split
        intro: rev_image_eqI)
qed (auto simp: stopAgentForward_def endAgentForward_def Let_def split: option.split)

lemma inv_cancel_all:
  assumes inv: "agent_inv s"
    and d: "ag_canceled d = map snd (ag_forwards (as_daemon s)) @ ag_canceled (as_daemon s)" "ag_gen d = ag_gen (as_daemon s)"
    "ag_forwards d = [] \<or> ag_forwards d = ag_forwards (as_daemon s)"
  shows "agent_inv (s\<lparr>as_daemon := d\<rparr>)"
proof (rule inv_free [OF inv])
  have dist: "distinct (map fst (ag_forwards (as_daemon s)))"
    using inv by (simp add: agent_inv_def slots_owned_def)
  then show "distinct (map fst (ag_forwards d))"
    using d(3) by auto
  show "map_of (ag_forwards d) m = map_of (ag_forwards (as_daemon s)) m \<or>
    map_of (ag_forwards d) m = None \<and> (\<forall>g. map_of (ag_forwards (as_daemon s)) m = Some g \<longrightarrow> g \<in> set (ag_canceled d))" for m
    using d by (force dest: map_of_SomeD)
qed (use d in auto)

lemma inv_work:
  assumes inv: "agent_inv s" and ws: "as_workers s = add_mset w ws"
    and same: "ag_forwards d = ag_forwards (as_daemon s)" "ag_canceled d = ag_canceled (as_daemon s)" "ag_gen d = ag_gen (as_daemon s)"
  shows "agent_inv (s\<lparr>as_daemon := d, as_workers := add_mset (w\<lparr>wk_pc := pc\<rparr>) ws\<rparr>)"
  using inv by (auto simp: agent_inv_def slots_owned_def gens_ok_def ws same)

lemma worker_step_frame:
  "worker_step w d (Some pc) d' \<Longrightarrow>
   ag_forwards d' = ag_forwards d \<and> ag_canceled d' = ag_canceled d \<and> ag_gen d' = ag_gen d"
  by (induction w d "Some pc" d' rule: worker_step.induct)
    (auto simp: recordFailure_def resetAgentForwardBackoff_def Let_def)

inductive_cases worker_step_NoneE: "worker_step w d None d'"

lemma inv_end:
  assumes inv: "agent_inv s" and ws: "as_workers s = add_mset w ws"
    and d: "d = endAgentForwardGen (wk_conn w) (wk_gen w) (as_daemon s)"
  shows "agent_inv (s\<lparr>as_daemon := d, as_workers := ws\<rparr>)"
proof -
  let ?d = "as_daemon s"
  have owned: "slots_owned (add_mset w ws) ?d" and gens: "gens_ok (add_mset w ws) (as_starts s) ?d"
    using inv by (simp_all add: agent_inv_def ws)
  have other: "w' \<in># ws \<Longrightarrow> wk_gen w' \<noteq> wk_gen w" for w'
  proof
    assume "w' \<in># ws" "wk_gen w' = wk_gen w"
    then have "count (image_mset wk_gen (add_mset w ws)) (wk_gen w) \<ge> 2"
      by (auto simp: Suc_le_eq count_greater_zero_iff image_iff intro: bexI [of _ w'])
    moreover have "count (image_mset wk_gen (add_mset w ws)) (wk_gen w) = 1"
      using gens unfolding gens_ok_def by (elim conjE bspec) simp
    ultimately show False
      by linarith
  qed
  have fw: "map_of (ag_forwards d) n =
      (if n = wk_conn w \<and> map_of (ag_forwards ?d) n = Some (wk_gen w) then None else map_of (ag_forwards ?d) n)" for n
    by (auto simp: d endAgentForwardGen_def delete_conv')
  have can: "set (ag_canceled ?d) \<subseteq> set (ag_canceled d)" "set (ag_canceled d) \<subseteq> insert (wk_gen w) (set (ag_canceled ?d))"
    by (auto simp: d endAgentForwardGen_def)
  have dist: "distinct (map fst (ag_forwards d))"
    using owned by (simp add: d endAgentForwardGen_def slots_owned_def distinct_delete)
  have "slots_owned ws d"
    unfolding slots_owned_def
  proof (intro conjI allI impI ballI dist)
    fix n g
    assume n: "map_of (ag_forwards d) n = Some g"
    then have "map_of (ag_forwards ?d) n = Some g" "\<not> (n = wk_conn w \<and> g = wk_gen w)"
      by (auto simp: fw split: if_splits)
    moreover from this(1) obtain v where "v \<in># add_mset w ws" "wk_conn v = n" "wk_gen v = g"
      using owned unfolding slots_owned_def by blast
    ultimately show "\<exists>w \<in># ws. wk_conn w = n \<and> wk_gen w = g"
      by auto
  next
    fix w'
    assume w': "w' \<in># ws" "wk_gen w' \<notin> set (ag_canceled d)"
    then have "map_of (ag_forwards ?d) (wk_conn w') = Some (wk_gen w')"
      using owned can by (auto simp: slots_owned_def)
    then show "map_of (ag_forwards d) (wk_conn w') = Some (wk_gen w')"
      using other [OF w'(1)] by (auto simp: fw)
  qed
  moreover have "gens_ok ws (as_starts s) d"
  proof -
    have "ag_gen d = ag_gen ?d"
      by (simp add: d endAgentForwardGen_def)
    moreover have "\<forall>g \<in> set (ag_canceled d). unat g \<le> as_starts s"
      using gens can(2) by (auto simp: gens_ok_def)
    moreover have "count (image_mset wk_gen ws) g = 1" if "g \<in># image_mset wk_gen ws" for g
    proof -
      have "g \<noteq> wk_gen w"
        using that other by auto
      moreover have "count (image_mset wk_gen (add_mset w ws)) g = 1"
        using gens that unfolding gens_ok_def by auto
      ultimately show ?thesis
        by simp
    qed
    ultimately show ?thesis
      using gens by (simp add: gens_ok_def)
  qed
  ultimately show ?thesis
    by (simp add: agent_inv_def)
qed

lemma agent_step_inv:
  assumes "agent_step s s'" "agent_inv s" "as_starts s' < 2 ^ 64"
  shows "agent_inv s'"
  using assms
proof (induction rule: agent_step.induct)
  case (start s n)
  then show ?case
    by (simp only: inv_start)
next
  case (stop s n)
  then show ?case
    by (simp only: inv_stop)
next
  case (teardown s)
  show ?case
    by (rule inv_cancel_all [OF teardown(1)]) (simp_all add: teardownAgents_def)
next
  case (close s)
  show ?case
  proof (cases "ag_closed (as_daemon s)")
    case True
    then show ?thesis
      using close(1) by (simp add: closeAgents_def)
  next
    case False
    then show ?thesis
      by (intro inv_cancel_all [OF close(1)]) (simp_all add: closeAgents_def)
  qed
next
  case (work s w ws pc d)
  then show ?case
    using worker_step_frame [OF work(2)] by (intro inv_work) simp_all
next
  case (finish s w ws d)
  from finish(2) have "d = endAgentForwardGen (wk_conn w) (wk_gen w) (as_daemon s)"
    by (cases rule: worker_step_NoneE) simp
  then show ?case
    using finish by (intro inv_end)
qed

lemma agent_starts_mono: "agent_step s s' \<Longrightarrow> as_starts s \<le> as_starts s'"
  by (induction rule: agent_step.induct) simp_all

interpretation agent_runs: preserved agent_step "\<lambda>s. as_starts s < 2 ^ 64 \<longrightarrow> agent_inv s"
proof unfold_locales
  fix s s'
  assume step: "agent_step s s'" and "as_starts s < 2 ^ 64 \<longrightarrow> agent_inv s"
  then show "as_starts s' < 2 ^ 64 \<longrightarrow> agent_inv s'"
    using agent_step_inv [OF step] agent_starts_mono [OF step] by linarith
qed

lemma agent_reachable_inv: "agent_step\<^sup>*\<^sup>* agent_start s \<Longrightarrow> as_starts s < 2 ^ 64 \<Longrightarrow> agent_inv s"
  using agent_runs.run_keeps [of agent_start s] by (simp add: agent_start_def agent_inv_def slots_owned_def gens_ok_def)

text \<open>
  C13. As long as there were fewer than \<open>2 ^ 64\<close> starts, in every interleaving of workers, stops, teardowns and the
  closing of the daemon: the slot of a connection is held by exactly one running worker, which is a worker for that
  connection, so that no slot stays taken without a worker; and a worker whose context is not canceled is the one
  that holds the slot of its connection, so that there is at most one of them per connection. In particular a
  worker that ends late never frees the slot of a newer one.
\<close>

theorem agent_slot_has_one_worker:
  assumes run: "agent_step\<^sup>*\<^sup>* agent_start s" and few: "as_starts s < 2 ^ 64"
  shows "(\<forall>n g. map_of (ag_forwards (as_daemon s)) n = Some g \<longrightarrow>
            (\<exists>w. {#v \<in># as_workers s. wk_gen v = g#} = {#w#} \<and> wk_conn w = n)) \<and>
    (\<forall>w \<in># as_workers s. wk_gen w \<notin> set (ag_canceled (as_daemon s)) \<longrightarrow>
       map_of (ag_forwards (as_daemon s)) (wk_conn w) = Some (wk_gen w)) \<and>
    (\<forall>w \<in># as_workers s. map_of (ag_forwards (as_daemon s)) (wk_conn w) \<noteq> Some (wk_gen w) \<longrightarrow>
       endAgentForwardGen (wk_conn w) (wk_gen w) (as_daemon s) = as_daemon s)"
proof -
  note inv = agent_reachable_inv [OF run few]
  have owned: "slots_owned (as_workers s) (as_daemon s)" and gens: "gens_ok (as_workers s) (as_starts s) (as_daemon s)"
    using inv by (simp_all add: agent_inv_def)
  have "\<exists>w. {#v \<in># as_workers s. wk_gen v = g#} = {#w#} \<and> wk_conn w = n"
    if slot: "map_of (ag_forwards (as_daemon s)) n = Some g" for n g
  proof -
    obtain w where w: "w \<in># as_workers s" "wk_conn w = n" "wk_gen w = g"
      using owned slot unfolding slots_owned_def by blast
    have "size {#v \<in># as_workers s. wk_gen v = g#} = count (image_mset wk_gen (as_workers s)) g"
      by (rule size_filter_image)
    also have "\<dots> = 1"
      using gens w by (auto simp: gens_ok_def)
    finally obtain v where "{#v \<in># as_workers s. wk_gen v = g#} = {#v#}"
      using size_1_singleton_mset by blast
    moreover have "w \<in># {#v \<in># as_workers s. wk_gen v = g#}"
      using w by simp
    ultimately have "{#v \<in># as_workers s. wk_gen v = g#} = {#w#}"
      by simp
    then show ?thesis
      using w(2) by blast
  qed
  then show ?thesis
    using owned by (auto simp: slots_owned_def endAgentForwardGen_def)
qed

definition exAgent :: agent_sys where
  "exAgent = startAgentForward ''b'' agent_start"

theorem agent_slot_has_one_worker_witness:
  "agent_step\<^sup>*\<^sup>* agent_start exAgent \<and> as_starts exAgent < 2 ^ 64 \<and>
   (\<exists>w. {#v \<in># as_workers exAgent. wk_gen v = 1#} = {#w#} \<and> wk_conn w = ''b'')"
proof -
  have run: "agent_step\<^sup>*\<^sup>* agent_start exAgent"
    unfolding exAgent_def by (rule r_into_rtranclp) (rule agent_step.start)
  have few: "as_starts exAgent < 2 ^ 64"
    by (simp add: exAgent_def agent_start_def)
  have "map_of (ag_forwards (as_daemon exAgent)) ''b'' = Some 1"
    by (simp add: exAgent_def agent_start_def startAgentForward_def tryBeginAgentForward_def Let_def)
  then show ?thesis
    using agent_slot_has_one_worker [OF run few] run few by blast
qed

subsection \<open>A failure recorded behind a stop\<close>

definition exAt :: "worker_pc \<Rightarrow> agent_daemon \<Rightarrow> agent_sys" where
  "exAt pc d = \<lparr>as_daemon = d, as_workers = {#\<lparr>wk_conn = ''b'', wk_gen = 1, wk_pc = pc\<rparr>#}, as_starts = 1\<rparr>"

lemma exAgent_at: "exAgent = exAt Serving (as_daemon exAgent)"
  by (simp add: exAgent_def exAt_def agent_start_def startAgentForward_def tryBeginAgentForward_def Let_def)

lemma exAt_step:
  assumes "worker_step \<lparr>wk_conn = ''b'', wk_gen = 1, wk_pc = pc\<rparr> d (Some pc') d'"
  shows "agent_step (exAt pc d) (exAt pc' d')"
proof -
  have "agent_step (exAt pc d) ((exAt pc d)\<lparr>as_daemon := d',
      as_workers := add_mset (\<lparr>wk_conn = ''b'', wk_gen = 1, wk_pc = pc\<rparr>\<lparr>wk_pc := pc'\<rparr>) {#}\<rparr>)"
    by (rule agent_step.work) (simp_all add: exAt_def assms)
  then show ?thesis
    by (simp add: exAt_def)
qed

text \<open>
  An explicit stop does not always start the waiting times afresh: a worker that fails and finds its context
  alive, and is then overtaken by the stop, records its failure after the stop has cleared the record. The slot is
  free at that point, so that the first failure of the next forward counts as the second one.
\<close>

theorem failure_is_recorded_behind_a_stop:
  "\<exists>s0 s. agent_step\<^sup>*\<^sup>* agent_start s0 \<and>
     agent_step\<^sup>*\<^sup>* (s0\<lparr>as_daemon := stopAgentForward ''b'' (as_daemon s0)\<rparr>) s \<and>
     ag_forwards (as_daemon s) = [] \<and> ag_failures (as_daemon s) = [(''b'', 1)] \<and>
     (let (n, _) = recordFailure ''b'' (as_daemon s) in agentForwardBackoffFor n) = Some (2 * second)"
proof -
  let ?d = "as_daemon exAgent"
  let ?d1 = "stopAgentForward ''b'' ?d"
  let ?d2 = "snd (recordFailure ''b'' ?d1)"
  have "agent_step\<^sup>*\<^sup>* agent_start exAgent"
    unfolding exAgent_def by (rule r_into_rtranclp) (rule agent_step.start)
  moreover have "agent_step exAgent (exAt Failing ?d)"
    by (subst exAgent_at) (rule exAt_step, rule worker_step.failed, simp)
  moreover have "agent_step (exAt Failing ?d) (exAt Recording ?d)"
    by (rule exAt_step, rule worker_step.not_canceled)
      (simp_all add: exAgent_def agent_start_def startAgentForward_def tryBeginAgentForward_def Let_def)
  ultimately have first: "agent_step\<^sup>*\<^sup>* agent_start (exAt Recording ?d)"
    by (meson rtranclp.rtrancl_into_rtrancl)
  have stopped: "(exAt Recording ?d)\<lparr>as_daemon := stopAgentForward ''b'' (as_daemon (exAt Recording ?d))\<rparr> = exAt Recording ?d1"
    by (simp add: exAt_def)
  have "agent_step (exAt Recording ?d1) (exAt (Holding (agentForwardBackoffFor (fst (recordFailure ''b'' ?d1)))) ?d2)"
    by (rule exAt_step, rule worker_step.record_failure) simp_all
  then have second: "agent_step\<^sup>*\<^sup>* (exAt Recording ?d1) (exAt (Holding (agentForwardBackoffFor (fst (recordFailure ''b'' ?d1)))) ?d2)"
    by (rule r_into_rtranclp)
  have d2: "ag_forwards ?d2 = []" "ag_failures ?d2 = [(''b'', 1)]"
    by (simp_all add: exAgent_def agent_start_def startAgentForward_def tryBeginAgentForward_def stopAgentForward_def
        endAgentForward_def recordFailure_def Let_def)
  then have "fst (recordFailure ''b'' ?d2) = 2"
    by (simp add: recordFailure_def [of _ ?d2] Let_def)
  then have "(let (n, _) = recordFailure ''b'' ?d2 in agentForwardBackoffFor n) = Some (2 * second)"
    by (simp add: case_prod_beta agentForwardBackoffFor_closed second_def)
  then show ?thesis
    using first second d2 unfolding stopped [symmetric]
    by (intro exI [of _ "exAt Recording ?d"] exI conjI) (assumption | simp add: exAt_def)+
qed

end
