(* ===== verification/RemoteDaemon.thy ===== *)
theory RemoteDaemon
  imports Connection Version PortForward AgentForward
begin

text \<open>
  The life of a remote daemon (\<^verbatim>\<open>pkg/remote_daemon.go\<close>): finding out about the remote host, installing the daemon
  there when it is missing or of another version, the first initialization, the reconnection loop and closing.
  What the connector answers is an argument; a connection to the remote daemon is a number, and the record of a
  daemon counts the connections that are open and the actions taken on the remote host.
\<close>

subsection \<open>Discovery\<close>

datatype daemon_error =
    RemoteFailed string | ShortOutput nat | UnknownOS string | UnknownArch string | NoSocketPath
  | NoBinary string | MkdirFailed string | CopyFailed string | StartFailed string | ConnectFailed string
  | NotConnected | ContextDone

record discoveryInfo =
  di_OS :: string
  di_Arch :: string
  di_HomeDir :: string
  di_RemoteSocketPath :: string

definition parseDetectedOS :: "string \<Rightarrow> daemon_error + string" where
  "parseDetectedOS raw =
     (let foundOS = ToLower (TrimSpace raw) in
      if foundOS = ''linux'' then Inr ''linux''
      else if foundOS = ''darwin'' then Inr ''darwin''
      else Inl (UnknownOS foundOS))"

definition parseDetectedArch :: "string \<Rightarrow> daemon_error + string" where
  "parseDetectedArch raw =
     (let foundArch = ToLower (TrimSpace raw) in
      if foundArch \<in> {''x86_64'', ''amd64''} then Inr ''amd64''
      else if foundArch \<in> {''aarch64'', ''arm64''} then Inr ''arm64''
      else Inl (UnknownArch foundArch))"

definition discoverCommand :: string where
  "discoverCommand = ''uname -s'' @ '' && '' @ ''uname -m'' @ '' && '' @ ''printenv HOME''"

definition discoverRemote :: "string \<Rightarrow> string + string \<Rightarrow> daemon_error + discoveryInfo" where
  "discoverRemote identity output =
     (case output of
        Inl e \<Rightarrow> Inl (RemoteFailed e)
      | Inr out \<Rightarrow>
          let lines = Split (CHR 0x0A) (TrimSpace out) in
          if length lines < 3 then Inl (ShortOutput (length lines))
          else case parseDetectedOS (lines ! 0) of
            Inl e \<Rightarrow> Inl e
          | Inr detOS \<Rightarrow>
            (case parseDetectedArch (lines ! 1) of
               Inl e \<Rightarrow> Inl e
             | Inr detArch \<Rightarrow>
                let homeDir = TrimSpace (lines ! 2) in
                (case DaemonSocketPathForRemote homeDir identity of
                   None \<Rightarrow> Inl NoSocketPath
                 | Some sockPath \<Rightarrow> Inr \<lparr>di_OS = detOS, di_Arch = detArch, di_HomeDir = homeDir, di_RemoteSocketPath = sockPath\<rparr>)))"

subsection \<open>The daemon\<close>

datatype remote_action = RunCommand string | CopyFile string string string | ConnectTo string string | ShutdownOld

datatype monitor_state = NoMonitor | Running | Canceled

record remote_daemon =
  rd_state :: ConnectionState
  rd_stateReason :: string
  rd_closed :: bool
  rd_reconnecting :: bool
  rd_remoteConn :: "nat option"
  rd_homeDir :: string
  rd_remoteSocketPath :: string
  rd_monitor :: monitor_state
  rd_monitorPort :: monitor_state
  rd_agents :: agent_daemon
  rd_ports :: port_daemon
  rd_reinstalledOnce :: bool
  rd_discovery :: "(daemon_error + discoveryInfo) option"
  rd_open :: "nat list"
  rd_nextConn :: nat
  rd_actions :: "remote_action list"

text \<open>
  The answers of the connector during one attempt. A command is run at most once in an attempt; the two calls of
  \<^verbatim>\<open>ConnectToRemoteDaemon\<close> say whether there is a connection, whether the daemon is online, and the error.
\<close>

record connector_answers =
  an_identity :: string
  an_run :: "string \<Rightarrow> string + string"
  an_binPath :: "string \<Rightarrow> string \<Rightarrow> string + string"
  an_existing :: "bool \<times> bool \<times> string option"
  an_fresh :: "bool \<times> bool \<times> string option"
  an_status :: "VersionInfo option"
  an_canceled :: bool
  an_copy :: "string option"

definition act :: "remote_action \<Rightarrow> remote_daemon \<Rightarrow> remote_daemon" where
  "act x d = d\<lparr>rd_actions := rd_actions d @ [x]\<rparr>"

definition setStateWithReason :: "ConnectionState \<Rightarrow> string \<Rightarrow> remote_daemon \<Rightarrow> remote_daemon" where
  "setStateWithReason newState reason d = d\<lparr>rd_state := newState, rd_stateReason := reason\<rparr>"

definition setState :: "ConnectionState \<Rightarrow> remote_daemon \<Rightarrow> remote_daemon" where
  "setState newState d = setStateWithReason newState '''' d"

definition setConnectedState :: "string \<Rightarrow> string \<Rightarrow> nat option \<Rightarrow> remote_daemon \<Rightarrow> remote_daemon" where
  "setConnectedState homeDir remoteSocketPath remoteConn d =
     d\<lparr>rd_homeDir := homeDir, rd_remoteSocketPath := remoteSocketPath, rd_remoteConn := remoteConn\<rparr>"

definition lockedRemoteClientConn :: "remote_daemon \<Rightarrow> nat option" where
  "lockedRemoteClientConn d = rd_remoteConn d"

definition discover :: "connector_answers \<Rightarrow> remote_daemon \<Rightarrow> (daemon_error + discoveryInfo) \<times> remote_daemon" where
  "discover a d =
     (case rd_discovery d of
        Some r \<Rightarrow> (r, d)
      | None \<Rightarrow>
          let r = discoverRemote (an_identity a) (an_run a discoverCommand)
          in (r, (act (RunCommand discoverCommand) d)\<lparr>rd_discovery := Some r\<rparr>))"

definition resetDiscovery :: "remote_daemon \<Rightarrow> remote_daemon" where
  "resetDiscovery d = d\<lparr>rd_discovery := None\<rparr>"

definition alreadyInstalled :: "remote_daemon \<Rightarrow> bool" where
  "alreadyInstalled d = rd_reinstalledOnce d"

definition markInstalled :: "remote_daemon \<Rightarrow> remote_daemon" where
  "markInstalled d = d\<lparr>rd_reinstalledOnce := True\<rparr>"

definition resetInstallState :: "remote_daemon \<Rightarrow> remote_daemon" where
  "resetInstallState d = d\<lparr>rd_reinstalledOnce := False\<rparr>"

definition closeConn :: "nat option \<Rightarrow> remote_daemon \<Rightarrow> remote_daemon" where
  "closeConn conn d = (case conn of None \<Rightarrow> d | Some c \<Rightarrow> d\<lparr>rd_open := removeAll c (rd_open d)\<rparr>)"

definition connectTo ::
    "bool \<times> bool \<times> string option \<Rightarrow> string \<Rightarrow> string \<Rightarrow> remote_daemon \<Rightarrow> nat option \<times> bool \<times> string option \<times> remote_daemon" where
  "connectTo answer daemonPath sockPath d =
     (case answer of (present, online, err) \<Rightarrow>
        let d1 = act (ConnectTo daemonPath sockPath) d in
        if present
        then (Some (rd_nextConn d), online, err, d1\<lparr>rd_open := rd_nextConn d # rd_open d, rd_nextConn := rd_nextConn d + 1\<rparr>)
        else (None, online, err, d1))"

definition succeeds :: "string + string \<Rightarrow> bool" where
  "succeeds r = (case r of Inl _ \<Rightarrow> False | Inr _ \<Rightarrow> True)"

subsection \<open>Installation\<close>

definition remoteDaemonBinPath ::
    "connector_answers \<Rightarrow> string \<Rightarrow> string \<Rightarrow> string \<Rightarrow> remote_daemon \<Rightarrow> (daemon_error + string) \<times> remote_daemon" where
  "remoteDaemonBinPath a homeDir graftBinPath remoteSocketPath d =
     (let binBase = Base graftBinPath in
      if an_identity a = '''' then (Inr (PathJoin [homeDir, binBase]), d)
      else
        let daemonDir = Dir remoteSocketPath;
            cmd = ''mkdir -p '' @ daemonDir;
            d1 = act (RunCommand cmd) d in
        case an_run a cmd of
          Inl e \<Rightarrow> (Inl (MkdirFailed e), d1)
        | Inr _ \<Rightarrow> (Inr (PathJoin [daemonDir, binBase]), d1))"

definition tryConnectExistingDaemon ::
    "connector_answers \<Rightarrow> string \<Rightarrow> string \<Rightarrow> remote_daemon \<Rightarrow> nat option \<times> bool \<times> remote_daemon" where
  "tryConnectExistingDaemon a daemonPath remoteSocketPath d =
     (let cmd = ''stat '' @ daemonPath; d1 = act (RunCommand cmd) d in
      if \<not> succeeds (an_run a cmd) then (None, False, d1)
      else let (conn, online, _, d2) = connectTo (an_existing a) daemonPath remoteSocketPath d1 in (conn, online, d2))"

definition checkReinstallNeeded :: "VersionInfo \<Rightarrow> connector_answers \<Rightarrow> bool" where
  "checkReinstallNeeded ourVersion a =
     (case an_status a of None \<Rightarrow> True | Some v \<Rightarrow> BuildVersionsEqual v ourVersion \<noteq> '''')"

definition daemonArgs :: "string \<Rightarrow> string \<Rightarrow> bool \<Rightarrow> string" where
  "daemonArgs identity daemonPath replace =
     daemonPath @ '' daemon --as-remote''
       @ (if identity \<noteq> '''' then '' --identity '' @ identity else '''')
       @ (if replace then '' --replace'' else '''')"

definition startCommand :: "string \<Rightarrow> string \<Rightarrow> string \<Rightarrow> bool \<Rightarrow> string" where
  "startCommand logLevel identity daemonPath replace =
     ''GRAFT_LOG_LEVEL='' @ logLevel @ '' bash -ic '' @ [CHR 0x27] @ daemonArgs identity daemonPath replace @ [CHR 0x27]"

definition reinstallDaemon ::
    "string \<Rightarrow> connector_answers \<Rightarrow> string \<Rightarrow> string \<Rightarrow> nat option \<Rightarrow> bool \<Rightarrow> remote_daemon \<Rightarrow> daemon_error option \<times> remote_daemon" where
  "reinstallDaemon logLevel a daemonPath graftBinPath remoteConn replace d =
     (if alreadyInstalled d then (None, d)
      else
        let d1 = markInstalled d;
            d2 = (if remoteConn \<noteq> None then act ShutdownOld d1 else d1) in
        if remoteConn \<noteq> None \<and> an_canceled a then (Some ContextDone, d2)
        else
          let d3 = act (CopyFile graftBinPath daemonPath ''770'') (act (RunCommand (''rm -f '' @ daemonPath)) d2);
              cmd = startCommand logLevel (an_identity a) daemonPath replace in
          case an_copy a of
            Some e \<Rightarrow> (Some (CopyFailed e), d3)
          | None \<Rightarrow>
              (case an_run a cmd of
                 Inl e \<Rightarrow> (Some (StartFailed e), act (RunCommand cmd) d3)
               | Inr _ \<Rightarrow> (None, act (RunCommand cmd) d3)))"

text \<open>The end of \<^verbatim>\<open>ensureDaemon\<close>: installation when it is needed, and the connection that is kept.\<close>

definition ensureInstalled ::
    "VersionInfo \<Rightarrow> string \<Rightarrow> connector_answers \<Rightarrow> discoveryInfo \<Rightarrow> string \<Rightarrow> string \<Rightarrow> nat option \<Rightarrow> bool \<Rightarrow> remote_daemon
     \<Rightarrow> daemon_error option \<times> remote_daemon" where
  "ensureInstalled ourVersion logLevel a info graftBinPath daemonPath remoteConn online d =
     (let missing = (\<not> online \<or> remoteConn = None);
          d1 = (if missing then resetInstallState d else d) in
      if missing \<or> checkReinstallNeeded ourVersion a then
        (case reinstallDaemon logLevel a daemonPath graftBinPath remoteConn True d1 of
           (Some e, d2) \<Rightarrow> (Some e, closeConn remoteConn d2)
         | (None, d2) \<Rightarrow>
             let (conn, ok, err, d3) = connectTo (an_fresh a) daemonPath (di_RemoteSocketPath info) (closeConn remoteConn d2) in
             (case err of
                Some e \<Rightarrow> (Some (ConnectFailed e), closeConn conn d3)
              | None \<Rightarrow>
                  if \<not> ok then (Some NotConnected, closeConn conn d3)
                  else (None, setConnectedState (di_HomeDir info) (di_RemoteSocketPath info) conn d3)))
      else (None, setConnectedState (di_HomeDir info) (di_RemoteSocketPath info) remoteConn d1))"

definition ensureDaemon ::
    "VersionInfo \<Rightarrow> string \<Rightarrow> connector_answers \<Rightarrow> remote_daemon \<Rightarrow> daemon_error option \<times> remote_daemon" where
  "ensureDaemon ourVersion logLevel a d =
     (case discover a d of
        (Inl e, d1) \<Rightarrow> (Some e, d1)
      | (Inr info, d1) \<Rightarrow>
          (case an_binPath a (di_OS info) (di_Arch info) of
             Inl e \<Rightarrow> (Some (NoBinary e), d1)
           | Inr graftBinPath \<Rightarrow>
               (case remoteDaemonBinPath a (di_HomeDir info) graftBinPath (di_RemoteSocketPath info) d1 of
                  (Inl e, d2) \<Rightarrow> (Some e, d2)
                | (Inr daemonPath, d2) \<Rightarrow>
                    let (conn, online, d3) = tryConnectExistingDaemon a daemonPath (di_RemoteSocketPath info) d2
                    in ensureInstalled ourVersion logLevel a info graftBinPath daemonPath conn online d3)))"

subsection \<open>Initialization, reconnection, closing\<close>

text \<open>
  \<^verbatim>\<open>cancelMonitor\<close> and \<^verbatim>\<open>cancelMonitorPort\<close>: nil, set for a monitor that runs, or set and called.
\<close>

definition monitor :: "remote_daemon \<Rightarrow> remote_daemon" where
  "monitor d = (if rd_monitor d = NoMonitor then d\<lparr>rd_monitor := Running\<rparr> else d)"

definition monitorPorts :: "remote_daemon \<Rightarrow> remote_daemon" where
  "monitorPorts d = (if rd_monitorPort d = NoMonitor then d\<lparr>rd_monitorPort := Running\<rparr> else d)"

definition cancelMonitors :: "remote_daemon \<Rightarrow> remote_daemon" where
  "cancelMonitors d =
     d\<lparr>rd_monitor := (if rd_monitor d = NoMonitor then NoMonitor else Canceled),
       rd_monitorPort := (if rd_monitorPort d = NoMonitor then NoMonitor else Canceled)\<rparr>"

datatype after_transport = AfterOk | AfterSuperseded | AfterFailed

datatype init_error = TransportFailed | CallbackFailed bool | EnsureFailed daemon_error

text \<open>
  \<^verbatim>\<open>doInitialize\<close> up to the moment its result is known, and the rest. A superseded daemon keeps its state.
\<close>

definition initWork ::
    "VersionInfo \<Rightarrow> string \<Rightarrow> bool \<Rightarrow> after_transport \<Rightarrow> connector_answers \<Rightarrow> remote_daemon \<Rightarrow> init_error option \<times> remote_daemon" where
  "initWork ourVersion logLevel transport after a d =
     (if \<not> transport then (Some TransportFailed, d)
      else case after of
        AfterSuperseded \<Rightarrow> (Some (CallbackFailed True), d)
      | AfterFailed \<Rightarrow> (Some (CallbackFailed False), d)
      | AfterOk \<Rightarrow>
          (case ensureDaemon ourVersion logLevel a d of
             (Some e, d1) \<Rightarrow> (Some (EnsureFailed e), d1)
           | (None, d1) \<Rightarrow> (None, d1)))"

definition initEnd :: "init_error option \<Rightarrow> remote_daemon \<Rightarrow> remote_daemon" where
  "initEnd r d =
     (case r of
        None \<Rightarrow> monitorPorts (monitor (setState ConnectionStateConnected d))
      | Some (CallbackFailed True) \<Rightarrow> d
      | Some _ \<Rightarrow> setState ConnectionStateFailed d)"

definition teardownForReconnect :: "remote_daemon \<Rightarrow> remote_daemon" where
  "teardownForReconnect d =
     closeConn (rd_remoteConn d)
       (d\<lparr>rd_monitor := NoMonitor, rd_monitorPort := NoMonitor, rd_agents := teardownAgents (rd_agents d),
          rd_ports := teardownPorts (rd_ports d), rd_remoteConn := None\<rparr>)"

definition reconnectOnce ::
    "VersionInfo \<Rightarrow> string \<Rightarrow> bool \<Rightarrow> connector_answers \<Rightarrow> remote_daemon \<Rightarrow> bool \<times> remote_daemon" where
  "reconnectOnce ourVersion logLevel transport a d =
     (if \<not> transport then (False, d)
      else case ensureDaemon ourVersion logLevel a (resetDiscovery d) of
        (Some _, d1) \<Rightarrow> (False, d1)
      | (None, d1) \<Rightarrow> (True, d1))"

definition reconnectBegin :: "remote_daemon \<Rightarrow> remote_daemon option" where
  "reconnectBegin d =
     (if rd_closed d \<or> rd_reconnecting d then None
      else Some (d\<lparr>rd_reconnecting := True, rd_state := ConnectionStateReconnecting\<rparr>))"

text \<open>The critical section after an attempt: whether the loop goes on, and the daemon.\<close>

definition reconnectTried :: "bool \<Rightarrow> remote_daemon \<Rightarrow> bool \<times> remote_daemon" where
  "reconnectTried ok d =
     (if rd_closed d then (False, d\<lparr>rd_reconnecting := False\<rparr>)
      else if ok then (False, monitorPorts (monitor (d\<lparr>rd_state := ConnectionStateConnected, rd_reconnecting := False\<rparr>)))
      else (True, d))"

definition rd_Close :: "remote_daemon \<Rightarrow> remote_daemon" where
  "rd_Close d =
     (if rd_closed d then d
      else closeConn (rd_remoteConn d)
        ((cancelMonitors d)\<lparr>rd_closed := True, rd_state := ConnectionStateClosed,
           rd_agents := closeAgents (rd_agents d), rd_ports := closePorts (rd_ports d)\<rparr>))"

text \<open>
  A daemon with what runs on it: the channel of the first initialization (absent, open or closed), where that
  initialization is, the reconnections that the health check has started and that have not run yet, and the
  reconnection loops.
\<close>

datatype init_pc = InitWorking | InitTried "init_error option"
datatype loop_pc = LoopTeardown | LoopTry | LoopTried bool | LoopWait

record life =
  lf_daemon :: remote_daemon
  lf_initDone :: "bool option"
  lf_init :: "init_pc option"
  lf_pending :: nat
  lf_loops :: "loop_pc list"

definition newRemoteDaemon :: remote_daemon where
  "newRemoteDaemon =
     \<lparr>rd_state = ConnectionStateNew, rd_stateReason = '''', rd_closed = False, rd_reconnecting = False,
      rd_remoteConn = None, rd_homeDir = '''', rd_remoteSocketPath = '''', rd_monitor = NoMonitor,
      rd_monitorPort = NoMonitor,
      rd_agents = \<lparr>ag_closed = False, ag_forwards = [], ag_gen = 0, ag_failures = [], ag_canceled = []\<rparr>,
      rd_ports = newPortDaemon, rd_reinstalledOnce = False, rd_discovery = None, rd_open = [], rd_nextConn = 0,
      rd_actions = []\<rparr>"

definition life_start :: life where
  "life_start = \<lparr>lf_daemon = newRemoteDaemon, lf_initDone = None, lf_init = None, lf_pending = 0, lf_loops = []\<rparr>"

text \<open>The contract of \<^verbatim>\<open>ConnectToRemoteDaemon\<close>: a daemon that is online comes with a connection.\<close>

definition connector_ok :: "connector_answers \<Rightarrow> bool" where
  "connector_ok a \<longleftrightarrow>
     (fst (snd (an_existing a)) \<longrightarrow> fst (an_existing a)) \<and> (fst (snd (an_fresh a)) \<longrightarrow> fst (an_fresh a))"

text \<open>
  The health check starts a reconnection of a daemon that has failed or is connected and does not answer; both
  happen after the first initialization has returned its result.
\<close>

inductive life_step :: "VersionInfo \<Rightarrow> string \<Rightarrow> life \<Rightarrow> life \<Rightarrow> bool" for ourVersion logLevel where
  init_begin: "lf_initDone s = None \<Longrightarrow> rd_state (lf_daemon s) = ConnectionStateNew \<Longrightarrow>
    life_step ourVersion logLevel s
      (s\<lparr>lf_daemon := (lf_daemon s)\<lparr>rd_state := ConnectionStateInitializing\<rparr>, lf_initDone := Some False,
         lf_init := Some InitWorking\<rparr>)"
| init_work: "lf_init s = Some InitWorking \<Longrightarrow> connector_ok a \<Longrightarrow>
    initWork ourVersion logLevel transport after a (lf_daemon s) = (r, d) \<Longrightarrow>
    life_step ourVersion logLevel s (s\<lparr>lf_daemon := d, lf_init := Some (InitTried r)\<rparr>)"
| init_end: "lf_init s = Some (InitTried r) \<Longrightarrow>
    life_step ourVersion logLevel s
      (s\<lparr>lf_daemon := initEnd r (lf_daemon s), lf_init := None, lf_initDone := Some True\<rparr>)"
| health: "rd_state (lf_daemon s) \<in> {ConnectionStateFailed, ConnectionStateConnected} \<Longrightarrow>
    life_step ourVersion logLevel s (s\<lparr>lf_pending := lf_pending s + 1\<rparr>)"
| refused: "lf_pending s = Suc n \<Longrightarrow> reconnectBegin (lf_daemon s) = None \<Longrightarrow>
    life_step ourVersion logLevel s (s\<lparr>lf_pending := n\<rparr>)"
| reconnect: "lf_pending s = Suc n \<Longrightarrow> reconnectBegin (lf_daemon s) = Some d \<Longrightarrow>
    life_step ourVersion logLevel s (s\<lparr>lf_pending := n, lf_daemon := d, lf_loops := LoopTeardown # lf_loops s\<rparr>)"
| teardown: "lf_loops s = xs @ LoopTeardown # ys \<Longrightarrow>
    life_step ourVersion logLevel s
      (s\<lparr>lf_daemon := teardownForReconnect (lf_daemon s), lf_loops := xs @ LoopTry # ys\<rparr>)"
| attempt: "lf_loops s = xs @ LoopTry # ys \<Longrightarrow> connector_ok a \<Longrightarrow>
    reconnectOnce ourVersion logLevel transport a (lf_daemon s) = (ok, d) \<Longrightarrow>
    life_step ourVersion logLevel s (s\<lparr>lf_daemon := d, lf_loops := xs @ LoopTried ok # ys\<rparr>)"
| tried: "lf_loops s = xs @ LoopTried ok # ys \<Longrightarrow> reconnectTried ok (lf_daemon s) = (again, d) \<Longrightarrow>
    life_step ourVersion logLevel s
      (s\<lparr>lf_daemon := d, lf_loops := (if again then xs @ LoopWait # ys else xs @ ys)\<rparr>)"
| waited: "lf_loops s = xs @ LoopWait # ys \<Longrightarrow>
    life_step ourVersion logLevel s (s\<lparr>lf_loops := xs @ LoopTry # ys\<rparr>)"
| run_done: "lf_loops s = xs @ LoopWait # ys \<Longrightarrow>
    life_step ourVersion logLevel s
      (s\<lparr>lf_daemon := (lf_daemon s)\<lparr>rd_reconnecting := False\<rparr>, lf_loops := xs @ ys\<rparr>)"
| close: "life_step ourVersion logLevel s (s\<lparr>lf_daemon := rd_Close (lf_daemon s)\<rparr>)"

subsection \<open>What an installation attempt leaves\<close>

definition conns_ok :: "remote_daemon \<Rightarrow> bool" where
  "conns_ok d \<longleftrightarrow> (\<forall>c \<in> set (rd_open d). c < rd_nextConn d)"

text \<open>An attempt touches nothing else: state, flags, monitors and forwards are as before.\<close>

definition same_life :: "remote_daemon \<Rightarrow> remote_daemon \<Rightarrow> bool" where
  "same_life d d' \<longleftrightarrow>
     rd_state d' = rd_state d \<and> rd_stateReason d' = rd_stateReason d \<and> rd_closed d' = rd_closed d \<and>
     rd_reconnecting d' = rd_reconnecting d \<and> rd_monitor d' = rd_monitor d \<and> rd_monitorPort d' = rd_monitorPort d \<and>
     rd_agents d' = rd_agents d \<and> rd_ports d' = rd_ports d"

lemma same_life_refl [simp]: "same_life d d"
  by (simp add: same_life_def)

lemma same_life_trans: "same_life d d1 \<Longrightarrow> same_life d1 d2 \<Longrightarrow> same_life d d2"
  by (simp add: same_life_def)

text \<open>The actions a call has added.\<close>

definition added :: "remote_daemon \<Rightarrow> remote_daemon \<Rightarrow> remote_action list" where
  "added d d' = drop (length (rd_actions d)) (rd_actions d')"

definition copies :: "remote_action list \<Rightarrow> bool" where
  "copies xs \<longleftrightarrow> (\<exists>x \<in> set xs. case x of CopyFile _ _ _ \<Rightarrow> True | _ \<Rightarrow> False)"

definition grows :: "remote_daemon \<Rightarrow> remote_daemon \<Rightarrow> bool" where
  "grows d d' \<longleftrightarrow> (\<exists>xs. rd_actions d' = rd_actions d @ xs)"

lemma grows_refl [simp]: "grows d d"
  by (simp add: grows_def)

lemma grows_trans: "grows d d1 \<Longrightarrow> grows d1 d2 \<Longrightarrow> grows d d2"
  by (auto simp: grows_def)

lemma copies_append [simp]: "copies (xs @ ys) \<longleftrightarrow> copies xs \<or> copies ys" "\<not> copies []"
  "copies (x # ys) \<longleftrightarrow> (case x of CopyFile _ _ _ \<Rightarrow> True | _ \<Rightarrow> False) \<or> copies ys"
  by (auto simp: copies_def)

lemma added_trans: "grows d d1 \<Longrightarrow> grows d1 d2 \<Longrightarrow> added d d2 = added d d1 @ added d1 d2"
  by (auto simp: grows_def added_def)

lemma added_refl [simp]: "added d d = []"
  by (simp add: added_def)

text \<open>A step before the installation: it only runs commands that copy nothing and keeps the connections.\<close>

definition prepares :: "remote_daemon \<Rightarrow> remote_daemon \<Rightarrow> bool" where
  "prepares d d' \<longleftrightarrow>
     same_life d d' \<and> grows d d' \<and> \<not> copies (added d d') \<and> rd_remoteConn d' = rd_remoteConn d \<and>
     rd_reinstalledOnce d' = rd_reinstalledOnce d \<and> rd_open d' = rd_open d \<and> rd_nextConn d' = rd_nextConn d"

lemma prepares_trans:
  assumes "prepares d d1" "prepares d1 d2"
  shows "prepares d d2"
proof -
  have g: "grows d d1" "grows d1 d2" and c: "\<not> copies (added d d1)" "\<not> copies (added d1 d2)"
    and l: "same_life d d1" "same_life d1 d2"
    using assms by (simp_all add: prepares_def)
  have "\<not> copies (added d d2)"
    using c by (simp add: added_trans [OF g])
  then show ?thesis
    using assms grows_trans [OF g] same_life_trans [OF l] by (simp add: prepares_def)
qed

lemma prepares_refl [simp]: "prepares d d"
  by (simp add: prepares_def)

lemma prepares_run [simp]: "prepares d (act (RunCommand cmd) d)"
  by (simp add: prepares_def act_def same_life_def grows_def added_def)

lemma discover_prepares: "discover a d = (r, d') \<Longrightarrow> prepares d d'"
  by (auto simp: discover_def prepares_def act_def same_life_def grows_def added_def Let_def split: option.splits)

lemma binPath_prepares: "remoteDaemonBinPath a h g s d = (r, d') \<Longrightarrow> prepares d d'"
  by (auto simp: remoteDaemonBinPath_def Let_def split: if_splits sum.splits)

text \<open>Connections: the one that is new, and none.\<close>

definition with_conn :: "remote_daemon \<Rightarrow> nat option \<Rightarrow> remote_daemon \<Rightarrow> bool" where
  "with_conn d conn d' \<longleftrightarrow>
     conns_ok d' \<and> rd_nextConn d \<le> rd_nextConn d' \<and> rd_remoteConn d' = rd_remoteConn d \<and> same_life d d' \<and> grows d d' \<and>
     (case conn of None \<Rightarrow> rd_open d' = rd_open d | Some c \<Rightarrow> rd_nextConn d \<le> c \<and> rd_open d' = c # rd_open d)"

lemma holds_close:
  assumes "conns_ok d" "with_conn d conn d'"
  shows "with_conn d None (closeConn conn d')" and "added d (closeConn conn d') = added d d'"
proof -
  have "removeAll c (rd_open d) = rd_open d" if "rd_nextConn d \<le> c" for c
    using assms(1) that by (intro removeAll_id) (auto simp: conns_ok_def)
  then show "with_conn d None (closeConn conn d')" "added d (closeConn conn d') = added d d'"
    using assms by (auto simp: with_conn_def closeConn_def conns_ok_def same_life_def grows_def added_def split: option.splits)
qed

lemma grows_app: "rd_actions d' = rd_actions d @ xs \<Longrightarrow> grows d d' \<and> added d d' = xs"
  by (simp add: grows_def added_def)

lemma connectTo_facts:
  assumes "connectTo answer p s d = (conn, online, err, d')"
  shows "grows d d' \<and> added d d' = [ConnectTo p s]" and "rd_reinstalledOnce d' = rd_reinstalledOnce d"
    and "online = fst (snd answer)" and "err = snd (snd answer)" and "conn \<noteq> None \<longleftrightarrow> fst answer"
    and "conn = (if fst answer then Some (rd_nextConn d) else None)"
    and "rd_open d' = (if fst answer then rd_nextConn d # rd_open d else rd_open d)"
    and "rd_nextConn d' = (if fst answer then rd_nextConn d + 1 else rd_nextConn d)"
    and "rd_remoteConn d' = rd_remoteConn d" and "same_life d d'"
proof -
  obtain b c e where answer: "answer = (b, c, e)"
    by (cases answer)
  show "grows d d' \<and> added d d' = [ConnectTo p s]"
    by (rule grows_app) (use assms in \<open>auto simp: connectTo_def act_def Let_def answer split: if_splits\<close>)
  show "rd_reinstalledOnce d' = rd_reinstalledOnce d" "online = fst (snd answer)" "err = snd (snd answer)"
    "conn \<noteq> None \<longleftrightarrow> fst answer" "conn = (if fst answer then Some (rd_nextConn d) else None)"
    "rd_open d' = (if fst answer then rd_nextConn d # rd_open d else rd_open d)"
    "rd_nextConn d' = (if fst answer then rd_nextConn d + 1 else rd_nextConn d)" "rd_remoteConn d' = rd_remoteConn d"
    "same_life d d'"
    using assms by (auto simp: connectTo_def act_def Let_def answer same_life_def split: if_splits)
qed

lemma connectTo_holds:
  assumes ok: "conns_ok d0" and h: "with_conn d0 None d" and c: "connectTo answer p s d = (conn, online, err, d')"
  shows "with_conn d0 conn d'"
proof -
  note f = connectTo_facts [OF c]
  have "same_life d0 d'" "grows d0 d'"
    using h f(1,10) by (auto simp: with_conn_def intro: same_life_trans grows_trans)
  then show ?thesis
    using h unfolding with_conn_def conns_ok_def f(6-9) by (auto simp: less_Suc_eq)
qed

lemma prepares_holds: "conns_ok d \<Longrightarrow> prepares d d' \<Longrightarrow> with_conn d None d'"
  by (auto simp: prepares_def with_conn_def conns_ok_def)

lemma reinstall_facts:
  assumes "reinstallDaemon l a p g rc b d = (r, d')"
  shows "rd_open d' = rd_open d" and "rd_nextConn d' = rd_nextConn d" and "rd_remoteConn d' = rd_remoteConn d"
    and "same_life d d'" and "rd_reinstalledOnce d'" and "grows d d'"
    and "r = None \<Longrightarrow> rd_reinstalledOnce d \<and> added d d' = [] \<or> copies (added d d')"
proof -
  show "rd_open d' = rd_open d" "rd_nextConn d' = rd_nextConn d" "rd_remoteConn d' = rd_remoteConn d" "same_life d d'"
    "rd_reinstalledOnce d'"
    using assms by (auto simp: reinstallDaemon_def alreadyInstalled_def markInstalled_def Let_def act_def same_life_def
        split: if_splits option.splits sum.splits)
  show "grows d d'" "r = None \<Longrightarrow> rd_reinstalledOnce d \<and> added d d' = [] \<or> copies (added d d')"
    using assms by (auto simp: reinstallDaemon_def alreadyInstalled_def markInstalled_def Let_def act_def grows_def added_def
        split: if_splits option.splits sum.splits)
qed

lemma reinstall_holds:
  assumes h: "with_conn d0 conn d" and r: "reinstallDaemon l a p g rc b d = (r, d')"
  shows "with_conn d0 conn d'"
proof -
  note f = reinstall_facts [OF r]
  have "same_life d0 d'" "grows d0 d'"
    using h f(4,6) by (auto simp: with_conn_def intro: same_life_trans grows_trans)
  then show ?thesis
    using h unfolding with_conn_def conns_ok_def f(1-3) by simp
qed

definition connected_to :: "remote_daemon \<Rightarrow> remote_daemon \<Rightarrow> bool" where
  "connected_to d d' \<longleftrightarrow>
     conns_ok d' \<and> same_life d d' \<and>
     (\<exists>c. rd_remoteConn d' = Some c \<and> rd_nextConn d \<le> c \<and> rd_open d' = c # rd_open d)"

text \<open>
  What stands behind a connection: the remote daemon reported our version, or it was copied there in this attempt,
  or an earlier attempt had set out to install it.
\<close>

definition vouched :: "VersionInfo \<Rightarrow> connector_answers \<Rightarrow> remote_daemon \<Rightarrow> remote_daemon \<Rightarrow> bool" where
  "vouched ourVersion a d d' \<longleftrightarrow>
     (\<exists>v. an_status a = Some v \<and> BuildVersionsEqual v ourVersion = '''') \<or> copies (added d d') \<or> rd_reinstalledOnce d"

lemma setConnected_holds: "with_conn d (Some c) d1 \<Longrightarrow> connected_to d (setConnectedState h s (Some c) d1)"
  by (simp add: with_conn_def connected_to_def setConnectedState_def conns_ok_def same_life_def)

lemma setConnected_added [simp]: "added d (setConnectedState h s c d1) = added d d1" "grows d (setConnectedState h s c d1) = grows d d1"
  by (simp_all add: added_def grows_def setConnectedState_def)

lemma resetInstall_holds: "with_conn d conn d1 \<Longrightarrow> with_conn d conn (resetInstallState d1)"
  by (cases conn) (simp_all add: with_conn_def resetInstallState_def conns_ok_def same_life_def grows_def)

lemma resetInstall_added [simp]: "added d (resetInstallState d1) = added d d1" "added (resetInstallState d1) d = added d1 d"
  "grows d (resetInstallState d1) = grows d d1" "grows (resetInstallState d1) d = grows d1 d"
  "\<not> rd_reinstalledOnce (resetInstallState d1)"
  by (simp_all add: added_def grows_def resetInstallState_def)

lemma closeConn_added [simp]: "added d (closeConn c d1) = added d d1" "grows d (closeConn c d1) = grows d d1"
  "added (closeConn c d1) d = added d1 d" "grows (closeConn c d1) d = grows d1 d"
  by (simp_all add: added_def grows_def closeConn_def split: option.split)

lemma install_then_connect:
  assumes ok: "conns_ok d0" and conn: "connector_ok a" and h: "with_conn d0 rc d"
    and reinst: "reinstallDaemon l a p g rc True d = (None, d2)"
    and fresh: "connectTo (an_fresh a) p s (closeConn rc d2) = (c, on, err, d3)"
  shows "err = None \<Longrightarrow> on \<Longrightarrow> connected_to d0 (setConnectedState hm s c d3) \<and> (rd_reinstalledOnce d \<or> copies (added d d3))"
    and "with_conn d0 None (closeConn c d3)"
proof -
  note f = reinstall_facts [OF reinst]
  have h2: "with_conn d0 None (closeConn rc d2)"
    by (rule holds_close [OF ok reinstall_holds [OF h reinst]])
  note h3 = connectTo_holds [OF ok h2 fresh] and cf = connectTo_facts [OF fresh]
  show "with_conn d0 None (closeConn c d3)"
    by (rule holds_close [OF ok h3])
  assume "err = None" "on"
  then have "c \<noteq> None"
    using conn cf(3,5) by (simp add: connector_ok_def)
  then obtain n where c: "c = Some n"
    by auto
  have "added d d3 = added d d2 @ added d2 d3"
    using f(6) cf(1) by (intro added_trans) simp_all
  then show "connected_to d0 (setConnectedState hm s c d3) \<and> (rd_reinstalledOnce d \<or> copies (added d d3))"
    using setConnected_holds [OF h3 [unfolded c]] f(7) by (auto simp: c)
qed

lemma ensureInstalled_outcome:
  assumes ok: "conns_ok d0" and conn: "connector_ok a" and h: "with_conn d0 rc d"
    and res: "ensureInstalled v l a info g p rc online d = (r, d')"
  shows "r \<noteq> None \<Longrightarrow> with_conn d0 None d'"
    and "r = None \<Longrightarrow> connected_to d0 d' \<and> vouched v a d d'"
proof -
  let ?missing = "\<not> online \<or> rc = None"
  let ?d1 = "if ?missing then resetInstallState d else d"
  have h1: "with_conn d0 rc ?d1"
    using h by (simp add: resetInstall_holds)
  show "r \<noteq> None \<Longrightarrow> with_conn d0 None d'" "r = None \<Longrightarrow> connected_to d0 d' \<and> vouched v a d d'"
  proof (atomize (full), cases "?missing \<or> checkReinstallNeeded v a")
    case False
    then obtain c where c: "rc = Some c"
      by auto
    have "r = None" "d' = setConnectedState (di_HomeDir info) (di_RemoteSocketPath info) rc d"
      using res False by (simp_all add: ensureInstalled_def c)
    moreover have "vouched v a d d'"
      using False by (auto simp: vouched_def checkReinstallNeeded_def split: option.splits)
    ultimately show "(r \<noteq> None \<longrightarrow> with_conn d0 None d') \<and> (r = None \<longrightarrow> connected_to d0 d' \<and> vouched v a d d')"
      using setConnected_holds [OF h [unfolded c]] c by simp
  next
    case True
    obtain r2 d2 where reinst: "reinstallDaemon l a p g rc True ?d1 = (r2, d2)"
      by (cases "reinstallDaemon l a p g rc True ?d1")
    obtain c on err d3 where fresh: "connectTo (an_fresh a) p (di_RemoteSocketPath info) (closeConn rc d2) = (c, on, err, d3)"
      by (cases "connectTo (an_fresh a) p (di_RemoteSocketPath info) (closeConn rc d2)") auto
    have res': "(r, d') = (case r2 of Some e \<Rightarrow> (Some e, closeConn rc d2) | None \<Rightarrow>
        (case err of Some e \<Rightarrow> (Some (ConnectFailed e), closeConn c d3)
         | None \<Rightarrow> if \<not> on then (Some NotConnected, closeConn c d3)
             else (None, setConnectedState (di_HomeDir info) (di_RemoteSocketPath info) c d3)))"
      using res unfolding ensureInstalled_def Let_def if_P [OF True] reinst
      by (cases r2) (simp_all only: prod.case option.case fresh)
    show "(r \<noteq> None \<longrightarrow> with_conn d0 None d') \<and> (r = None \<longrightarrow> connected_to d0 d' \<and> vouched v a d d')"
    proof (cases r2)
      case (Some e)
      then show ?thesis
        using res' holds_close(1) [OF ok reinstall_holds [OF h1 reinst]] by simp
    next
      case None
      note fin = install_then_connect [OF ok conn h1 reinst [unfolded None] fresh]
      have "rd_reinstalledOnce ?d1 \<longrightarrow> rd_reinstalledOnce d" "added ?d1 d3 = added d d3"
        by (simp_all split: if_splits)
      then show ?thesis
        using res' None fin by (auto simp: vouched_def split: option.splits if_splits)
    qed
  qed
qed

lemma tryConnect_holds:
  assumes ok: "conns_ok d0" and p: "prepares d0 d" and t: "tryConnectExistingDaemon a path s d = (conn, online, d')"
  shows "with_conn d0 conn d'" and "\<not> copies (added d0 d')" and "grows d0 d'" and "rd_reinstalledOnce d' = rd_reinstalledOnce d0"
proof -
  let ?d1 = "act (RunCommand (''stat '' @ path)) d"
  have p1: "prepares d0 ?d1"
    by (rule prepares_trans [OF p prepares_run])
  have "with_conn d0 conn d' \<and> \<not> copies (added d0 d') \<and> grows d0 d' \<and> rd_reinstalledOnce d' = rd_reinstalledOnce d0"
  proof (cases "succeeds (an_run a (''stat '' @ path))")
    case False
    then have "conn = None" "d' = ?d1"
      using t by (simp_all add: tryConnectExistingDaemon_def)
    then show ?thesis
      using p1 prepares_holds [OF ok p1] by (simp add: prepares_def)
  next
    case True
    then obtain err where c: "connectTo (an_existing a) path s ?d1 = (conn, online, err, d')"
      using t by (auto simp: tryConnectExistingDaemon_def split: prod.splits)
    note f = connectTo_facts [OF c]
    have g: "grows d0 ?d1" "grows ?d1 d'"
      using p1 f(1) by (simp_all add: prepares_def)
    then show ?thesis
      using connectTo_holds [OF ok prepares_holds [OF ok p1] c] f(1,2) p1 grows_trans [OF g]
      by (simp add: prepares_def added_trans [OF g])
  qed
  then show "with_conn d0 conn d'" "\<not> copies (added d0 d')" "grows d0 d'" "rd_reinstalledOnce d' = rd_reinstalledOnce d0"
    by simp_all
qed

lemma ensureInstalled_grows: "ensureInstalled v l a info g p rc online d = (r, d') \<Longrightarrow> grows d d'"
proof -
  assume res: "ensureInstalled v l a info g p rc online d = (r, d')"
  let ?d1 = "if \<not> online \<or> rc = None then resetInstallState d else d"
  obtain r2 d2 where reinst: "reinstallDaemon l a p g rc True ?d1 = (r2, d2)"
    by (cases "reinstallDaemon l a p g rc True ?d1")
  obtain c on err d3 where fresh: "connectTo (an_fresh a) p (di_RemoteSocketPath info) (closeConn rc d2) = (c, on, err, d3)"
    by (cases "connectTo (an_fresh a) p (di_RemoteSocketPath info) (closeConn rc d2)") auto
  have g1: "grows d d2"
    using reinstall_facts(6) [OF reinst] by (simp split: if_splits)
  have g2: "grows d2 d3"
    using connectTo_facts(1) [OF fresh] by simp
  show ?thesis
    using res g1 grows_trans [OF g1 g2] unfolding ensureInstalled_def Let_def reinst
    by (cases r2; cases err) (auto simp: fresh split: if_splits)
qed

lemma ensureDaemon_outcome:
  assumes ok: "conns_ok d" and conn: "connector_ok a" and res: "ensureDaemon v l a d = (r, d')"
  shows "r \<noteq> None \<Longrightarrow> with_conn d None d'"
    and "r = None \<Longrightarrow> connected_to d d' \<and> vouched v a d d'"
proof -
  obtain i d1 where disc: "discover a d = (i, d1)"
    by (cases "discover a d")
  have p1: "prepares d d1"
    by (rule discover_prepares [OF disc])
  consider (early) d2 where "r \<noteq> None" "d' = d2" "prepares d d2"
    | (late) info g path d2 c online d3 where "prepares d d2"
        "tryConnectExistingDaemon a path (di_RemoteSocketPath info) d2 = (c, online, d3)"
        "ensureInstalled v l a info g path c online d3 = (r, d')"
  proof (cases i)
    case (Inl e)
    then show thesis
      using res disc p1 by (intro early [of d1]) (auto simp: ensureDaemon_def)
  next
    case (Inr info)
    show thesis
    proof (cases "an_binPath a (di_OS info) (di_Arch info)")
      case (Inl e)
      then show thesis
        using res disc p1 Inr by (intro early [of d1]) (auto simp: ensureDaemon_def)
    next
      case bin: (Inr g)
      obtain b d2 where path: "remoteDaemonBinPath a (di_HomeDir info) g (di_RemoteSocketPath info) d1 = (b, d2)"
        by (cases "remoteDaemonBinPath a (di_HomeDir info) g (di_RemoteSocketPath info) d1")
      have p2: "prepares d d2"
        by (rule prepares_trans [OF p1 binPath_prepares [OF path]])
      show thesis
      proof (cases b)
        case (Inl e)
        then show thesis
          using res disc p2 Inr bin path by (intro early [of d2]) (auto simp: ensureDaemon_def)
      next
        case bp: (Inr p)
        obtain c online d3 where t: "tryConnectExistingDaemon a p (di_RemoteSocketPath info) d2 = (c, online, d3)"
          by (cases "tryConnectExistingDaemon a p (di_RemoteSocketPath info) d2") auto
        have "ensureInstalled v l a info g p c online d3 = (r, d')"
          using res disc Inr bin path bp t by (simp add: ensureDaemon_def)
        then show thesis
          using late p2 t by blast
      qed
    qed
  qed
  then show "r \<noteq> None \<Longrightarrow> with_conn d None d'" "r = None \<Longrightarrow> connected_to d d' \<and> vouched v a d d'"
  proof (atomize (full), cases)
    case early
    then show "(r \<noteq> None \<longrightarrow> with_conn d None d') \<and> (r = None \<longrightarrow> connected_to d d' \<and> vouched v a d d')"
      using prepares_holds [OF ok] by auto
  next
    case (late info g path d2 c online d3)
    note t = tryConnect_holds [OF ok late(1,2)]
    have "added d d' = added d d3 @ added d3 d'"
      by (rule added_trans [OF t(3) ensureInstalled_grows [OF late(3)]])
    then have "vouched v a d3 d' \<Longrightarrow> vouched v a d d'"
      using t(4) by (auto simp: vouched_def)
    then show "(r \<noteq> None \<longrightarrow> with_conn d None d') \<and> (r = None \<longrightarrow> connected_to d d' \<and> vouched v a d d')"
      using ensureInstalled_outcome [OF ok conn t(1) late(3)] by blast
  qed
qed

text \<open>
  C29. An attempt to bring up the remote daemon either fails, and then has closed every connection it opened and
  left the current one alone; or succeeds, and then exactly one new connection is open and is the current one.
  Behind a success stands the version the remote daemon reported, or a copy of the daemon made in this attempt, or
  the mark that an earlier attempt had begun an installation.
\<close>

theorem ensure_daemon_keeps_one_connection:
  assumes "conns_ok d" and "connector_ok a" and "ensureDaemon ourVersion logLevel a d = (r, d')"
  shows "(r \<noteq> None \<longrightarrow> rd_open d' = rd_open d \<and> rd_remoteConn d' = rd_remoteConn d) \<and>
    (r = None \<longrightarrow>
       (\<exists>c. c \<notin> set (rd_open d) \<and> rd_open d' = c # rd_open d \<and> rd_remoteConn d' = Some c) \<and>
       ((\<exists>v. an_status a = Some v \<and> BuildVersionsEqual v ourVersion = '''') \<or>
        copies (added d d') \<or> rd_reinstalledOnce d))"
proof (cases "r = None")
  case True
  then obtain c where c: "rd_remoteConn d' = Some c" "rd_nextConn d \<le> c" "rd_open d' = c # rd_open d"
    and v: "vouched ourVersion a d d'"
    using ensureDaemon_outcome(2) [OF assms] by (auto simp: connected_to_def)
  have "c \<notin> set (rd_open d)"
    using assms(1) c(2) by (auto simp: conns_ok_def)
  then show ?thesis
    using True c v by (auto simp: vouched_def)
next
  case False
  then show ?thesis
    using ensureDaemon_outcome(1) [OF assms] by (simp add: with_conn_def)
qed

subsection \<open>The life of a daemon\<close>

definition loop_free :: "loop_pc list \<Rightarrow> bool" where
  "loop_free loops \<longleftrightarrow> loops = [LoopTry] \<or> loops = [LoopTried False] \<or> loops = [LoopWait]"

text \<open>Which parts can run at the same time, and the states they run in.\<close>

definition phase_inv :: "life \<Rightarrow> bool" where
  "phase_inv s \<longleftrightarrow>
     length (lf_loops s) = (if rd_reconnecting (lf_daemon s) then 1 else 0) \<and>
     (lf_loops s \<noteq> [] \<longrightarrow> rd_state (lf_daemon s) \<in> {ConnectionStateReconnecting, ConnectionStateClosed}) \<and>
     (lf_init s \<noteq> None \<longrightarrow> lf_loops s = [] \<and> lf_pending s = 0 \<and>
        rd_state (lf_daemon s) \<in> {ConnectionStateInitializing, ConnectionStateClosed}) \<and>
     (lf_initDone s = None \<longrightarrow> lf_init s = None \<and> lf_loops s = [] \<and> lf_pending s = 0 \<and>
        rd_state (lf_daemon s) \<in> {ConnectionStateNew, ConnectionStateClosed})"

text \<open>The connections that are open in each of them.\<close>

definition conn_inv :: "life \<Rightarrow> bool" where
  "conn_inv s \<longleftrightarrow>
     conns_ok (lf_daemon s) \<and> set (rd_open (lf_daemon s)) \<subseteq> set_option (rd_remoteConn (lf_daemon s)) \<and>
     (\<not> rd_closed (lf_daemon s) \<longrightarrow> set (rd_open (lf_daemon s)) = set_option (rd_remoteConn (lf_daemon s))) \<and>
     (lf_initDone s = None \<or> lf_init s = Some InitWorking \<or> loop_free (lf_loops s) \<longrightarrow> rd_remoteConn (lf_daemon s) = None) \<and>
     (lf_init s = Some (InitTried None) \<or> lf_loops s = [LoopTried True] \<or> rd_state (lf_daemon s) = ConnectionStateConnected \<longrightarrow>
        rd_remoteConn (lf_daemon s) \<noteq> None)"

definition life_inv :: "life \<Rightarrow> bool" where
  "life_inv s \<longleftrightarrow> phase_inv s \<and> conn_inv s"

lemma one_loop: "length loops = (if b then 1 else 0) \<Longrightarrow> loops = xs @ pc # ys \<Longrightarrow> xs = [] \<and> ys = [] \<and> b"
  by (cases xs; cases ys; cases b) auto

lemma conn_fields [simp]:
  "rd_open (closeConn c d) = (case c of None \<Rightarrow> rd_open d | Some n \<Rightarrow> removeAll n (rd_open d))"
  "rd_nextConn (closeConn c d) = rd_nextConn d" "rd_state (closeConn c d) = rd_state d"
  "rd_closed (closeConn c d) = rd_closed d" "rd_reconnecting (closeConn c d) = rd_reconnecting d"
  "rd_remoteConn (closeConn c d) = rd_remoteConn d"
  by (simp_all add: closeConn_def split: option.split)

lemma monitor_fields [simp]:
  "rd_open (monitor d) = rd_open d" "rd_nextConn (monitor d) = rd_nextConn d" "rd_state (monitor d) = rd_state d"
  "rd_closed (monitor d) = rd_closed d" "rd_reconnecting (monitor d) = rd_reconnecting d" "rd_remoteConn (monitor d) = rd_remoteConn d"
  "rd_open (monitorPorts d) = rd_open d" "rd_nextConn (monitorPorts d) = rd_nextConn d" "rd_state (monitorPorts d) = rd_state d"
  "rd_closed (monitorPorts d) = rd_closed d" "rd_reconnecting (monitorPorts d) = rd_reconnecting d"
  "rd_remoteConn (monitorPorts d) = rd_remoteConn d"
  by (simp_all add: monitor_def monitorPorts_def)

text \<open>The result of an attempt, as far as the life of the daemon is concerned.\<close>

definition attempted :: "bool \<Rightarrow> remote_daemon \<Rightarrow> remote_daemon \<Rightarrow> bool" where
  "attempted ok d d' \<longleftrightarrow>
     rd_state d' = rd_state d \<and> rd_closed d' = rd_closed d \<and> rd_reconnecting d' = rd_reconnecting d \<and> conns_ok d' \<and>
     (if ok then \<exists>c. rd_remoteConn d' = Some c \<and> rd_open d' = c # rd_open d
      else rd_remoteConn d' = rd_remoteConn d \<and> rd_open d' = rd_open d)"

lemma attempted_ensure:
  assumes "conns_ok d" "connector_ok a" "ensureDaemon v l a d = (r, d')"
  shows "attempted (r = None) d d'"
  using ensureDaemon_outcome [OF assms] by (auto simp: attempted_def with_conn_def connected_to_def same_life_def)

lemma attempted_init:
  assumes "conns_ok d" "connector_ok a" "initWork v l transport after a d = (r, d')"
  shows "attempted (r = None) d d'"
proof (cases "transport \<and> after = AfterOk")
  case True
  obtain e d1 where e: "ensureDaemon v l a d = (e, d1)"
    by (cases "ensureDaemon v l a d")
  then have "d' = d1" "r = None \<longleftrightarrow> e = None"
    using assms(3) True by (auto simp: initWork_def split: option.splits)
  then show ?thesis
    using attempted_ensure [OF assms(1,2) e] by simp
next
  case False
  then show ?thesis
    using assms(1,3) by (cases after) (auto simp: initWork_def attempted_def split: if_splits)
qed

lemma attempted_reconnect:
  assumes "conns_ok d" "connector_ok a" "reconnectOnce v l transport a d = (ok, d')"
  shows "attempted ok d d'"
proof (cases transport)
  case True
  obtain e d1 where e: "ensureDaemon v l a (resetDiscovery d) = (e, d1)"
    by (cases "ensureDaemon v l a (resetDiscovery d)")
  have "conns_ok (resetDiscovery d)"
    using assms(1) by (simp add: conns_ok_def resetDiscovery_def)
  from attempted_ensure [OF this assms(2) e] show ?thesis
    using assms(3) True e by (auto simp: reconnectOnce_def attempted_def resetDiscovery_def split: option.splits)
next
  case False
  then show ?thesis
    using assms(1,3) by (auto simp: reconnectOnce_def attempted_def)
qed

lemma phase_init:
  assumes "phase_inv s" "lf_init s \<noteq> None"
  shows "lf_loops s = []" and "\<not> rd_reconnecting (lf_daemon s)" and "lf_pending s = 0" and "lf_initDone s \<noteq> None"
    and "rd_state (lf_daemon s) \<in> {ConnectionStateInitializing, ConnectionStateClosed}"
  using assms by (cases "rd_reconnecting (lf_daemon s)"; auto simp: phase_inv_def)+

lemma phase_loop:
  assumes "phase_inv s" "lf_loops s = xs @ pc # ys"
  shows "xs = []" and "ys = []" and "lf_loops s = [pc]" and "rd_reconnecting (lf_daemon s)" and "lf_init s = None"
    and "lf_initDone s \<noteq> None" and "rd_state (lf_daemon s) \<in> {ConnectionStateReconnecting, ConnectionStateClosed}"
proof -
  have len: "length (lf_loops s) = (if rd_reconnecting (lf_daemon s) then 1 else 0)"
    using assms(1) by (simp add: phase_inv_def)
  show "xs = []" "ys = []" "rd_reconnecting (lf_daemon s)"
    using one_loop [OF len assms(2)] by simp_all
  then show "lf_loops s = [pc]"
    using assms(2) by simp
  then show "lf_init s = None" "lf_initDone s \<noteq> None"
    "rd_state (lf_daemon s) \<in> {ConnectionStateReconnecting, ConnectionStateClosed}"
    using assms(1) by (auto simp: phase_inv_def)
qed

lemma conn_attempt:
  assumes inv: "conn_inv s" and att: "attempted ok (lf_daemon s) d" and none: "rd_remoteConn (lf_daemon s) = None"
  shows "conns_ok d" and "set (rd_open d) = set_option (rd_remoteConn d)" and "rd_remoteConn d \<noteq> None \<longleftrightarrow> ok"
    and "rd_state d = rd_state (lf_daemon s)" and "rd_reconnecting d = rd_reconnecting (lf_daemon s)"
proof -
  have "rd_open (lf_daemon s) = []"
    using inv none by (simp add: conn_inv_def)
  then show "conns_ok d" "set (rd_open d) = set_option (rd_remoteConn d)" "rd_remoteConn d \<noteq> None \<longleftrightarrow> ok"
    "rd_state d = rd_state (lf_daemon s)" "rd_reconnecting d = rd_reconnecting (lf_daemon s)"
    using att none by (auto simp: attempted_def split: if_splits)
qed

lemma open_after_close:
  assumes "set xs \<subseteq> set_option c"
  shows "(case c of None \<Rightarrow> xs | Some n \<Rightarrow> removeAll n xs) = []"
proof (cases c)
  case (Some n)
  then have "filter (\<lambda>x. n \<noteq> x) xs = []"
    using assms by (auto simp: filter_empty_conv)
  then show ?thesis
    using Some by (simp add: removeAll_filter_not_eq)
qed (use assms in simp)

lemma initEnd_fields [simp]:
  "rd_open (initEnd r d) = rd_open d" "rd_nextConn (initEnd r d) = rd_nextConn d"
  "rd_closed (initEnd r d) = rd_closed d" "rd_reconnecting (initEnd r d) = rd_reconnecting d"
  "rd_remoteConn (initEnd r d) = rd_remoteConn d"
  "rd_state (initEnd r d) = (case r of None \<Rightarrow> ConnectionStateConnected | Some (CallbackFailed True) \<Rightarrow> rd_state d
    | Some _ \<Rightarrow> ConnectionStateFailed)"
  by (auto simp: initEnd_def setState_def setStateWithReason_def split: option.split init_error.split bool.split)

lemma teardown_fields [simp]:
  "rd_nextConn (teardownForReconnect d) = rd_nextConn d" "rd_state (teardownForReconnect d) = rd_state d"
  "rd_closed (teardownForReconnect d) = rd_closed d" "rd_reconnecting (teardownForReconnect d) = rd_reconnecting d"
  "rd_remoteConn (teardownForReconnect d) = None"
  "rd_open (teardownForReconnect d) = (case rd_remoteConn d of None \<Rightarrow> rd_open d | Some n \<Rightarrow> removeAll n (rd_open d))"
  by (simp_all add: teardownForReconnect_def split: option.split)

lemma Close_fields [simp]:
  "rd_nextConn (rd_Close d) = rd_nextConn d" "rd_closed (rd_Close d)"
  "rd_reconnecting (rd_Close d) = rd_reconnecting d" "rd_remoteConn (rd_Close d) = rd_remoteConn d"
  "rd_state (rd_Close d) = (if rd_closed d then rd_state d else ConnectionStateClosed)"
  "rd_open (rd_Close d) = (if rd_closed d then rd_open d
     else case rd_remoteConn d of None \<Rightarrow> rd_open d | Some n \<Rightarrow> removeAll n (rd_open d))"
  by (simp_all add: rd_Close_def cancelMonitors_def split: option.split)

lemma phase_step: "life_step v l s s' \<Longrightarrow> life_inv s \<Longrightarrow> phase_inv s'"
proof (induction rule: life_step.induct)
  case (init_work s a transport after r d)
  then have inv: "phase_inv s" "conn_inv s" and ok: "conns_ok (lf_daemon s)"
    by (auto simp: life_inv_def conn_inv_def)
  have "rd_state d = rd_state (lf_daemon s)" "rd_reconnecting d = rd_reconnecting (lf_daemon s)"
    using attempted_init [OF ok init_work.hyps(2,3)] by (simp_all add: attempted_def)
  then show ?case
    using phase_init [OF inv(1)] init_work.hyps(1) by (simp add: phase_inv_def)
next
  case (init_end s r)
  then have inv: "phase_inv s"
    by (simp add: life_inv_def)
  then show ?case
    using phase_init [OF inv] init_end.hyps by (simp add: phase_inv_def)
next
  case (attempt s xs ys a transport ok d)
  then have inv: "phase_inv s" and ok: "conns_ok (lf_daemon s)"
    by (auto simp: life_inv_def conn_inv_def)
  have "rd_state d = rd_state (lf_daemon s)" "rd_reconnecting d = rd_reconnecting (lf_daemon s)"
    using attempted_reconnect [OF ok attempt.hyps(2,3)] by (simp_all add: attempted_def)
  then show ?case
    using phase_loop [OF inv attempt.hyps(1)] by (simp add: phase_inv_def)
next
  case (tried s xs ok ys again d)
  then have inv: "phase_inv s"
    by (simp add: life_inv_def)
  show ?case
    using phase_loop [OF inv tried.hyps(1)] tried.hyps(2)
    by (auto simp: phase_inv_def reconnectTried_def split: if_splits)
next
  case (teardown s xs ys)
  then have inv: "phase_inv s"
    by (simp add: life_inv_def)
  show ?case
    using phase_loop [OF inv teardown.hyps] by (simp add: phase_inv_def)
next
  case (waited s xs ys)
  then have inv: "phase_inv s"
    by (simp add: life_inv_def)
  show ?case
    using phase_loop [OF inv waited.hyps] by (simp add: phase_inv_def)
next
  case (run_done s xs ys)
  then have inv: "phase_inv s"
    by (simp add: life_inv_def)
  show ?case
    using phase_loop [OF inv run_done.hyps] by (auto simp: phase_inv_def)
next
  case (reconnect s n d)
  then have "lf_init s = None" "lf_initDone s \<noteq> None" "lf_loops s = []"
    by (auto simp: life_inv_def phase_inv_def reconnectBegin_def split: if_splits)
  then show ?case
    using reconnect by (auto simp: life_inv_def phase_inv_def reconnectBegin_def split: if_splits)
next
  case (close s)
  then show ?case
    by (simp add: life_inv_def phase_inv_def)
qed (auto simp: life_inv_def phase_inv_def)

lemma conn_step: "life_step v l s s' \<Longrightarrow> life_inv s \<Longrightarrow> conn_inv s'"
proof (induction rule: life_step.induct)
  case (init_work s a transport after r d)
  then have inv: "phase_inv s" "conn_inv s" and ok: "conns_ok (lf_daemon s)" and none: "rd_remoteConn (lf_daemon s) = None"
    by (auto simp: life_inv_def conn_inv_def)
  note att = conn_attempt [OF inv(2) attempted_init [OF ok init_work.hyps(2,3)] none]
  have "lf_loops s = []" "lf_initDone s \<noteq> None" "rd_state (lf_daemon s) \<noteq> ConnectionStateConnected"
    using phase_init [OF inv(1)] init_work.hyps(1) by auto
  then show ?case
    using att by (auto simp: conn_inv_def loop_free_def)
next
  case (init_end s r)
  then have inv: "phase_inv s" "conn_inv s"
    by (simp_all add: life_inv_def)
  have "lf_loops s = []" "lf_initDone s \<noteq> None" "rd_state (lf_daemon s) \<noteq> ConnectionStateConnected"
    using phase_init [OF inv(1)] init_end.hyps by auto
  moreover have "rd_state (initEnd r (lf_daemon s)) = ConnectionStateConnected \<longrightarrow> r = None \<or> rd_state (lf_daemon s) = ConnectionStateConnected"
    by (simp split: option.split init_error.split bool.split)
  moreover have "r = None \<longrightarrow> rd_remoteConn (lf_daemon s) \<noteq> None"
    using inv(2) init_end.hyps by (auto simp: conn_inv_def)
  ultimately show ?case
    using inv(2) by (simp add: conn_inv_def conns_ok_def loop_free_def del: initEnd_fields(6))
next
  case (attempt s xs ys a transport ok d)
  then have inv: "phase_inv s" "conn_inv s" and cok: "conns_ok (lf_daemon s)"
    by (auto simp: life_inv_def conn_inv_def)
  note ph = phase_loop [OF inv(1) attempt.hyps(1)]
  have none: "rd_remoteConn (lf_daemon s) = None"
    using inv(2) ph(3) by (simp add: conn_inv_def loop_free_def)
  note att = conn_attempt [OF inv(2) attempted_reconnect [OF cok attempt.hyps(2,3)] none]
  have "rd_state (lf_daemon s) \<noteq> ConnectionStateConnected"
    using ph(7) by auto
  then show ?case
    using att ph by (cases ok) (auto simp: conn_inv_def loop_free_def)
next
  case (tried s xs ok ys again d)
  then have inv: "phase_inv s" "conn_inv s"
    by (simp_all add: life_inv_def)
  note ph = phase_loop [OF inv(1) tried.hyps(1)]
  have "rd_state (lf_daemon s) \<noteq> ConnectionStateConnected"
    using ph(7) by auto
  then have "rd_remoteConn (lf_daemon s) \<noteq> None \<longleftrightarrow> ok" "rd_state (lf_daemon s) \<noteq> ConnectionStateConnected"
    using inv(2) ph(3) by (cases ok; simp add: conn_inv_def loop_free_def)+
  moreover have "again \<longrightarrow> \<not> ok" "rd_state d = ConnectionStateConnected \<longrightarrow> ok \<or> rd_state (lf_daemon s) = ConnectionStateConnected"
    "rd_open d = rd_open (lf_daemon s)" "rd_nextConn d = rd_nextConn (lf_daemon s)" "rd_closed d = rd_closed (lf_daemon s)"
    "rd_remoteConn d = rd_remoteConn (lf_daemon s)"
    using tried.hyps(2) by (auto simp: reconnectTried_def split: if_splits)
  ultimately show ?case
    using inv(2) ph(1-3,5,6) by (cases again) (auto simp: conn_inv_def conns_ok_def loop_free_def)
next
  case (teardown s xs ys)
  then have inv: "phase_inv s" "conn_inv s"
    by (simp_all add: life_inv_def)
  note ph = phase_loop [OF inv(1) teardown.hyps]
  have "rd_open (teardownForReconnect (lf_daemon s)) = []"
    using inv(2) open_after_close [of "rd_open (lf_daemon s)" "rd_remoteConn (lf_daemon s)"] by (simp add: conn_inv_def)
  moreover have "rd_state (lf_daemon s) \<noteq> ConnectionStateConnected"
    using ph(7) by auto
  ultimately show ?case
    using ph by (auto simp: conn_inv_def conns_ok_def loop_free_def simp del: teardown_fields(6))
next
  case (waited s xs ys)
  then have inv: "phase_inv s" "conn_inv s"
    by (simp_all add: life_inv_def)
  note ph = phase_loop [OF inv(1) waited.hyps]
  show ?case
    using inv(2) ph by (auto simp: conn_inv_def loop_free_def)
next
  case (run_done s xs ys)
  then have inv: "phase_inv s" "conn_inv s"
    by (simp_all add: life_inv_def)
  note ph = phase_loop [OF inv(1) run_done.hyps]
  show ?case
    using inv(2) ph by (auto simp: conn_inv_def conns_ok_def loop_free_def)
next
  case (reconnect s n d)
  then have inv: "phase_inv s" "conn_inv s" and d: "\<not> rd_closed (lf_daemon s)"
    "d = (lf_daemon s)\<lparr>rd_reconnecting := True, rd_state := ConnectionStateReconnecting\<rparr>"
    by (simp_all add: life_inv_def reconnectBegin_def split: if_splits)
  have "lf_init s = None" "lf_initDone s \<noteq> None"
    using inv(1) reconnect.hyps(1) by (auto simp: phase_inv_def)
  then show ?case
    using inv(2) by (simp add: conn_inv_def conns_ok_def loop_free_def d)
next
  case (close s)
  then have inv: "conn_inv s"
    by (simp add: life_inv_def)
  show ?case
  proof (cases "rd_closed (lf_daemon s)")
    case True
    then have "rd_Close (lf_daemon s) = lf_daemon s"
      by (simp add: rd_Close_def)
    then show ?thesis
      using inv by simp
  next
    case False
    then have "rd_open (rd_Close (lf_daemon s)) = []"
      using inv open_after_close [of "rd_open (lf_daemon s)" "rd_remoteConn (lf_daemon s)"] by (simp add: conn_inv_def)
    then show ?thesis
      using inv False by (simp add: conn_inv_def conns_ok_def del: Close_fields(6))
  qed
next
  case (init_begin s)
  then show ?case
    by (auto simp: life_inv_def conn_inv_def conns_ok_def phase_inv_def loop_free_def)
next
  case (health s)
  then show ?case
    by (simp add: life_inv_def conn_inv_def)
next
  case (refused s n)
  then show ?case
    by (simp add: life_inv_def conn_inv_def)
qed

interpretation lives: preserved "life_step v l" life_inv for v l
  by unfold_locales (simp add: life_inv_def phase_step conn_step)

lemma life_start_inv: "life_inv life_start"
  by (simp add: life_inv_def phase_inv_def conn_inv_def life_start_def newRemoteDaemon_def conns_ok_def loop_free_def)

definition closed_for_good :: "life \<Rightarrow> bool" where
  "closed_for_good s \<longleftrightarrow> rd_closed (lf_daemon s) \<and> rd_state (lf_daemon s) = ConnectionStateClosed \<and> lf_init s = None"

lemma closed_attempt: "reconnectOnce v l transport a d = (ok, d') \<Longrightarrow> conns_ok d \<Longrightarrow> connector_ok a \<Longrightarrow>
  rd_closed d' = rd_closed d \<and> rd_state d' = rd_state d"
  using attempted_reconnect [of d a v l transport ok d'] by (simp add: attempted_def)

interpretation closed_lives: preserved "life_step v l" "\<lambda>s. life_inv s \<and> closed_for_good s" for v l
proof unfold_locales
  fix s s'
  assume step: "life_step v l s s'" and inv: "life_inv s \<and> closed_for_good s"
  have "closed_for_good s'"
    using step inv
  proof (induction rule: life_step.induct)
    case (attempt s xs ys a transport ok d)
    then show ?case
      using closed_attempt [OF attempt.hyps(3) _ attempt.hyps(2)]
      by (simp add: closed_for_good_def life_inv_def conn_inv_def)
  qed (auto simp: closed_for_good_def reconnectBegin_def reconnectTried_def)
  then show "life_inv s' \<and> closed_for_good s'"
    using lives.step_keeps [OF step] inv by simp
qed

text \<open>
  C11. Over the life of a daemon, in every interleaving of its first initialization, health checks, reconnections
  and closing: at most one reconnection loop runs, and exactly when the flag says so; at most one connection to the
  remote daemon is open, which is the current one, and until the daemon is closed the current one is open; a daemon
  that counts as connected has a connection; and closing is final: a closed daemon without an initialization in
  flight stays closed in every further run.
\<close>

theorem daemon_life_is_orderly:
  assumes run: "(life_step ourVersion logLevel)\<^sup>*\<^sup>* life_start s" and d: "d = lf_daemon s"
  shows "length (lf_loops s) = (if rd_reconnecting d then 1 else 0) \<and>
    set (rd_open d) \<subseteq> set_option (rd_remoteConn d) \<and>
    (\<not> rd_closed d \<longrightarrow> set (rd_open d) = set_option (rd_remoteConn d)) \<and>
    (rd_state d = ConnectionStateConnected \<longrightarrow> rd_remoteConn d \<noteq> None) \<and>
    (rd_closed d \<and> rd_state d = ConnectionStateClosed \<and> lf_init s = None \<longrightarrow>
      (\<forall>s'. (life_step ourVersion logLevel)\<^sup>*\<^sup>* s s' \<longrightarrow>
         rd_closed (lf_daemon s') \<and> rd_state (lf_daemon s') = ConnectionStateClosed))"
proof -
  have inv: "life_inv s"
    by (rule lives.run_keeps [OF run life_start_inv])
  have "rd_closed (lf_daemon s') \<and> rd_state (lf_daemon s') = ConnectionStateClosed"
    if "closed_for_good s" "(life_step ourVersion logLevel)\<^sup>*\<^sup>* s s'" for s'
    using closed_lives.run_keeps [OF that(2)] inv that(1) by (simp add: closed_for_good_def)
  then have final: "rd_closed d \<and> rd_state d = ConnectionStateClosed \<and> lf_init s = None \<longrightarrow>
      (\<forall>s'. (life_step ourVersion logLevel)\<^sup>*\<^sup>* s s' \<longrightarrow>
         rd_closed (lf_daemon s') \<and> rd_state (lf_daemon s') = ConnectionStateClosed)"
    unfolding d closed_for_good_def by blast
  have "length (lf_loops s) = (if rd_reconnecting d then 1 else 0)"
    using inv by (simp add: life_inv_def phase_inv_def d)
  moreover have "set (rd_open d) \<subseteq> set_option (rd_remoteConn d)"
    "\<not> rd_closed d \<longrightarrow> set (rd_open d) = set_option (rd_remoteConn d)"
    "rd_state d = ConnectionStateConnected \<longrightarrow> rd_remoteConn d \<noteq> None"
    using inv by (simp_all add: life_inv_def conn_inv_def d)
  ultimately show ?thesis
    using final by blast
qed

subsection \<open>Examples\<close>

definition exVersion :: VersionInfo where
  "exVersion = \<lparr>vi_Version = Some ''v1.2.0'', vi_VcsRevision = None, vi_VcsTime = None, vi_VcsModified = None, vi_Notes = None\<rparr>"

definition exOlder :: VersionInfo where
  "exOlder = exVersion\<lparr>vi_Version := Some ''v1.1.0''\<rparr>"

text \<open>A host that answers, with a daemon that runs; \<open>copy\<close> is the result of copying a binary there.\<close>

definition exHost :: "VersionInfo \<Rightarrow> string option \<Rightarrow> connector_answers" where
  "exHost version copy =
     \<lparr>an_identity = '''', an_run = (\<lambda>_. Inr (''Linux'' @ [CHR 0x0A] @ ''x86_64'' @ [CHR 0x0A] @ ''/root'')),
      an_binPath = (\<lambda>_ _. Inr ''/tmp/graft-linux-amd64''), an_existing = (True, True, None), an_fresh = (True, True, None),
      an_status = Some version, an_canceled = False, an_copy = copy\<rparr>"

definition exDiscovery :: discoveryInfo where
  "exDiscovery = \<lparr>di_OS = ''linux'', di_Arch = ''amd64'', di_HomeDir = ''/root'',
                  di_RemoteSocketPath = ''/root/.local/state/graft/remote/graftd.sock''\<rparr>"

lemma exHost_ok [simp]: "connector_ok (exHost v c)"
  by (simp add: connector_ok_def exHost_def)

lemma ex_discovered:
  "discoverRemote '''' (Inr (''Linux'' @ [CHR 0x0A] @ ''x86_64'' @ [CHR 0x0A] @ ''/root'')) = Inr exDiscovery"
  by code_simp

lemma ex_succeeds:
  assumes "rd_discovery d = None"
  shows "\<exists>d'. ensureDaemon exVersion l (exHost exVersion c) d = (None, d')"
  using assms
  by (simp add: ensureDaemon_def discover_def Let_def exHost_def ex_discovered [simplified] remoteDaemonBinPath_def
      tryConnectExistingDaemon_def succeeds_def connectTo_def ensureInstalled_def checkReinstallNeeded_def
      BuildVersionsEqual_def exVersion_def goDevelVersionString_def)

theorem ensure_daemon_keeps_one_connection_witness:
  "\<exists>d'. ensureDaemon exVersion ''INFO'' (exHost exVersion None) newRemoteDaemon = (None, d') \<and>
     conns_ok newRemoteDaemon \<and> connector_ok (exHost exVersion None) \<and> length (rd_open d') = 1"
proof -
  have ok: "conns_ok newRemoteDaemon" and opened: "rd_open newRemoteDaemon = []"
    by (simp_all add: conns_ok_def newRemoteDaemon_def)
  have "rd_discovery newRemoteDaemon = None"
    by (simp add: newRemoteDaemon_def)
  then obtain d' where d': "ensureDaemon exVersion ''INFO'' (exHost exVersion None) newRemoteDaemon = (None, d')"
    using ex_succeeds by blast
  from ensure_daemon_keeps_one_connection [OF ok exHost_ok d'] have "length (rd_open d') = 1"
    using opened by auto
  then show ?thesis
    using d' ok by auto
qed

text \<open>The first initialization, with the daemon closed while it works when \<open>c\<close> holds.\<close>

definition exBegun :: "bool \<Rightarrow> life" where
  "exBegun c = life_start\<lparr>lf_daemon := (if c then rd_Close else id) (newRemoteDaemon\<lparr>rd_state := ConnectionStateInitializing\<rparr>),
                 lf_initDone := Some False, lf_init := Some InitWorking\<rparr>"

lemma exBegun_run: "(life_step v l)\<^sup>*\<^sup>* life_start (exBegun c)"
proof -
  have first: "life_step v l life_start (life_start\<lparr>lf_daemon := (lf_daemon life_start)\<lparr>rd_state := ConnectionStateInitializing\<rparr>,
      lf_initDone := Some False, lf_init := Some InitWorking\<rparr>)"
    by (rule life_step.init_begin) (simp_all add: life_start_def newRemoteDaemon_def)
  then have no: "life_step v l life_start (exBegun False)"
    by (simp add: exBegun_def life_start_def)
  have "life_step v l (exBegun False) ((exBegun False)\<lparr>lf_daemon := rd_Close (lf_daemon (exBegun False))\<rparr>)"
    by (rule life_step.close)
  then have "life_step v l (exBegun False) (exBegun True)"
    by (simp add: exBegun_def life_start_def)
  then show ?thesis
    using no by (cases c) (auto intro: converse_rtranclp_into_rtranclp)
qed

lemma exBegun_end:
  obtains d where "attempted True (lf_daemon (exBegun c)) d"
    and "(life_step exVersion l)\<^sup>*\<^sup>* life_start
      ((exBegun c)\<lparr>lf_daemon := initEnd None d, lf_init := None, lf_initDone := Some True\<rparr>)"
    and "rd_monitor d = rd_monitor (lf_daemon (exBegun c))"
proof -
  let ?a = "exHost exVersion None"
  have "rd_discovery (lf_daemon (exBegun c)) = None"
    by (simp add: exBegun_def newRemoteDaemon_def rd_Close_def closeConn_def cancelMonitors_def)
  then obtain d where d: "ensureDaemon exVersion l ?a (lf_daemon (exBegun c)) = (None, d)"
    using ex_succeeds by blast
  have ok: "conns_ok (lf_daemon (exBegun c))"
    by (simp add: exBegun_def newRemoteDaemon_def conns_ok_def)
  have "life_step exVersion l (exBegun c) ((exBegun c)\<lparr>lf_daemon := d, lf_init := Some (InitTried None)\<rparr>)"
    by (rule life_step.init_work [where a = ?a and transport = True and after = AfterOk])
      (simp_all add: exBegun_def initWork_def d [unfolded exBegun_def, simplified])
  moreover have "life_step exVersion l ((exBegun c)\<lparr>lf_daemon := d, lf_init := Some (InitTried None)\<rparr>)
      ((exBegun c)\<lparr>lf_daemon := initEnd None d, lf_init := None, lf_initDone := Some True\<rparr>)"
    using life_step.init_end [of "(exBegun c)\<lparr>lf_daemon := d, lf_init := Some (InitTried None)\<rparr>" None exVersion l] by simp
  ultimately have "(life_step exVersion l)\<^sup>*\<^sup>* life_start
      ((exBegun c)\<lparr>lf_daemon := initEnd None d, lf_init := None, lf_initDone := Some True\<rparr>)"
    using exBegun_run [of exVersion l c] by (meson rtranclp.rtrancl_into_rtrancl)
  moreover have "rd_monitor d = rd_monitor (lf_daemon (exBegun c))"
    using ensureDaemon_outcome(2) [OF ok exHost_ok d] by (simp add: connected_to_def same_life_def)
  ultimately show ?thesis
    using that attempted_ensure [OF ok exHost_ok d] by simp
qed

theorem daemon_life_is_orderly_witness:
  "\<exists>s. (life_step exVersion ''INFO'')\<^sup>*\<^sup>* life_start s \<and> rd_state (lf_daemon s) = ConnectionStateConnected \<and>
     rd_remoteConn (lf_daemon s) \<noteq> None \<and> lf_loops s = []"
proof -
  obtain d where run: "(life_step exVersion ''INFO'')\<^sup>*\<^sup>* life_start
      ((exBegun False)\<lparr>lf_daemon := initEnd None d, lf_init := None, lf_initDone := Some True\<rparr>)"
    by (rule exBegun_end)
  have "rd_state (initEnd None d) = ConnectionStateConnected"
    by simp
  then have "rd_remoteConn (initEnd None d) \<noteq> None"
    using daemon_life_is_orderly [OF run refl] by (simp del: initEnd_fields)
  then show ?thesis
    using run by (intro exI [of _ "(exBegun False)\<lparr>lf_daemon := initEnd None d, lf_init := None, lf_initDone := Some True\<rparr>"])
      (simp add: exBegun_def life_start_def)
qed


text \<open>
  An installation that fails half-way is not repeated as long as the old daemon answers: a daemon of another
  version is found, copying ours fails and the attempt reports it; the next attempt, with copying possible again,
  succeeds without copying anything and connects to the daemon of the other version.
\<close>

theorem failed_install_is_not_retried:
  "BuildVersionsEqual exOlder exVersion \<noteq> '''' \<and>
   (case ensureDaemon exVersion ''INFO'' (exHost exOlder (Some ''no space'')) newRemoteDaemon of
      (r1, d1) \<Rightarrow> r1 = Some (CopyFailed ''no space'') \<and>
        (case reconnectOnce exVersion ''INFO'' True (exHost exOlder None) d1 of
           (ok, d2) \<Rightarrow> ok \<and> \<not> copies (added d1 d2) \<and> rd_remoteConn d2 \<noteq> None))"
  by code_simp

end
