(* ===== verification/ConnectionManager.thy ===== *)
theory ConnectionManager
  imports Connection "HOL-Library.Multiset" "HOL-Library.List_Lexorder" "HOL-Library.Char_ord"
begin

text \<open>
  The connection manager (\<^verbatim>\<open>pkg/connection_manager.go\<close>): the table of connections, the daemons they share
  and their reference counts, re-keying and merging of daemons once host names are resolved, the
  lookups by name and by working directory, and the file of connection roots. Connections and daemons
  are numbered; the numbers stand for Go's pointers. Everything done under \<^verbatim>\<open>connMgrMu\<close> is one function.
\<close>

subsection \<open>Data\<close>

record destination_url =
  u_Scheme :: string
  u_User :: "string option"
  u_Hostname :: string
  u_Port :: string
  u_Host :: string
  u_String :: string

datatype init_result = InitOk | InitFailed | InitSuperseded

datatype init_phase = InitNone | InitRunning | InitDone init_result

record managed_daemon =
  dm_destination :: string
  dm_mapKey :: string
  dm_refCount :: int
  dm_supersededBy :: "nat option"
  dm_remoteRoots :: "string list"
  dm_homeDir :: string
  dm_state :: ConnectionState
  dm_init :: init_phase
  dm_destroyed :: bool

record ConnectionManager =
  cm_connections :: "(string \<times> nat) list"
  cm_published :: "(string \<times> nat) list option"
  cm_daemons :: "(string \<times> nat) list"
  cm_schemes :: "string list"
  cm_connectionRootsPath :: string
  cm_rootsFile :: "string option"
  cm_conn :: "nat \<Rightarrow> Connection"
  cm_nextConn :: nat
  cm_daemon :: "nat \<Rightarrow> managed_daemon"
  cm_nextDaemon :: nat

datatype mgr_error =
    ConflictingDestination string string
  | OverlappingLocalRoot string string string
  | UnknownScheme string
  | ConnectionNotFound string
  | CannotUseConnectionInState ConnectionState
  | ConnectorFailed
  | InitializationFailed

abbreviation set_daemon :: "nat \<Rightarrow> managed_daemon \<Rightarrow> ConnectionManager \<Rightarrow> ConnectionManager" where
  "set_daemon d v m \<equiv> m\<lparr>cm_daemon := (cm_daemon m)(d := v)\<rparr>"

abbreviation set_conn :: "nat \<Rightarrow> Connection \<Rightarrow> ConnectionManager \<Rightarrow> ConnectionManager" where
  "set_conn c v m \<equiv> m\<lparr>cm_conn := (cm_conn m)(c := v)\<rparr>"

definition nilDaemon :: managed_daemon where
  "nilDaemon =
     \<lparr>dm_destination = '''', dm_mapKey = '''', dm_refCount = 0, dm_supersededBy = None, dm_remoteRoots = [],
      dm_homeDir = '''', dm_state = ConnectionStateNew, dm_init = InitNone, dm_destroyed = False\<rparr>"

definition NewConnectionManager :: "string option \<Rightarrow> ConnectionManager" where
  "NewConnectionManager sessRoot =
     \<lparr>cm_connections = [], cm_published = None, cm_daemons = [], cm_schemes = [],
      cm_connectionRootsPath =
        (case sessRoot of None \<Rightarrow> '''' | Some r \<Rightarrow> PathJoin [Dir r, ''connection_roots'']),
      cm_rootsFile = None,
      cm_conn = (\<lambda>_. newConnection 0 '''' '''' '''' False), cm_nextConn = 0,
      cm_daemon = (\<lambda>_. nilDaemon), cm_nextDaemon = 0\<rparr>"

definition RegisterConnectorFactory :: "string \<Rightarrow> ConnectionManager \<Rightarrow> ConnectionManager" where
  "RegisterConnectorFactory key m = m\<lparr>cm_schemes := key # cm_schemes m\<rparr>"

definition scheme :: "ConnectionManager \<Rightarrow> destination_url \<Rightarrow> mgr_error option" where
  "scheme m destURL =
     (if u_Scheme destURL \<in> set (cm_schemes m) then None else Some (UnknownScheme (u_Scheme destURL)))"

definition daemonKey :: "destination_url \<Rightarrow> string \<Rightarrow> string" where
  "daemonKey destURL identity =
     (let user = (case u_User destURL of None \<Rightarrow> '''' | Some n \<Rightarrow> n);
          host = u_Hostname destURL;
          port = (if u_Port destURL = ''22'' then '''' else u_Port destURL);
          hostPart = (if port \<noteq> '''' then host @ '':'' @ port else host);
          hostPart = (if user \<noteq> '''' then user @ ''@'' @ hostPart else hostPart)
      in hostPart @ ''::'' @ identity)"

subsection \<open>The table of connections\<close>

definition publishConnectionsLocked :: "ConnectionManager \<Rightarrow> ConnectionManager" where
  "publishConnectionsLocked m = m\<lparr>cm_published := Some (cm_connections m)\<rparr>"

definition updateDaemonRemoteRoots :: "nat \<Rightarrow> ConnectionManager \<Rightarrow> ConnectionManager" where
  "updateDaemonRemoteRoots d m =
     set_daemon d ((cm_daemon m d)\<lparr>dm_remoteRoots :=
       filter (\<lambda>r. r \<noteq> '''')
         (map (\<lambda>(_, c). cn_remoteRoot (cm_conn m c))
           (filter (\<lambda>(_, c). cn_daemon (cm_conn m c) = d) (cm_connections m)))\<rparr>) m"

text \<open>
  The file system as the lookups use it: \<^verbatim>\<open>filepath.EvalSymlinks\<close> and the process's working directory, on
  which \<^verbatim>\<open>filepath.Abs\<close> depends; \<open>None\<close> when they fail.
\<close>

record path_env =
  pe_evalSymlinks :: "string \<Rightarrow> string option"
  pe_getwd :: "string option"
  pe_writeOk :: bool

definition AbsPath :: "path_env \<Rightarrow> string \<Rightarrow> string option" where
  "AbsPath pe p = (if IsAbs p then Some (Clean p) else map_option (\<lambda>wd. PathJoin [wd, p]) (pe_getwd pe))"

definition rootsLine :: "path_env \<Rightarrow> Connection \<Rightarrow> string \<Rightarrow> string" where
  "rootsLine pe conn name =
     (if cn_background conn \<or> cn_localRoot conn = '''' then ''''
      else
        let l1 = (case pe_evalSymlinks pe (cn_localRoot conn) of Some r \<Rightarrow> r | None \<Rightarrow> cn_localRoot conn);
            l2 = (case AbsPath pe l1 of Some r \<Rightarrow> r | None \<Rightarrow> l1)
        in l2 @ [CHR 0x09] @ name @ [CHR 0x0A])"

definition connectionRootsContent :: "path_env \<Rightarrow> ConnectionManager \<Rightarrow> string" where
  "connectionRootsContent pe m =
     concat (map (\<lambda>name. case map_of (cm_connections m) name of
                            None \<Rightarrow> '''' | Some c \<Rightarrow> rootsLine pe (cm_conn m c) name)
              (sort (map fst (cm_connections m))))"

definition writeConnectionRootsFile :: "path_env \<Rightarrow> ConnectionManager \<Rightarrow> ConnectionManager" where
  "writeConnectionRootsFile pe m =
     (if cm_connectionRootsPath m = '''' then m
      else
        let content = connectionRootsContent pe m in
        if cm_rootsFile m = Some content then m
        else if pe_writeOk pe then m\<lparr>cm_rootsFile := Some content\<rparr> else m)"

fun overlapping :: "ConnectionManager \<Rightarrow> string \<Rightarrow> (string \<times> nat) list \<Rightarrow> mgr_error option" where
  "overlapping m localRoot [] = None"
| "overlapping m localRoot ((_, c) # rest) =
     (let conn = cm_conn m c in
      if cn_background conn \<or> cn_localRoot conn = '''' then overlapping m localRoot rest
      else if hasPathPrefix (ToLower localRoot) (ToLower (cn_localRoot conn)) \<noteq> None
      then Some (OverlappingLocalRoot localRoot (cn_name conn) (cn_localRoot conn))
      else if hasPathPrefix (ToLower (cn_localRoot conn)) (ToLower localRoot) \<noteq> None
      then Some (OverlappingLocalRoot localRoot (cn_name conn) (cn_localRoot conn))
      else overlapping m localRoot rest)"

definition checkOverlappingRoots :: "ConnectionManager \<Rightarrow> string \<Rightarrow> mgr_error option" where
  "checkOverlappingRoots m localRoot = overlapping m localRoot (cm_connections m)"

definition createConnection ::
    "path_env \<Rightarrow> string \<Rightarrow> string \<Rightarrow> string \<Rightarrow> nat \<Rightarrow> bool \<Rightarrow> ConnectionManager \<Rightarrow> mgr_error + nat \<times> ConnectionManager" where
  "createConnection pe name localRoot remoteRoot d background m =
     (case (if \<not> background \<and> localRoot \<noteq> '''' then checkOverlappingRoots m localRoot else None) of
        Some e \<Rightarrow> Inl e
      | None \<Rightarrow>
          let c = cm_nextConn m;
              m1 = (set_conn c (newConnection d name localRoot remoteRoot background) m)\<lparr>
                     cm_nextConn := c + 1,
                     cm_connections := AList.update name c (cm_connections m)\<rparr>
          in Inr (c, writeConnectionRootsFile pe (updateDaemonRemoteRoots d (publishConnectionsLocked m1))))"

definition lookupConnectionLockFree :: "ConnectionManager \<Rightarrow> string \<Rightarrow> mgr_error + nat" where
  "lookupConnectionLockFree m name =
     (case Option.bind (cm_published m) (\<lambda>snap. map_of snap name) of
        Some c \<Rightarrow> Inr c
      | None \<Rightarrow> Inl (ConnectionNotFound name))"

definition connection :: "ConnectionManager \<Rightarrow> string \<Rightarrow> bool \<Rightarrow> mgr_error + nat" where
  "connection m name safely =
     (case map_of (cm_connections m) name of
        None \<Rightarrow> Inl (ConnectionNotFound name)
      | Some c \<Rightarrow>
          let st = fst (cn_State (\<lambda>d. (dm_state (cm_daemon m d), '''')) (cm_conn m c)) in
          if safely \<and> st \<noteq> ConnectionStateConnected then Inl (CannotUseConnectionInState st)
          else Inr c)"

text \<open>The operations that change a registered connection through the manager.\<close>

definition updateConnection :: "(Connection \<Rightarrow> Connection) \<Rightarrow> string \<Rightarrow> ConnectionManager \<Rightarrow> mgr_error + ConnectionManager" where
  "updateConnection f name m =
     (case connection m name True of
        Inl e \<Rightarrow> Inl e
      | Inr c \<Rightarrow> Inr (set_conn c (f (cm_conn m c)) m))"

definition cm_UpdateForwardCommands :: "string \<Rightarrow> ForwardCommandIntent list \<Rightarrow> ConnectionManager \<Rightarrow> mgr_error + ConnectionManager" where
  "cm_UpdateForwardCommands name commands = updateConnection (\<lambda>conn. cn_UpdateForwardCommands conn commands) name"

definition cm_RemoveForwardCommands :: "string \<Rightarrow> string list \<Rightarrow> ConnectionManager \<Rightarrow> mgr_error + ConnectionManager" where
  "cm_RemoveForwardCommands name commands = updateConnection (\<lambda>conn. cn_RemoveForwardCommands conn commands) name"

definition cm_UpdateEnvForward :: "string \<Rightarrow> string list \<Rightarrow> ConnectionManager \<Rightarrow> mgr_error + ConnectionManager" where
  "cm_UpdateEnvForward name names = updateConnection (\<lambda>conn. cn_UpdateEnvForward conn names) name"

definition cm_RemoveEnvForward :: "string \<Rightarrow> string list \<Rightarrow> ConnectionManager \<Rightarrow> mgr_error + ConnectionManager" where
  "cm_RemoveEnvForward name names = updateConnection (\<lambda>conn. cn_RemoveEnvForward conn names) name"

text \<open>The connections whose local root contains a directory.\<close>

definition rootMatches :: "path_env \<Rightarrow> bool \<Rightarrow> string \<Rightarrow> Connection \<Rightarrow> bool" where
  "rootMatches pe allowBackground cwd conn \<longleftrightarrow>
     (allowBackground \<or> \<not> cn_background conn) \<and> cn_localRoot conn \<noteq> '''' \<and>
     (case Option.bind (pe_evalSymlinks pe (cn_localRoot conn)) (AbsPath pe) of
        None \<Rightarrow> False
      | Some r \<Rightarrow> hasPathPrefix cwd (ToLower r) \<noteq> None)"

definition matchConnectionByCWD :: "path_env \<Rightarrow> ConnectionManager \<Rightarrow> string \<Rightarrow> bool \<Rightarrow> nat option" where
  "matchConnectionByCWD pe m cwd allowBackground =
     (if cwd = '''' then None
      else
        (case Option.bind (pe_evalSymlinks pe cwd) (AbsPath pe) of
           None \<Rightarrow> None
         | Some dir \<Rightarrow>
             (case filter (\<lambda>c. rootMatches pe allowBackground (ToLower dir) (cm_conn m c))
                     (map snd (cm_connections m)) of
                [c] \<Rightarrow> Some c
              | _ \<Rightarrow> None)))"

text \<open>
  \<^verbatim>\<open>forwardings\<close>: a command that is not prefixed goes to the first connection that asks for it.
\<close>

definition addForward ::
    "string \<Rightarrow> bool \<Rightarrow> (ForwardCommandIntent \<times> string list) list \<Rightarrow> ForwardCommandIntent
     \<Rightarrow> (ForwardCommandIntent \<times> string list) list" where
  "addForward destName selected fwds fwd =
     (if \<not> fi_Global fwd \<and> \<not> selected then fwds
      else if \<not> fi_Prefix fwd \<and> map_of fwds fwd \<noteq> None then fwds
      else AList.update fwd ((case map_of fwds fwd of None \<Rightarrow> [] | Some ds \<Rightarrow> ds) @ [destName]) fwds)"

definition forwardings :: "ConnectionManager \<Rightarrow> nat option \<Rightarrow> (ForwardCommandIntent \<times> string list) list" where
  "forwardings m selectedConn =
     foldl (\<lambda>fwds (destName, c). foldl (addForward destName (selectedConn = Some c)) fwds (cn_fwdList (cm_conn m c)))
       [] (cm_connections m)"

subsection \<open>Shared daemons\<close>

text \<open>
  The beginning of \<^verbatim>\<open>initialize\<close>: the scheme, the name, and a connection that is already registered under it.
\<close>

definition getOrCreateDaemonForConnection :: "ConnectionManager \<Rightarrow> string \<Rightarrow> destination_url \<Rightarrow> mgr_error + nat option" where
  "getOrCreateDaemonForConnection m name destURL =
     (case map_of (cm_connections m) name of
        None \<Rightarrow> Inr None
      | Some c \<Rightarrow>
          let other = dm_destination (cm_daemon m (cn_daemon (cm_conn m c))) in
          if other \<noteq> u_String destURL then Inl (ConflictingDestination other name) else Inr (Some c))"

definition initializeStart :: "ConnectionManager \<Rightarrow> string \<Rightarrow> destination_url \<Rightarrow> mgr_error + string \<times> nat option" where
  "initializeStart m name destURL =
     (case scheme m destURL of
        Some e \<Rightarrow> Inl e
      | None \<Rightarrow>
          let name = (if name = '''' then u_Host destURL else name) in
          (case getOrCreateDaemonForConnection m name destURL of
             Inl e \<Rightarrow> Inl e
           | Inr existing \<Rightarrow> Inr (name, existing)))"

definition addRef :: "int \<Rightarrow> nat \<Rightarrow> ConnectionManager \<Rightarrow> ConnectionManager" where
  "addRef n d m = set_daemon d ((cm_daemon m d)\<lparr>dm_refCount := dm_refCount (cm_daemon m d) + n\<rparr>) m"

text \<open>
  \<^verbatim>\<open>getOrCreateDaemon\<close> has two critical sections, with the creation of the connector between them. The
  first finds a daemon or not; the second finds one that appeared meanwhile or adds a new one.
\<close>

definition findDaemon :: "string \<Rightarrow> ConnectionManager \<Rightarrow> (nat \<times> ConnectionManager) option" where
  "findDaemon key m = map_option (\<lambda>d. (d, addRef 1 d m)) (map_of (cm_daemons m) key)"

definition insertDaemon :: "string \<Rightarrow> string \<Rightarrow> ConnectionManager \<Rightarrow> nat \<times> ConnectionManager" where
  "insertDaemon key dest m =
     (case findDaemon key m of
        Some r \<Rightarrow> r
      | None \<Rightarrow>
          let d = cm_nextDaemon m in
          (d, (set_daemon d (nilDaemon\<lparr>dm_destination := dest, dm_mapKey := key, dm_refCount := 1\<rparr>) m)\<lparr>
                cm_nextDaemon := d + 1, cm_daemons := AList.update key d (cm_daemons m)\<rparr>))"

definition reassignDaemon :: "nat \<Rightarrow> string \<Rightarrow> ConnectionManager \<Rightarrow> nat \<times> ConnectionManager" where
  "reassignDaemon d newKey m =
     (let dm = cm_daemon m d in
      if dm_mapKey dm = newKey then (d, m)
      else
        (case map_of (cm_daemons m) newKey of
           Some existing \<Rightarrow>
             (existing,
              (set_daemon d (dm\<lparr>dm_supersededBy := Some existing\<rparr>) m)\<lparr>
                cm_daemons := AList.delete (dm_mapKey dm) (cm_daemons m)\<rparr>)
         | None \<Rightarrow>
             (d, (set_daemon d (dm\<lparr>dm_mapKey := newKey\<rparr>) m)\<lparr>
                   cm_daemons := AList.update newKey d (AList.delete (dm_mapKey dm) (cm_daemons m))\<rparr>)))"

definition followSupersede :: "nat \<Rightarrow> nat \<Rightarrow> ConnectionManager \<Rightarrow> ConnectionManager" where
  "followSupersede d to m = addRef 1 to (addRef (- 1) d m)"

text \<open>Destruction is started in the background; it is recorded here.\<close>

definition releaseDaemon :: "nat \<Rightarrow> ConnectionManager \<Rightarrow> ConnectionManager" where
  "releaseDaemon d m =
     (let m1 = addRef (- 1) d m in
      if dm_refCount (cm_daemon m1 d) > 0 then m1
      else
        (set_daemon d ((cm_daemon m1 d)\<lparr>dm_destroyed := True\<rparr>) m1)\<lparr>
          cm_daemons := AList.delete (dm_mapKey (cm_daemon m1 d)) (cm_daemons m1)\<rparr>)"

definition dropConnection :: "string \<Rightarrow> ConnectionManager \<Rightarrow> ConnectionManager" where
  "dropConnection name m =
     publishConnectionsLocked (m\<lparr>cm_connections := AList.delete name (cm_connections m)\<rparr>)"

text \<open>\<^verbatim>\<open>remove\<close> after the lookup gave connection \<open>c\<close>: closing it, then the critical section.\<close>

definition removeFinish :: "path_env \<Rightarrow> string \<Rightarrow> nat \<Rightarrow> ConnectionManager \<Rightarrow> ConnectionManager" where
  "removeFinish pe name c m =
     (let m1 = dropConnection name (set_conn c (fst (cn_Close (cm_conn m c))) m);
          d = cn_daemon (cm_conn m1 c)
      in releaseDaemon d (writeConnectionRootsFile pe (updateDaemonRemoteRoots d m1)))"

definition cm_remove :: "path_env \<Rightarrow> string \<Rightarrow> bool \<Rightarrow> ConnectionManager \<Rightarrow> mgr_error + ConnectionManager" where
  "cm_remove pe name safely m =
     (case connection m name safely of
        Inl e \<Rightarrow> Inl e
      | Inr c \<Rightarrow> Inr (removeFinish pe name c m))"

definition cm_Close :: "ConnectionManager \<Rightarrow> ConnectionManager" where
  "cm_Close m =
     m\<lparr>cm_daemons := [],
       cm_conn := (\<lambda>c. if c \<in> snd ` set (cm_connections m) then fst (cn_Close (cm_conn m c)) else cm_conn m c),
       cm_rootsFile := (if cm_connectionRootsPath m \<noteq> '''' then None else cm_rootsFile m)\<rparr>"

text \<open>Resolution of the remote root once the daemon's home directory is known.\<close>

definition defaultSyncRemotePath :: "(string \<Rightarrow> byte list) \<Rightarrow> string \<Rightarrow> string \<Rightarrow> string \<Rightarrow> string" where
  "defaultSyncRemotePath sha256 homeDir identity sourceDir =
     PathJoin [homeDir, ''.graft'', ''sync'', identity,
               Base sourceDir @ ''-'' @ take 6 (EncodeToString (sha256 sourceDir))]"

definition resolveRemoteRoot ::
    "(string \<Rightarrow> byte list) \<Rightarrow> string \<Rightarrow> string \<Rightarrow> string \<Rightarrow> bool \<Rightarrow> string \<Rightarrow> Connection \<Rightarrow> roots_error + Connection" where
  "resolveRemoteRoot sha256 homeDir localRoot remoteRoot willSync identity conn =
     (if homeDir = '''' then Inr conn
      else if remoteRoot = '''' \<and> willSync then
        SetRoots conn localRoot (defaultSyncRemotePath sha256 homeDir identity localRoot)
      else if HasPrefix (cn_remoteRoot conn) ''~/'' then
        SetRoots conn localRoot (PathJoin [homeDir, drop 2 (cn_remoteRoot conn)])
      else Inr conn)"

subsection \<open>Concurrent calls\<close>

text \<open>
  A call of \<^verbatim>\<open>initialize\<close> or \<^verbatim>\<open>remove\<close> in flight. Its program counter is the point between two critical
  sections: the daemon and connection it holds are the values of its local variables.
\<close>

datatype call_pc =
    Checked
  | WantDaemon string
  | HaveDaemon nat
  | Created nat nat bool
  | Initing nat nat bool
  | Installing nat nat
  | Superseded nat nat
  | Moving nat nat
  | Returned nat nat bool
  | Removing nat

record call =
  ck_name :: string
  ck_url :: destination_url
  ck_localRoot :: string
  ck_remoteRoot :: string
  ck_identity :: string
  ck_destroyIfFail :: bool
  ck_background :: bool
  ck_willSync :: bool
  ck_pc :: call_pc

text \<open>
  The whole system: the manager, the calls in flight, whether a call holds the server's mutex (every
  \<^verbatim>\<open>Initialize\<close> and \<^verbatim>\<open>Remove\<close> does, the parallel \<^verbatim>\<open>Restore\<close> calls of start-up do not), and, for the proofs only,
  the connections whose reference has not been released yet.
\<close>

record mgr_sys =
  sy_mgr :: ConnectionManager
  sy_calls :: "call multiset"
  sy_busy :: bool
  sy_owned :: "nat multiset"

text \<open>The daemon an initialisation still works on, and may be redirected from.\<close>

fun pc_daemon :: "call_pc \<Rightarrow> nat option" where
  "pc_daemon (HaveDaemon d) = Some d"
| "pc_daemon (Created d _ second) = (if second then None else Some d)"
| "pc_daemon (Initing d _ second) = (if second then None else Some d)"
| "pc_daemon (Superseded d _) = Some d"
| "pc_daemon _ = None"

text \<open>No initialisation in flight works on daemon \<open>d\<close> or is about to be redirected to it.\<close>

definition quiet :: "call multiset \<Rightarrow> (nat \<Rightarrow> nat option) \<Rightarrow> nat \<Rightarrow> bool" where
  "quiet ks supersededBy d \<longleftrightarrow>
     (\<forall>k \<in># ks. case pc_daemon (ck_pc k) of
                   None \<Rightarrow> True
                 | Some d0 \<Rightarrow> d0 \<noteq> d \<and> supersededBy d0 \<noteq> Some d)"

abbreviation at :: "call \<Rightarrow> call_pc \<Rightarrow> call" where
  "at k p \<equiv> k\<lparr>ck_pc := p\<rparr>"

abbreviation set_init :: "nat \<Rightarrow> ConnectionState \<Rightarrow> init_phase \<Rightarrow> ConnectionManager \<Rightarrow> ConnectionManager" where
  "set_init d st ph m \<equiv> set_daemon d ((cm_daemon m d)\<lparr>dm_state := st, dm_init := ph\<rparr>) m"

text \<open>What \<^verbatim>\<open>Initialize\<close> answers to a caller that finds daemon \<open>d\<close> already initialised or being refused.\<close>

definition initAnswer :: "nat \<Rightarrow> nat \<Rightarrow> bool \<Rightarrow> ConnectionManager \<Rightarrow> call_pc option" where
  "initAnswer d c second m =
     (case dm_init (cm_daemon m d) of
        InitDone r \<Rightarrow> Some (if r = InitSuperseded \<and> \<not> second then Superseded d c else Returned d c (r = InitOk))
      | InitRunning \<Rightarrow> None
      | InitNone \<Rightarrow>
          (case dm_state (cm_daemon m d) of
             ConnectionStateNew \<Rightarrow> None
           | ConnectionStateConnected \<Rightarrow> Some (Returned d c True)
           | _ \<Rightarrow> Some (Returned d c False)))"

text \<open>The critical section that \<^verbatim>\<open>afterTransport\<close> runs, with the key of the resolved destination.\<close>

definition afterTransport :: "nat \<Rightarrow> nat \<Rightarrow> string \<Rightarrow> ConnectionManager \<Rightarrow> call_pc \<times> ConnectionManager" where
  "afterTransport d c newKey m =
     (let (newDaemon, m1) = reassignDaemon d newKey m in
      if newDaemon \<noteq> d
      then (Superseded d c, set_daemon d ((cm_daemon m1 d)\<lparr>dm_init := InitDone InitSuperseded\<rparr>) m1)
      else (Installing d c, m1))"

text \<open>The end of \<^verbatim>\<open>initialize\<close> on success, \<open>None\<close> when setting the resolved root is refused.\<close>

definition remoteRootModified :: "string \<Rightarrow> string \<Rightarrow> bool \<Rightarrow> Connection \<Rightarrow> bool" where
  "remoteRootModified homeDir remoteRoot willSync conn \<longleftrightarrow>
     homeDir \<noteq> '''' \<and> (remoteRoot = '''' \<and> willSync \<or> HasPrefix (cn_remoteRoot conn) ''~/'')"

definition finishRoots :: "(string \<Rightarrow> byte list) \<Rightarrow> call \<Rightarrow> nat \<Rightarrow> nat \<Rightarrow> ConnectionManager \<Rightarrow> ConnectionManager option" where
  "finishRoots sha256 k d c m =
     (case resolveRemoteRoot sha256 (dm_homeDir (cm_daemon m d)) (ck_localRoot k) (ck_remoteRoot k) (ck_willSync k)
             (ck_identity k) (cm_conn m c) of
        Inl _ \<Rightarrow> None
      | Inr conn \<Rightarrow>
          Some (if remoteRootModified (dm_homeDir (cm_daemon m d)) (ck_remoteRoot k) (ck_willSync k) (cm_conn m c)
                then updateDaemonRemoteRoots d (set_conn c conn m) else m))"

text \<open>
  One step of the system is one critical section of one call, or a change of a daemon's state from outside. The
  flag \<open>g\<close> asks that the last reference of a daemon is only released while the daemon is \<^const>\<open>quiet\<close>; the code
  does not ensure it.
\<close>

abbreviation finishes :: "call \<Rightarrow> ConnectionManager \<Rightarrow> call multiset \<Rightarrow> mgr_sys \<Rightarrow> mgr_sys" where
  "finishes k m ks s \<equiv> s\<lparr>sy_mgr := m, sy_calls := ks, sy_busy := sy_busy s \<and> \<not> ck_destroyIfFail k\<rparr>"

abbreviation goes :: "call \<Rightarrow> call_pc \<Rightarrow> ConnectionManager \<Rightarrow> call multiset \<Rightarrow> mgr_sys \<Rightarrow> mgr_sys" where
  "goes k p m ks s \<equiv> s\<lparr>sy_mgr := m, sy_calls := add_mset (at k p) ks\<rparr>"

inductive mgr_step :: "bool \<Rightarrow> mgr_sys \<Rightarrow> mgr_sys \<Rightarrow> bool" for g where
  begin_call: "ck_pc k = Checked \<Longrightarrow> initializeStart (sy_mgr s) name (ck_url k) = Inr (ck_name k, None) \<Longrightarrow>
    \<not> (ck_destroyIfFail k \<and> sy_busy s) \<Longrightarrow>
    mgr_step g s (s\<lparr>sy_calls := add_mset k (sy_calls s), sy_busy := sy_busy s \<or> ck_destroyIfFail k\<rparr>)"
| find: "sy_calls s = add_mset k ks \<Longrightarrow> ck_pc k = Checked \<Longrightarrow> key = daemonKey (ck_url k) (ck_identity k) \<Longrightarrow>
    findDaemon key (sy_mgr s) = Some (d, m) \<Longrightarrow> mgr_step g s (goes k (HaveDaemon d) m ks s)"
| miss: "sy_calls s = add_mset k ks \<Longrightarrow> ck_pc k = Checked \<Longrightarrow> key = daemonKey (ck_url k) (ck_identity k) \<Longrightarrow>
    findDaemon key (sy_mgr s) = None \<Longrightarrow> mgr_step g s (goes k (WantDaemon key) (sy_mgr s) ks s)"
| connector_failed: "sy_calls s = add_mset k ks \<Longrightarrow> ck_pc k = WantDaemon key \<Longrightarrow>
    mgr_step g s (finishes k (sy_mgr s) ks s)"
| insert_daemon: "sy_calls s = add_mset k ks \<Longrightarrow> ck_pc k = WantDaemon key \<Longrightarrow>
    insertDaemon key dest (sy_mgr s) = (d, m) \<Longrightarrow> mgr_step g s (goes k (HaveDaemon d) m ks s)"
| create: "sy_calls s = add_mset k ks \<Longrightarrow> ck_pc k = HaveDaemon d \<Longrightarrow>
    createConnection pe (ck_name k) (ck_localRoot k) (ck_remoteRoot k) d (ck_background k) (sy_mgr s) = Inr (c, m) \<Longrightarrow>
    mgr_step g s ((goes k (Created d c False) m ks s)\<lparr>sy_owned := add_mset c (sy_owned s)\<rparr>)"
| refused: "sy_calls s = add_mset k ks \<Longrightarrow> ck_pc k = HaveDaemon d \<Longrightarrow>
    createConnection pe (ck_name k) (ck_localRoot k) (ck_remoteRoot k) d (ck_background k) (sy_mgr s) = Inl e \<Longrightarrow>
    mgr_step g s (finishes k (sy_mgr s) ks s)"
| init_start: "sy_calls s = add_mset k ks \<Longrightarrow> ck_pc k = Created d c second \<Longrightarrow>
    dm_init (cm_daemon (sy_mgr s) d) = InitNone \<Longrightarrow> dm_state (cm_daemon (sy_mgr s) d) = ConnectionStateNew \<Longrightarrow>
    mgr_step g s (goes k (Initing d c second) (set_init d ConnectionStateInitializing InitRunning (sy_mgr s)) ks s)"
| init_answer: "sy_calls s = add_mset k ks \<Longrightarrow> ck_pc k = Created d c second \<Longrightarrow>
    initAnswer d c second (sy_mgr s) = Some p \<Longrightarrow> mgr_step g s (goes k p (sy_mgr s) ks s)"
| init_cancelled: "sy_calls s = add_mset k ks \<Longrightarrow> ck_pc k = Created d c second \<Longrightarrow>
    dm_init (cm_daemon (sy_mgr s) d) \<noteq> InitNone \<Longrightarrow>
    mgr_step g s (goes k (Returned d c False) (sy_mgr s) ks s)"
| transport_failed: "sy_calls s = add_mset k ks \<Longrightarrow> ck_pc k = Initing d c second \<Longrightarrow>
    mgr_step g s (goes k (Returned d c False) (set_init d ConnectionStateFailed (InitDone InitFailed) (sy_mgr s)) ks s)"
| reassign: "sy_calls s = add_mset k ks \<Longrightarrow> ck_pc k = Initing d c False \<Longrightarrow>
    afterTransport d c newKey (sy_mgr s) = (p, m) \<Longrightarrow> mgr_step g s (goes k p m ks s)"
| no_callback: "sy_calls s = add_mset k ks \<Longrightarrow> ck_pc k = Initing d c True \<Longrightarrow>
    mgr_step g s (goes k (Installing d c) (sy_mgr s) ks s)"
| installed: "sy_calls s = add_mset k ks \<Longrightarrow> ck_pc k = Installing d c \<Longrightarrow>
    m = set_daemon d ((cm_daemon (sy_mgr s) d)\<lparr>dm_homeDir := home, dm_state := ConnectionStateConnected,
          dm_init := InitDone InitOk\<rparr>) (sy_mgr s) \<Longrightarrow>
    mgr_step g s (goes k (Returned d c True) m ks s)"
| install_failed: "sy_calls s = add_mset k ks \<Longrightarrow> ck_pc k = Installing d c \<Longrightarrow>
    mgr_step g s (goes k (Returned d c False) (set_init d ConnectionStateFailed (InitDone InitFailed) (sy_mgr s)) ks s)"
| follow: "sy_calls s = add_mset k ks \<Longrightarrow> ck_pc k = Superseded d c \<Longrightarrow>
    dm_supersededBy (cm_daemon (sy_mgr s) d) = Some to \<Longrightarrow>
    mgr_step g s (goes k (Moving c to) (followSupersede d to (sy_mgr s)) ks s)"
| move: "sy_calls s = add_mset k ks \<Longrightarrow> ck_pc k = Moving c to \<Longrightarrow>
    mgr_step g s (goes k (Created to c True) (set_conn c (updateDaemon (cm_conn (sy_mgr s) c) to) (sy_mgr s)) ks s)"
| finish_ok: "sy_calls s = add_mset k ks \<Longrightarrow> ck_pc k = Returned d c True \<Longrightarrow>
    finishRoots sha256 k d c (sy_mgr s) = Some m \<Longrightarrow> mgr_step g s (finishes k m ks s)"
| finish_refused: "sy_calls s = add_mset k ks \<Longrightarrow> ck_pc k = Returned d c True \<Longrightarrow>
    finishRoots sha256 k d c (sy_mgr s) = None \<Longrightarrow> mgr_step g s (finishes k (sy_mgr s) ks s)"
| finish_kept: "sy_calls s = add_mset k ks \<Longrightarrow> ck_pc k = Returned d c False \<Longrightarrow> \<not> ck_destroyIfFail k \<Longrightarrow>
    mgr_step g s (finishes k (sy_mgr s) ks s)"
| finish_destroyed: "sy_calls s = add_mset k ks \<Longrightarrow> ck_pc k = Returned d c False \<Longrightarrow> ck_destroyIfFail k \<Longrightarrow>
    (g \<Longrightarrow> dm_refCount (cm_daemon (sy_mgr s) d) \<le> 1 \<Longrightarrow> quiet ks (dm_supersededBy \<circ> cm_daemon (sy_mgr s)) d) \<Longrightarrow>
    mgr_step g s ((finishes k (releaseDaemon d (dropConnection (ck_name k) (sy_mgr s))) ks s)\<lparr>
      sy_owned := sy_owned s - {#c#}\<rparr>)"
| remove_lookup: "ck_destroyIfFail k \<Longrightarrow> \<not> sy_busy s \<Longrightarrow>
    connection (sy_mgr s) (ck_name k) safely = Inr c \<Longrightarrow> ck_pc k = Removing c \<Longrightarrow>
    mgr_step g s (s\<lparr>sy_calls := add_mset k (sy_calls s), sy_busy := True\<rparr>)"
| remove_finish: "sy_calls s = add_mset k ks \<Longrightarrow> ck_pc k = Removing c \<Longrightarrow> d = cn_daemon (cm_conn (sy_mgr s) c) \<Longrightarrow>
    (g \<Longrightarrow> dm_refCount (cm_daemon (sy_mgr s) d) \<le> 1 \<Longrightarrow> quiet ks (dm_supersededBy \<circ> cm_daemon (sy_mgr s)) d) \<Longrightarrow>
    mgr_step g s ((finishes k (removeFinish pe (ck_name k) c (sy_mgr s)) ks s)\<lparr>sy_owned := sy_owned s - {#c#}\<rparr>)"
| state_change: "mgr_step g s (s\<lparr>sy_mgr := set_daemon d ((cm_daemon (sy_mgr s) d)\<lparr>dm_state := st\<rparr>) (sy_mgr s)\<rparr>)"

text \<open>The names of the connections registered on daemon \<open>d\<close>.\<close>

definition connectionsOn :: "ConnectionManager \<Rightarrow> nat \<Rightarrow> string set" where
  "connectionsOn m d = {n. \<exists>c. map_of (cm_connections m) n = Some c \<and> cn_daemon (cm_conn m c) = d}"

definition mgr_start :: "ConnectionManager \<Rightarrow> mgr_sys" where
  "mgr_start m = \<lparr>sy_mgr = m, sy_calls = {#}, sy_busy = False, sy_owned = {#}\<rparr>"

end
