(* ===== verification/ManagerRefs.thy ===== *)
theory ManagerRefs
  imports ConnectionManager
begin

text \<open>
  The reference counts of the daemons that connections share, over every interleaving of the calls of the
  connection manager: a view of the manager, the effect of each critical section on it, the invariant, and
  the run that breaks it when a connection is removed while it is being restored.
\<close>

subsection \<open>The view of the reference counts\<close>

text \<open>
  The reference counts, the state of the initialisations, the two tables and the links between them are all the proofs below need of a manager:
  every critical section is described by its effect on this view.
\<close>

record ref_view =
  v_conns :: "(string \<times> nat) list"
  v_daemons :: "(string \<times> nat) list"
  v_name :: "nat \<Rightarrow> string"
  v_on :: "nat \<Rightarrow> nat"
  v_key :: "nat \<Rightarrow> string"
  v_ref :: "nat \<Rightarrow> int"
  v_sup :: "nat \<Rightarrow> nat option"
  v_gone :: "nat \<Rightarrow> bool"
  v_init :: "nat \<Rightarrow> init_phase"
  v_nextC :: nat
  v_nextD :: nat

definition view :: "ConnectionManager \<Rightarrow> ref_view" where
  "view m =
     \<lparr>v_conns = cm_connections m, v_daemons = cm_daemons m,
      v_name = cn_name \<circ> cm_conn m, v_on = cn_daemon \<circ> cm_conn m,
      v_key = dm_mapKey \<circ> cm_daemon m, v_ref = dm_refCount \<circ> cm_daemon m,
      v_sup = dm_supersededBy \<circ> cm_daemon m, v_gone = dm_destroyed \<circ> cm_daemon m,
      v_init = dm_init \<circ> cm_daemon m,
      v_nextC = cm_nextConn m, v_nextD = cm_nextDaemon m\<rparr>"

fun pc_conn :: "call_pc \<Rightarrow> nat option" where
  "pc_conn (Created _ c _) = Some c"
| "pc_conn (Initing _ c _) = Some c"
| "pc_conn (Installing _ c) = Some c"
| "pc_conn (Superseded _ c) = Some c"
| "pc_conn (Moving c _) = Some c"
| "pc_conn (Returned _ c _) = Some c"
| "pc_conn _ = None"

fun pc_holds :: "call_pc \<Rightarrow> nat option" where
  "pc_holds (HaveDaemon d) = Some d"
| "pc_holds (Moving _ d) = Some d"
| "pc_holds _ = None"

definition uses :: "ref_view \<Rightarrow> nat multiset \<Rightarrow> call multiset \<Rightarrow> nat \<Rightarrow> nat" where
  "uses v ow ks d =
     size (filter_mset (\<lambda>c. v_on v c = d) ow) + size (filter_mset (\<lambda>k. pc_holds (ck_pc k) = Some d) ks)"

definition tables_ok :: "ref_view \<Rightarrow> nat multiset \<Rightarrow> bool" where
  "tables_ok v ow \<longleftrightarrow>
     (\<forall>n c. map_of (v_conns v) n = Some c \<longrightarrow> v_name v c = n \<and> c \<in># ow) \<and>
     (\<forall>c. c \<in># ow \<longrightarrow> c < v_nextC v \<and> v_on v c < v_nextD v) \<and> (\<forall>c. count ow c \<le> 1) \<and>
     (\<forall>key d. map_of (v_daemons v) key = Some d \<longrightarrow>
        d < v_nextD v \<and> v_key v d = key \<and> v_sup v d = None \<and> \<not> v_gone v d) \<and>
     (\<forall>d e. v_sup v d = Some e \<longrightarrow> e < v_nextD v)"

definition pair_ok :: "ref_view \<Rightarrow> nat multiset \<Rightarrow> call \<Rightarrow> nat \<Rightarrow> nat \<Rightarrow> bool" where
  "pair_ok v ow k d c \<longleftrightarrow>
     d < v_nextD v \<and> c < v_nextC v \<and> v_name v c = ck_name k \<and> (ck_destroyIfFail k \<longrightarrow> c \<in># ow \<and> v_on v c = d)"

definition call_ok :: "ref_view \<Rightarrow> nat multiset \<Rightarrow> call \<Rightarrow> bool" where
  "call_ok v ow k =
     (case ck_pc k of
        Checked \<Rightarrow> True
      | WantDaemon _ \<Rightarrow> True
      | HaveDaemon d \<Rightarrow> d < v_nextD v
      | Created d c _ \<Rightarrow> pair_ok v ow k d c
      | Initing d c _ \<Rightarrow> pair_ok v ow k d c
      | Installing d c \<Rightarrow> pair_ok v ow k d c
      | Superseded d c \<Rightarrow> pair_ok v ow k d c
      | Moving c to \<Rightarrow> to < v_nextD v \<and> c < v_nextC v \<and> v_name v c = ck_name k \<and> (ck_destroyIfFail k \<longrightarrow> c \<in># ow)
      | Returned d c _ \<Rightarrow> pair_ok v ow k d c
      | Removing c \<Rightarrow> ck_destroyIfFail k \<and> c \<in># ow \<and> v_name v c = ck_name k)"

definition refs_ok :: "ref_view \<Rightarrow> nat multiset \<Rightarrow> call multiset \<Rightarrow> bool" where
  "refs_ok v ow ks \<longleftrightarrow>
     (\<forall>d. v_sup v d = None \<longrightarrow>
        int (uses v ow ks d) \<le> v_ref v d \<and> (v_gone v d \<longrightarrow> uses v ow ks d = 0 \<and> quiet ks (v_sup v) d))"

definition calls_ok :: "ref_view \<Rightarrow> nat multiset \<Rightarrow> call multiset \<Rightarrow> bool \<Rightarrow> bool" where
  "calls_ok v ow ks busy \<longleftrightarrow>
     (\<forall>k. k \<in># ks \<longrightarrow> call_ok v ow k) \<and>
     (\<forall>c. size (filter_mset (\<lambda>k. pc_conn (ck_pc k) = Some c) ks) \<le> 1) \<and>
     size (filter_mset ck_destroyIfFail ks) = (if busy then 1 else 0)"

fun pc_init :: "call_pc \<Rightarrow> nat option" where
  "pc_init (Initing d _ _) = Some d"
| "pc_init (Installing d _) = Some d"
| "pc_init _ = None"

definition init_ok :: "ref_view \<Rightarrow> call multiset \<Rightarrow> bool" where
  "init_ok v ks \<longleftrightarrow>
     (\<forall>k d. k \<in># ks \<longrightarrow> pc_init (ck_pc k) = Some d \<longrightarrow> v_init v d = InitRunning) \<and>
     (\<forall>d. size (filter_mset (\<lambda>k. pc_init (ck_pc k) = Some d) ks) \<le> 1) \<and>
     (\<forall>d. v_sup v d \<noteq> None \<longrightarrow> v_init v d = InitDone InitSuperseded)"

definition mgr_inv :: "mgr_sys \<Rightarrow> bool" where
  "mgr_inv s \<longleftrightarrow>
     tables_ok (view (sy_mgr s)) (sy_owned s) \<and>
     calls_ok (view (sy_mgr s)) (sy_owned s) (sy_calls s) (sy_busy s) \<and>
     refs_ok (view (sy_mgr s)) (sy_owned s) (sy_calls s) \<and> init_ok (view (sy_mgr s)) (sy_calls s)"

named_theorems view_simps

lemma view_publish [view_simps]: "view (publishConnectionsLocked m) = view m"
  by (simp add: view_def publishConnectionsLocked_def)

lemma view_set_daemon [view_simps]:
  "dm_mapKey x = dm_mapKey (cm_daemon m d) \<Longrightarrow> dm_refCount x = dm_refCount (cm_daemon m d) \<Longrightarrow>
   dm_supersededBy x = dm_supersededBy (cm_daemon m d) \<Longrightarrow> dm_destroyed x = dm_destroyed (cm_daemon m d) \<Longrightarrow>
   view (set_daemon d x m) = (view m)\<lparr>v_init := (v_init (view m))(d := dm_init x)\<rparr>"
  by (simp add: view_def fun_eq_iff)

lemma view_set_conn [view_simps]:
  "cn_name x = cn_name (cm_conn m c) \<Longrightarrow> cn_daemon x = cn_daemon (cm_conn m c) \<Longrightarrow> view (set_conn c x m) = view m"
  by (simp add: view_def fun_eq_iff)

lemma view_updateDaemonRemoteRoots [view_simps]: "view (updateDaemonRemoteRoots d m) = view m"
  by (simp add: updateDaemonRemoteRoots_def view_simps) (simp add: view_def fun_eq_iff)

lemma view_writeConnectionRootsFile [view_simps]: "view (writeConnectionRootsFile pe m) = view m"
  by (simp add: writeConnectionRootsFile_def Let_def view_def)

lemma SetRoots_keeps: "SetRoots conn l r = Inr conn' \<Longrightarrow> cn_name conn' = cn_name conn \<and> cn_daemon conn' = cn_daemon conn"
  by (auto simp: SetRoots_def Let_def split: if_splits)

lemma view_finishRoots: "finishRoots sha256 k d c m = Some m' \<Longrightarrow> view m' = view m"
  by (auto simp: finishRoots_def resolveRemoteRoot_def view_simps dest!: SetRoots_keeps split: sum.splits if_splits)

lemma view_addRef [view_simps]: "view (addRef n d m) = (view m)\<lparr>v_ref := (v_ref (view m))(d := v_ref (view m) d + n)\<rparr>"
  by (simp add: addRef_def view_def fun_eq_iff)

lemma view_findDaemon:
  "findDaemon key m = Some (d, m') \<Longrightarrow>
     map_of (v_daemons (view m)) key = Some d \<and>
     view m' = (view m)\<lparr>v_ref := (v_ref (view m))(d := v_ref (view m) d + 1)\<rparr>"
  by (auto simp: findDaemon_def view_simps) (simp add: view_def)

lemma view_insertDaemon:
  "insertDaemon key dest m = (d, m') \<Longrightarrow> findDaemon key m = None \<Longrightarrow>
     d = v_nextD (view m) \<and>
     view m' = (view m)\<lparr>v_daemons := AList.update key d (v_daemons (view m)), v_key := (v_key (view m))(d := key),
       v_ref := (v_ref (view m))(d := 1), v_sup := (v_sup (view m))(d := None),
       v_gone := (v_gone (view m))(d := False), v_init := (v_init (view m))(d := InitNone), v_nextD := d + 1\<rparr>"
  by (auto simp: insertDaemon_def Let_def view_def nilDaemon_def fun_eq_iff)

lemma view_createConnection:
  "createConnection pe name l r d b m = Inr (c, m') \<Longrightarrow>
     c = v_nextC (view m) \<and>
     view m' = (view m)\<lparr>v_conns := AList.update name c (v_conns (view m)), v_name := (v_name (view m))(c := name),
       v_on := (v_on (view m))(c := d), v_nextC := c + 1\<rparr>"
  by (auto simp: createConnection_def Let_def view_simps split: option.splits)
    (auto simp: view_def newConnection_def fun_eq_iff)

lemma view_followSupersede:
  "view (followSupersede d to m) =
     (view m)\<lparr>v_ref := (\<lambda>x. v_ref (view m) x - (if x = d then 1 else 0) + (if x = to then 1 else 0))\<rparr>"
  by (simp add: followSupersede_def view_simps) (simp add: view_def fun_eq_iff)

lemma view_afterTransport:
  "afterTransport d c newKey m = (p, m') \<Longrightarrow>
     (case map_of (v_daemons (view m)) newKey of
        None \<Rightarrow>
          p = Installing d c \<and>
          (if v_key (view m) d = newKey then view m' = view m
           else view m' = (view m)\<lparr>v_key := (v_key (view m))(d := newKey), v_daemons :=
                  AList.update newKey d (AList.delete (v_key (view m) d) (v_daemons (view m)))\<rparr>)
      | Some e \<Rightarrow>
          if v_key (view m) d = newKey then p = Installing d c \<and> view m' = view m
          else if e = d then p = Installing d c
          else p = Superseded d c \<and>
             view m' = (view m)\<lparr>v_sup := (v_sup (view m))(d := Some e), v_init := (v_init (view m))(d := InitDone InitSuperseded),
                 v_daemons := AList.delete (v_key (view m) d) (v_daemons (view m))\<rparr>)"
  by (auto simp: afterTransport_def reassignDaemon_def Let_def view_def fun_eq_iff
      split: if_splits option.splits prod.splits)

lemma view_updateDaemon:
  "view (set_conn c (updateDaemon (cm_conn m c) to) m) = (view m)\<lparr>v_on := (v_on (view m))(c := to)\<rparr>"
  by (auto simp: view_def updateDaemon_def fun_eq_iff)

lemma view_dropConnection: "view (dropConnection name m) = (view m)\<lparr>v_conns := AList.delete name (v_conns (view m))\<rparr>"
  by (simp add: dropConnection_def publishConnectionsLocked_def view_def)

lemma view_releaseDaemon:
  "view (releaseDaemon d m) =
     (let v = view m; r = v_ref v d - 1 in
      if r > 0 then v\<lparr>v_ref := (v_ref v)(d := r)\<rparr>
      else v\<lparr>v_ref := (v_ref v)(d := r), v_gone := (v_gone v)(d := True),
             v_daemons := AList.delete (v_key v d) (v_daemons v)\<rparr>)"
  by (auto simp: releaseDaemon_def Let_def view_def addRef_def fun_eq_iff)

lemma view_removeFinish:
  "view (removeFinish pe name c m) =
     view (releaseDaemon (v_on (view m) c) (dropConnection name m))"
proof -
  have "cn_name (fst (cn_Close x)) = cn_name x \<and> cn_daemon (fst (cn_Close x)) = cn_daemon x" for x
    by (simp add: cn_Close_def)
  then show ?thesis
    by (simp add: removeFinish_def Let_def view_releaseDaemon view_simps view_dropConnection)
      (simp add: view_def dropConnection_def publishConnectionsLocked_def)
qed

subsection \<open>The reference counts cover the connections\<close>

abbreviation inv3 :: "ref_view \<Rightarrow> nat multiset \<Rightarrow> call multiset \<Rightarrow> bool \<Rightarrow> bool" where
  "inv3 v ow ks busy \<equiv> tables_ok v ow \<and> calls_ok v ow ks busy \<and> refs_ok v ow ks"

lemma quiet_add [simp]:
  "quiet (add_mset k ks) f d \<longleftrightarrow>
     (\<forall>d0. pc_daemon (ck_pc k) = Some d0 \<longrightarrow> d0 \<noteq> d \<and> f d0 \<noteq> Some d) \<and> quiet ks f d"
  by (auto simp: quiet_def split: option.splits)

lemma uses_add_call [simp]:
  "uses v ow (add_mset k ks) d = uses v ow ks d + (if pc_holds (ck_pc k) = Some d then 1 else 0)"
  by (simp add: uses_def)

lemma call_ok_cong:
  "v_nextD v \<le> v_nextD v' \<Longrightarrow> v_nextC v \<le> v_nextC v' \<Longrightarrow>
   (\<And>c. pc_conn (ck_pc k) = Some c \<or> ck_pc k = Removing c \<Longrightarrow>
      v_name v' c = v_name v c \<and> (ck_destroyIfFail k \<longrightarrow> c \<in># ow \<longrightarrow> c \<in># ow' \<and> v_on v' c = v_on v c)) \<Longrightarrow>
   call_ok v ow k \<Longrightarrow> call_ok v' ow' k"
  by (auto simp: call_ok_def pair_ok_def split: call_pc.splits)

lemma at_most_one_add:
  "(\<forall>c. size (filter_mset (\<lambda>k. f k = Some c) (add_mset k ks)) \<le> 1) \<longleftrightarrow>
     (\<forall>c. f k = Some c \<longrightarrow> (\<forall>k' \<in># ks. f k' \<noteq> Some c)) \<and> (\<forall>c. size (filter_mset (\<lambda>k. f k = Some c) ks) \<le> 1)"
    (is "?A \<longleftrightarrow> ?B \<and> ?C")
proof
  assume A: ?A
  have ?B
  proof (intro allI impI)
    fix c assume "f k = Some c"
    then show "\<forall>k' \<in># ks. f k' \<noteq> Some c" using A [rule_format, of c] by simp
  qed
  moreover have "size (filter_mset (\<lambda>k. f k = Some c) ks) \<le> 1" for c
    by (rule le_trans [OF _ A [rule_format, of c]]) simp
  ultimately show "?B \<and> ?C" by blast
next
  assume "?B \<and> ?C"
  then show ?A by auto
qed

lemma calls_ok_add:
  "calls_ok v ow (add_mset k ks) busy \<longleftrightarrow>
     call_ok v ow k \<and> (\<forall>c. pc_conn (ck_pc k) = Some c \<longrightarrow> (\<forall>k' \<in># ks. pc_conn (ck_pc k') \<noteq> Some c)) \<and>
     (ck_destroyIfFail k \<longrightarrow> busy) \<and> calls_ok v ow ks (busy \<and> \<not> ck_destroyIfFail k)"
  using at_most_one_add [of "\<lambda>k. pc_conn (ck_pc k)" k ks] by (auto simp: calls_ok_def split: if_splits)

lemma refs_ok_less: "refs_ok v ow (add_mset k ks) \<Longrightarrow> refs_ok v ow ks"
  unfolding refs_ok_def
proof (intro allI impI)
  fix d assume refs: "\<forall>d. v_sup v d = None \<longrightarrow> int (uses v ow (add_mset k ks) d) \<le> v_ref v d \<and>
      (v_gone v d \<longrightarrow> uses v ow (add_mset k ks) d = 0 \<and> quiet (add_mset k ks) (v_sup v) d)" and d: "v_sup v d = None"
  show "int (uses v ow ks d) \<le> v_ref v d \<and> (v_gone v d \<longrightarrow> uses v ow ks d = 0 \<and> quiet ks (v_sup v) d)"
    using refs [rule_format, OF d] by (auto split: if_splits)
qed

lemma refs_okD:
  "refs_ok v ow ks \<Longrightarrow> v_sup v d = None \<Longrightarrow>
     int (uses v ow ks d) \<le> v_ref v d \<and> (v_gone v d \<longrightarrow> uses v ow ks d = 0 \<and> quiet ks (v_sup v) d)"
  by (simp add: refs_ok_def)

lemma calls_ok_cong:
  assumes "calls_ok v ow ks busy" "\<And>k. k \<in># ks \<Longrightarrow> call_ok v ow k \<Longrightarrow> call_ok v' ow' k"
  shows "calls_ok v' ow' ks busy"
  using assms by (simp add: calls_ok_def)

lemma calls_ok_same:
  assumes "calls_ok v ow ks busy" "v_nextD v \<le> v_nextD v'" "v_nextC v \<le> v_nextC v'" "ow \<subseteq># ow'"
    "\<And>c. c < v_nextC v \<Longrightarrow> v_name v' c = v_name v c \<and> v_on v' c = v_on v c" "\<And>c. c \<in># ow \<Longrightarrow> c < v_nextC v"
  shows "calls_ok v' ow' ks busy"
  using assms(1)
proof (rule calls_ok_cong)
  fix k assume "k \<in># ks" "call_ok v ow k"
  then show "call_ok v' ow' k"
    using assms(2-) by (auto simp: call_ok_def pair_ok_def dest: mset_subset_eqD split: call_pc.splits)
qed

lemma inv3_goes:
  assumes "inv3 v ow (add_mset k ks) busy" "call_ok v ow (at k p)"
    "pc_conn p = None \<or> pc_conn p = pc_conn (ck_pc k)" "pc_holds p = pc_holds (ck_pc k)"
    "pc_daemon p = None \<or> pc_daemon p = pc_daemon (ck_pc k)"
  shows "inv3 v ow (add_mset (at k p) ks) busy"
proof -
  have "refs_ok v ow (add_mset (at k p) ks)"
    using assms by (fastforce simp: refs_ok_def)
  then show ?thesis using assms(1-3) by (auto simp: calls_ok_add)
qed

lemma inv3_finishes: "inv3 v ow (add_mset k ks) busy \<Longrightarrow> inv3 v ow ks (busy \<and> \<not> ck_destroyIfFail k)"
  by (auto simp: calls_ok_add dest: refs_ok_less)

lemma inv3_begins:
  assumes "inv3 v ow ks busy" "pc_conn (ck_pc k) = None" "pc_holds (ck_pc k) = None" "pc_daemon (ck_pc k) = None"
    "call_ok v ow k" "\<not> (ck_destroyIfFail k \<and> busy)"
  shows "inv3 v ow (add_mset k ks) (busy \<or> ck_destroyIfFail k)"
proof -
  have "refs_ok v ow (add_mset k ks)" using assms by (auto simp: refs_ok_def)
  moreover have "(busy \<or> ck_destroyIfFail k) \<and> \<not> ck_destroyIfFail k \<longleftrightarrow> busy" using assms(6) by auto
  ultimately show ?thesis using assms by (simp add: calls_ok_add)
qed

lemma inv3_find:
  assumes inv: "inv3 v ow (add_mset k ks) busy"
    and found: "map_of (v_daemons v) key = Some d" and v': "v' = v\<lparr>v_ref := (v_ref v)(d := v_ref v d + 1)\<rparr>"
  shows "inv3 v' ow (add_mset (at k (HaveDaemon d)) ks) busy"
proof -
  have d: "d < v_nextD v" "v_sup v d = None" "\<not> v_gone v d"
    using inv found by (auto simp: tables_ok_def)
  have u: "uses v' ow ks e = uses v ow ks e" for e by (simp add: v' uses_def)
  have "tables_ok v' ow" using inv by (simp add: tables_ok_def v')
  moreover have "calls_ok v' ow ks (busy \<and> \<not> ck_destroyIfFail k)"
    by (rule calls_ok_same [of v ow]) (use inv in \<open>auto simp: calls_ok_add v' tables_ok_def\<close>)
  moreover have "call_ok v' ow (at k (HaveDaemon d))" using d by (simp add: call_ok_def v')
  moreover have "refs_ok v' ow (add_mset (at k (HaveDaemon d)) ks)"
    unfolding refs_ok_def
  proof (intro allI impI)
    fix e assume e: "v_sup v' e = None"
    then show "int (uses v' ow (add_mset (at k (HaveDaemon d)) ks) e) \<le> v_ref v' e \<and>
        (v_gone v' e \<longrightarrow> uses v' ow (add_mset (at k (HaveDaemon d)) ks) e = 0 \<and>
           quiet (add_mset (at k (HaveDaemon d)) ks) (v_sup v') e)"
      using d inv refs_okD [OF refs_ok_less, of v ow k ks e] by (auto simp: u) (auto simp: v')
  qed
  ultimately show ?thesis using inv by (simp add: calls_ok_add)
qed

lemma uses_fresh:
  assumes "inv3 v ow ks busy"
  shows "uses v ow ks (v_nextD v) = 0"
proof -
  have "pc_holds (ck_pc k) \<noteq> Some (v_nextD v)" if "k \<in># ks" for k
  proof -
    have "call_ok v ow k" using assms that by (simp add: calls_ok_def)
    then show ?thesis by (cases "ck_pc k") (auto simp: call_ok_def)
  qed
  moreover have "v_on v c \<noteq> v_nextD v" if "c \<in># ow" for c
    using assms that by (auto simp: tables_ok_def)
  ultimately show ?thesis by (simp add: uses_def)
qed

lemma inv3_insert:
  assumes inv: "inv3 v ow (add_mset k ks) busy" and new: "map_of (v_daemons v) key = None" and d: "d = v_nextD v"
    and v': "v' = v\<lparr>v_daemons := AList.update key d (v_daemons v), v_key := (v_key v)(d := key),
       v_ref := (v_ref v)(d := 1), v_sup := (v_sup v)(d := None), v_gone := (v_gone v)(d := False),
       v_init := i, v_nextD := d + 1\<rparr>"
  shows "inv3 v' ow (add_mset (at k (HaveDaemon d)) ks) busy"
proof -
  have u: "uses v' ow ks e = uses v ow ks e" for e by (simp add: v' uses_def)
  have u0: "uses v ow ks d = 0" using uses_fresh [OF inv] by (simp add: d)
  have "tables_ok v' ow" using inv by (auto simp: tables_ok_def v' d AList.update_conv' less_SucI split: if_splits)
  moreover have "calls_ok v' ow ks (busy \<and> \<not> ck_destroyIfFail k)"
    by (rule calls_ok_same [of v ow]) (use inv in \<open>auto simp: calls_ok_add v' tables_ok_def d\<close>)
  moreover have "call_ok v' ow (at k (HaveDaemon d))" by (simp add: call_ok_def v')
  moreover have "quiet ks (v_sup v') e" if "quiet ks (v_sup v) e" for e
    using that by (auto simp: quiet_def v' split: option.splits)
  moreover have "refs_ok v' ow (add_mset (at k (HaveDaemon d)) ks)"
    unfolding refs_ok_def
  proof (intro allI impI)
    fix e assume e: "v_sup v' e = None"
    show "int (uses v' ow (add_mset (at k (HaveDaemon d)) ks) e) \<le> v_ref v' e \<and>
        (v_gone v' e \<longrightarrow> uses v' ow (add_mset (at k (HaveDaemon d)) ks) e = 0 \<and>
           quiet (add_mset (at k (HaveDaemon d)) ks) (v_sup v') e)"
    proof (cases "e = d")
      case True
      then show ?thesis using u0 by (simp add: u) (simp add: v')
    next
      case False
      then have "v_sup v e = None" "v_gone v' e = v_gone v e" "v_ref v' e = v_ref v e" using e by (simp_all add: v')
      then show ?thesis
        using False inv refs_okD [OF refs_ok_less, of v ow k ks e] \<open>quiet ks (v_sup v) e \<Longrightarrow> quiet ks (v_sup v') e\<close>
        by (auto simp: u) (auto simp: v')
    qed
  qed
  ultimately show ?thesis using inv by (simp add: calls_ok_add)
qed

lemma inv3_create:
  assumes inv: "inv3 v ow (add_mset k ks) busy" and pc: "ck_pc k = HaveDaemon d" and c: "c = v_nextC v"
    and v': "v' = v\<lparr>v_conns := AList.update (ck_name k) c (v_conns v), v_name := (v_name v)(c := ck_name k),
       v_on := (v_on v)(c := d), v_nextC := c + 1\<rparr>"
  shows "inv3 v' (add_mset c ow) (add_mset (at k (Created d c False)) ks) busy"
proof -
  have fresh: "c \<notin># ow" using inv by (auto simp: tables_ok_def c)
  have d: "d < v_nextD v" using inv pc by (simp add: calls_ok_add call_ok_def)
  have "filter_mset (\<lambda>x. v_on v' x = e) ow = filter_mset (\<lambda>x. v_on v x = e) ow" for e
    by (rule filter_mset_cong) (use fresh in \<open>auto simp: v'\<close>)
  then have u: "uses v' (add_mset c ow) ks e = uses v ow (add_mset k ks) e" for e
    using pc by (simp add: uses_def) (simp add: v')
  have "tables_ok v' (add_mset c ow)"
    using inv d fresh by (fastforce simp: tables_ok_def v' AList.update_conv' count_eq_zero_iff c split: if_splits)
  moreover have "calls_ok v' (add_mset c ow) ks (busy \<and> \<not> ck_destroyIfFail k)"
    by (rule calls_ok_same [of v ow]) (use inv in \<open>auto simp: calls_ok_add v' tables_ok_def c\<close>)
  moreover have "call_ok v' (add_mset c ow) (at k (Created d c False))"
    using d by (simp add: call_ok_def pair_ok_def v')
  moreover have "pc_conn (ck_pc k') \<noteq> Some c" if "k' \<in># ks" for k'
  proof -
    have "call_ok v ow k'" using inv that by (simp add: calls_ok_def)
    then show ?thesis by (cases "ck_pc k'") (auto simp: call_ok_def pair_ok_def c)
  qed
  moreover have "refs_ok v' (add_mset c ow) (add_mset (at k (Created d c False)) ks)"
    unfolding refs_ok_def
  proof (intro allI impI)
    fix e assume "v_sup v' e = None"
    then show "int (uses v' (add_mset c ow) (add_mset (at k (Created d c False)) ks) e) \<le> v_ref v' e \<and>
        (v_gone v' e \<longrightarrow> uses v' (add_mset c ow) (add_mset (at k (Created d c False)) ks) e = 0 \<and>
           quiet (add_mset (at k (Created d c False)) ks) (v_sup v') e)"
      using inv pc refs_okD [of v ow "add_mset k ks" e] by (simp add: u) (auto simp: v')
  qed
  ultimately show ?thesis using inv by (simp add: calls_ok_add)
qed

lemma inv3_rekey:
  assumes inv: "inv3 v ow (add_mset k ks) busy" and pc: "ck_pc k = Initing d c False" and live: "v_sup v d = None"
    and new: "map_of (v_daemons v) newKey = None"
    and v': "v' = v\<lparr>v_key := (v_key v)(d := newKey),
                     v_daemons := AList.update newKey d (AList.delete (v_key v d) (v_daemons v))\<rparr>"
  shows "inv3 v' ow (add_mset (at k (Installing d c)) ks) busy"
proof -
  have "inv3 v ow (add_mset (at k (Installing d c)) ks) busy"
    by (rule inv3_goes [OF inv]) (use inv pc in \<open>auto simp: calls_ok_add call_ok_def pair_ok_def\<close>)
  moreover have "d < v_nextD v" using inv pc by (simp add: calls_ok_add call_ok_def pair_ok_def)
  moreover have "\<not> v_gone v d" using inv pc live refs_okD [of v ow "add_mset k ks" d] by auto
  ultimately have "tables_ok v' ow"
    using live by (auto simp: tables_ok_def v' AList.update_conv' delete_conv' split: if_splits)
  moreover have "calls_ok v' ow (add_mset (at k (Installing d c)) ks) busy"
    by (rule calls_ok_same [of v ow])
      (use \<open>inv3 v ow (add_mset (at k (Installing d c)) ks) busy\<close> in \<open>auto simp: v' tables_ok_def\<close>)
  moreover have "refs_ok v' ow (add_mset (at k (Installing d c)) ks)"
    using \<open>inv3 v ow (add_mset (at k (Installing d c)) ks) busy\<close> by (simp add: refs_ok_def uses_def v')
  ultimately show ?thesis by simp
qed

lemma inv3_supersede:
  assumes inv: "inv3 v ow (add_mset k ks) busy" and pc: "ck_pc k = Initing d c False"
    and old: "map_of (v_daemons v) newKey = Some e" and ne: "e \<noteq> d"
    and v': "v' = v\<lparr>v_sup := (v_sup v)(d := Some e), v_init := i, v_daemons := AList.delete (v_key v d) (v_daemons v)\<rparr>"
  shows "inv3 v' ow (add_mset (at k (Superseded d c)) ks) busy"
proof -
  have step: "inv3 v ow (add_mset (at k (Superseded d c)) ks) busy"
    by (rule inv3_goes [OF inv]) (use inv pc in \<open>auto simp: calls_ok_add call_ok_def pair_ok_def\<close>)
  have e: "e < v_nextD v" "\<not> v_gone v e" using inv old by (auto simp: tables_ok_def)
  have "tables_ok v' ow"
    using inv e by (auto simp: tables_ok_def v' delete_conv' split: if_splits)
  moreover have "calls_ok v' ow (add_mset (at k (Superseded d c)) ks) busy"
    by (rule calls_ok_same [of v ow]) (use step in \<open>auto simp: v' tables_ok_def\<close>)
  moreover have "refs_ok v' ow (add_mset (at k (Superseded d c)) ks)"
    unfolding refs_ok_def
  proof (intro allI impI)
    fix x assume x: "v_sup v' x = None"
    let ?ks = "add_mset (at k (Superseded d c)) ks"
    have "v_sup v x = None" using x by (auto simp: v' split: if_splits)
    then have "int (uses v ow ?ks x) \<le> v_ref v x" "v_gone v x \<longrightarrow> uses v ow ?ks x = 0 \<and> quiet ?ks (v_sup v) x"
      using step refs_okD by blast+
    moreover have "quiet ?ks (v_sup v') x" if "quiet ?ks (v_sup v) x" "v_gone v x"
      using that e unfolding quiet_def v' by (fastforce split: option.splits)
    ultimately show "int (uses v' ow ?ks x) \<le> v_ref v' x \<and> (v_gone v' x \<longrightarrow> uses v' ow ?ks x = 0 \<and> quiet ?ks (v_sup v') x)"
      by (simp add: uses_def v')
  qed
  ultimately show ?thesis by simp
qed

lemma inv3_follow:
  assumes inv: "inv3 v ow (add_mset k ks) busy" and pc: "ck_pc k = Superseded d c" and sup: "v_sup v d = Some to"
    and v': "v' = v\<lparr>v_ref := (\<lambda>x. v_ref v x - (if x = d then 1 else 0) + (if x = to then 1 else 0))\<rparr>"
  shows "inv3 v' ow (add_mset (at k (Moving c to)) ks) busy"
proof -
  have "to < v_nextD v" using inv sup by (auto simp: tables_ok_def)
  then have "call_ok v' ow (at k (Moving c to))"
    using inv pc by (simp add: calls_ok_add call_ok_def pair_ok_def v')
  moreover have "tables_ok v' ow" using inv by (simp add: tables_ok_def v')
  moreover have "calls_ok v' ow ks (busy \<and> \<not> ck_destroyIfFail k)"
    by (rule calls_ok_same [of v ow]) (use inv in \<open>auto simp: calls_ok_add v' tables_ok_def\<close>)
  moreover have "refs_ok v' ow (add_mset (at k (Moving c to)) ks)"
    unfolding refs_ok_def
  proof (intro allI impI)
    fix x assume x: "v_sup v' x = None"
    then have xd: "x \<noteq> d" "v_sup v x = None" using sup by (auto simp: v')
    have "uses v' ow ks x = uses v ow ks x" by (simp add: uses_def v')
    then show "int (uses v' ow (add_mset (at k (Moving c to)) ks) x) \<le> v_ref v' x \<and>
        (v_gone v' x \<longrightarrow> uses v' ow (add_mset (at k (Moving c to)) ks) x = 0 \<and>
           quiet (add_mset (at k (Moving c to)) ks) (v_sup v') x)"
      using inv pc sup xd refs_okD [of v ow "add_mset k ks" x] by (simp; auto simp: v')
  qed
  ultimately show ?thesis using inv pc by (simp add: calls_ok_add)
qed

lemma moved_connection_count:
  assumes "count ow c \<le> 1" "\<And>x. x \<noteq> c \<Longrightarrow> g x = f x"
  shows "size (filter_mset (\<lambda>x. g x = e) ow) \<le> size (filter_mset (\<lambda>x. f x = e) ow) + (if g c = e then 1 else 0)"
proof -
  have "count (filter_mset (\<lambda>x. g x = e) ow) x \<le> count (filter_mset (\<lambda>x. f x = e) ow + (if g c = e then {#c#} else {#})) x"
    for x using assms by (cases "x = c") auto
  then have "filter_mset (\<lambda>x. g x = e) ow \<subseteq># filter_mset (\<lambda>x. f x = e) ow + (if g c = e then {#c#} else {#})"
    by (rule mset_subset_eqI)
  from size_mset_mono [OF this] show ?thesis by (cases "g c = e") simp_all
qed

lemma inv3_move:
  assumes inv: "inv3 v ow (add_mset k ks) busy" and pc: "ck_pc k = Moving c to"
    and v': "v' = v\<lparr>v_on := (v_on v)(c := to)\<rparr>"
  shows "inv3 v' ow (add_mset (at k (Created to c True)) ks) busy"
proof -
  have "to < v_nextD v" using inv pc by (auto simp: calls_ok_add call_ok_def)
  then have "call_ok v' ow (at k (Created to c True))"
    using inv pc by (simp add: calls_ok_add call_ok_def pair_ok_def v')
  moreover have "tables_ok v' ow" using inv \<open>to < v_nextD v\<close> by (auto simp: tables_ok_def v')
  moreover have "calls_ok v' ow ks (busy \<and> \<not> ck_destroyIfFail k)"
  proof (rule calls_ok_cong [of v ow])
    show "calls_ok v ow ks (busy \<and> \<not> ck_destroyIfFail k)" using inv by (simp add: calls_ok_add)
    fix k' assume "k' \<in># ks" "call_ok v ow k'"
    moreover have "pc_conn (ck_pc k') \<noteq> Some c" using inv pc \<open>k' \<in># ks\<close> by (simp add: calls_ok_add)
    ultimately show "call_ok v' ow k'" by (auto simp: call_ok_def pair_ok_def v' split: call_pc.splits)
  qed
  moreover have "refs_ok v' ow (add_mset (at k (Created to c True)) ks)"
    unfolding refs_ok_def
  proof (intro allI impI)
    fix x assume x: "v_sup v' x = None"
    have "count ow c \<le> 1" using inv by (auto simp: tables_ok_def)
    moreover have "v_on v' y = v_on v y" if "y \<noteq> c" for y using that by (simp add: v')
    moreover have "v_on v' c = to" by (simp add: v')
    ultimately have "uses v' ow (add_mset (at k (Created to c True)) ks) x \<le> uses v ow (add_mset k ks) x"
      using pc moved_connection_count [of ow c "v_on v'" "v_on v" x] by (cases "to = x") (simp_all add: uses_def)
    then show "int (uses v' ow (add_mset (at k (Created to c True)) ks) x) \<le> v_ref v' x \<and>
        (v_gone v' x \<longrightarrow> uses v' ow (add_mset (at k (Created to c True)) ks) x = 0 \<and>
           quiet (add_mset (at k (Created to c True)) ks) (v_sup v') x)"
      using inv x refs_okD [of v ow "add_mset k ks" x] by (auto simp: v')
  qed
  ultimately show ?thesis using inv pc by (simp add: calls_ok_add)
qed

lemma inv3_release:
  assumes inv: "inv3 v ow (add_mset k ks) busy" and pc: "ck_destroyIfFail k" "pc_holds (ck_pc k) = None"
    and c: "c \<in># ow" "v_on v c = d" "v_name v c = name"
    and quiet: "v_ref v d \<le> 1 \<Longrightarrow> quiet ks (v_sup v) d"
    and v': "v' = (let v1 = v\<lparr>v_conns := AList.delete name (v_conns v)\<rparr>; r = v_ref v1 d - 1 in
      if r > 0 then v1\<lparr>v_ref := (v_ref v1)(d := r)\<rparr>
      else v1\<lparr>v_ref := (v_ref v1)(d := r), v_gone := (v_gone v1)(d := True),
             v_daemons := AList.delete (v_key v1 d) (v_daemons v1)\<rparr>)"
  shows "inv3 v' (ow - {#c#}) ks False"
proof -
  obtain ow' where ow: "ow = add_mset c ow'" using c(1) by (meson multi_member_split)
  have "count ow c \<le> 1" using inv by (simp add: tables_ok_def)
  then have c': "c \<notin># ow'" by (simp add: ow not_in_iff)
  have conns: "v_conns v' = AList.delete name (v_conns v)" and same: "v_name v' = v_name v" "v_on v' = v_on v"
      "v_nextC v' = v_nextC v" "v_nextD v' = v_nextD v" "v_key v' = v_key v" "v_sup v' = v_sup v"
    and ref: "v_ref v' = (v_ref v)(d := v_ref v d - 1)"
    and gone: "v_gone v' = (if v_ref v d > 1 then v_gone v else (v_gone v)(d := True))"
    and daemons: "v_daemons v' = (if v_ref v d > 1 then v_daemons v else AList.delete (v_key v d) (v_daemons v))"
    by (simp_all add: v' Let_def)
  have "tables_ok v' ow'"
    unfolding tables_ok_def
  proof (intro conjI allI impI)
    fix n x assume "map_of (v_conns v') n = Some x"
    then have "map_of (v_conns v) n = Some x" "n \<noteq> name" by (auto simp: conns delete_conv' split: if_splits)
    then show "v_name v' x = n" "x \<in># ow'" using inv c(3) by (auto simp: tables_ok_def same ow)
  next
    fix x
    have "count ow' x \<le> count ow x" by (simp add: ow)
    also have "\<dots> \<le> 1" using inv by (simp add: tables_ok_def)
    finally show "count ow' x \<le> 1" .
  next
    fix key x assume "map_of (v_daemons v') key = Some x"
    then have "map_of (v_daemons v) key = Some x" "v_ref v d > 1 \<or> key \<noteq> v_key v d"
      by (auto simp: daemons delete_conv' split: if_splits)
    then show "x < v_nextD v'" "v_key v' x = key" "v_sup v' x = None" "\<not> v_gone v' x"
      using inv by (auto simp: tables_ok_def same gone)
  qed (use inv c' in \<open>auto simp: tables_ok_def same ow split: if_splits\<close>)
  moreover have "calls_ok v' ow' ks False"
  proof (rule calls_ok_cong [of v ow])
    show "calls_ok v ow ks False" using inv pc by (simp add: calls_ok_add)
    fix k' assume "k' \<in># ks" "call_ok v ow k'"
    moreover have "\<not> ck_destroyIfFail k'"
      using \<open>calls_ok v ow ks False\<close> \<open>k' \<in># ks\<close> by (simp add: calls_ok_def)
    ultimately show "call_ok v' ow' k'"
      by (auto simp: call_ok_def pair_ok_def same split: call_pc.splits)
  qed
  moreover have "refs_ok v' ow' ks"
    unfolding refs_ok_def
  proof (intro allI impI)
    fix x assume "v_sup v' x = None"
    then have refs: "int (uses v ow ks x) \<le> v_ref v x" "v_gone v x \<Longrightarrow> uses v ow ks x = 0 \<and> quiet ks (v_sup v) x"
      using inv refs_okD [OF refs_ok_less, of v ow k ks x] by (simp_all add: same)
    have "uses v ow ks x = uses v' ow' ks x + (if x = d then 1 else 0)"
      using c(2) by (simp add: uses_def ow same)
    then show "int (uses v' ow' ks x) \<le> v_ref v' x \<and> (v_gone v' x \<longrightarrow> uses v' ow' ks x = 0 \<and> quiet ks (v_sup v') x)"
      using refs quiet by (cases "x = d"; cases "v_ref v d > 1") (auto simp: ref gone same)
  qed
  ultimately show ?thesis by (simp add: ow)
qed

lemma init_ok_add:
  "init_ok v (add_mset k ks) \<longleftrightarrow>
     (\<forall>d. pc_init (ck_pc k) = Some d \<longrightarrow> v_init v d = InitRunning \<and> (\<forall>k' \<in># ks. pc_init (ck_pc k') \<noteq> Some d)) \<and>
     init_ok v ks"
  unfolding init_ok_def at_most_one_add [of "\<lambda>k. pc_init (ck_pc k)"]
  by (simp only: set_mset_add_mset_insert insert_iff; blast)

lemma init_ok_done:
  assumes "init_ok v (add_mset k ks)" "pc_init (ck_pc k) = Some d"
    "v_init v' = (v_init v)(d := InitDone r)" "v_sup v' = v_sup v \<or> r = InitSuperseded \<and> v_sup v' = (v_sup v)(d := e)"
  shows "init_ok v' ks"
proof -
  have ok: "init_ok v ks" "v_init v d = InitRunning" "\<forall>k' \<in># ks. pc_init (ck_pc k') \<noteq> Some d"
    using assms(1,2) by (auto simp: init_ok_add)
  then have "v_sup v d = None" by (auto simp: init_ok_def)
  then show ?thesis using ok assms(3,4) by (auto simp: init_ok_def)
qed

lemma inv3_init [simp]: "inv3 (v\<lparr>v_init := i\<rparr>) ow ks busy \<longleftrightarrow> inv3 v ow ks busy"
proof -
  have "call_ok (v\<lparr>v_init := i\<rparr>) ow = call_ok v ow"
    by (simp add: call_ok_def pair_ok_def fun_eq_iff split: call_pc.splits)
  moreover have "uses (v\<lparr>v_init := i\<rparr>) ow ks = uses v ow ks" by (simp add: uses_def fun_eq_iff)
  ultimately show ?thesis by (simp add: tables_ok_def calls_ok_def refs_ok_def)
qed

abbreviation inv4 :: "ref_view \<Rightarrow> nat multiset \<Rightarrow> call multiset \<Rightarrow> bool \<Rightarrow> bool" where
  "inv4 v ow ks busy \<equiv> inv3 v ow ks busy \<and> init_ok v ks"

lemma call_ok_moves:
  "ck_pc k \<in> {Created d c b, Initing d c b, Installing d c, Superseded d c} \<Longrightarrow> call_ok v ow k \<Longrightarrow>
   p \<in> {Initing d c b, Installing d c, Superseded d c, Returned d c b'} \<Longrightarrow> call_ok v ow (at k p)"
  by (auto simp: call_ok_def pair_ok_def)

lemma inv4_goes:
  assumes "inv4 v ow (add_mset k ks) busy" "call_ok v ow (at k p)"
    "pc_conn p = None \<or> pc_conn p = pc_conn (ck_pc k)" "pc_holds p = pc_holds (ck_pc k)"
    "pc_daemon p = None \<or> pc_daemon p = pc_daemon (ck_pc k)" "pc_init p = None \<or> pc_init p = pc_init (ck_pc k)"
  shows "inv4 v ow (add_mset (at k p) ks) busy"
  using assms inv3_goes [OF _ assms(2-5), of ks busy] by (auto simp: init_ok_add)

lemma inv4_done:
  assumes inv: "inv4 v ow (add_mset k ks) busy" and pc: "ck_pc k = Initing d c b \<or> ck_pc k = Installing d c"
  shows "inv4 (v\<lparr>v_init := (v_init v)(d := InitDone r)\<rparr>) ow (add_mset (at k (Returned d c ok)) ks) busy"
proof -
  have "call_ok v ow k" using inv by (simp add: calls_ok_add)
  then have "call_ok v ow (at k (Returned d c ok))" using pc by (auto intro: call_ok_moves [of k d c b])
  then have "inv4 v ow (add_mset (at k (Returned d c ok)) ks) busy"
    by (intro inv4_goes [OF inv]) (use pc in auto)
  moreover have "init_ok (v\<lparr>v_init := (v_init v)(d := InitDone r)\<rparr>) ks"
    by (rule init_ok_done [of v k ks d]) (use inv pc in auto)
  ultimately show ?thesis by (simp add: init_ok_add)
qed

lemma inv4_start:
  assumes inv: "inv4 v ow (add_mset k ks) busy" and pc: "ck_pc k = Created d c b" and i: "v_init v d = InitNone"
  shows "inv4 (v\<lparr>v_init := (v_init v)(d := InitRunning)\<rparr>) ow (add_mset (at k (Initing d c b)) ks) busy"
proof -
  have "call_ok v ow k" using inv by (simp add: calls_ok_add)
  then have "inv3 v ow (add_mset (at k (Initing d c b)) ks) busy"
    using inv pc call_ok_moves [of k d c b v ow] by (intro inv3_goes) auto
  moreover have "pc_init (ck_pc k') \<noteq> Some d" if "k' \<in># ks" for k'
    using inv i that by (auto simp: init_ok_def)
  moreover have "v_sup v d = None" using inv i by (cases "v_sup v d") (auto simp: init_ok_def)
  moreover have "init_ok v ks" using inv by (simp add: init_ok_add)
  ultimately have "init_ok (v\<lparr>v_init := (v_init v)(d := InitRunning)\<rparr>) ks" by (auto simp: init_ok_def)
  then show ?thesis
    using \<open>inv3 v ow (add_mset (at k (Initing d c b)) ks) busy\<close> \<open>\<And>k'. k' \<in># ks \<Longrightarrow> pc_init (ck_pc k') \<noteq> Some d\<close>
    by (simp add: init_ok_add)
qed

lemma inv4_reassign:
  assumes inv: "inv4 (view m) ow (add_mset k ks) busy" and pc: "ck_pc k = Initing d c False"
    and r: "afterTransport d c newKey m = (p, m')"
  shows "inv4 (view m') ow (add_mset (at k p) ks) busy"
proof -
  let ?v = "view m"
  have k: "call_ok ?v ow k" using inv by (simp add: calls_ok_add)
  have live: "v_sup ?v d = None" using inv pc by (auto simp: init_ok_add) (fastforce simp: init_ok_def)
  have same: "inv4 ?v ow (add_mset (at k (Installing d c)) ks) busy"
    using k pc by (intro inv4_goes [OF inv]) (auto intro: call_ok_moves)
  show ?thesis
  proof (cases "map_of (v_daemons ?v) newKey")
    case None
    then have p: "p = Installing d c" using view_afterTransport [OF r] by simp
    show ?thesis
    proof (cases "v_key ?v d = newKey")
      case True
      then show ?thesis using view_afterTransport [OF r] None same p by simp
    next
      case False
      then have v': "view m' = ?v\<lparr>v_key := (v_key ?v)(d := newKey),
          v_daemons := AList.update newKey d (AList.delete (v_key ?v d) (v_daemons ?v))\<rparr>"
        using view_afterTransport [OF r] None by simp
      then have "init_ok (view m') (add_mset (at k p) ks)" using same p by (simp add: init_ok_def)
      moreover have "inv3 (view m') ow (add_mset (at k p) ks) busy"
        unfolding p by (rule inv3_rekey [OF _ pc live None v']) (use inv in simp)
      ultimately show ?thesis by simp
    qed
  next
    case (Some e)
    show ?thesis
    proof (cases "v_key ?v d = newKey")
      case True
      then show ?thesis using view_afterTransport [OF r] Some same by simp
    next
      case False
      then have "e \<noteq> d" using inv Some by (auto simp: tables_ok_def)
      then have p: "p = Superseded d c" and v': "view m' = ?v\<lparr>v_sup := (v_sup ?v)(d := Some e),
          v_init := (v_init ?v)(d := InitDone InitSuperseded), v_daemons := AList.delete (v_key ?v d) (v_daemons ?v)\<rparr>"
        using view_afterTransport [OF r] Some False by simp_all
      have "init_ok (view m') ks"
        by (rule init_ok_done [of ?v k ks d _ InitSuperseded "Some e"]) (use inv pc v' in auto)
      moreover have "inv3 (view m') ow (add_mset (at k p) ks) busy"
        unfolding p by (rule inv3_supersede [OF _ pc Some \<open>e \<noteq> d\<close> v']) (use inv in simp)
      ultimately show ?thesis by (simp add: init_ok_add p)
    qed
  qed
qed

lemma mgr_inv_iff: "mgr_inv s \<longleftrightarrow> inv4 (view (sy_mgr s)) (sy_owned s) (sy_calls s) (sy_busy s)"
  by (auto simp: mgr_inv_def)

lemma init_ok_same: "init_ok v ks \<Longrightarrow> v_init v' = v_init v \<Longrightarrow> v_sup v' = v_sup v \<Longrightarrow> init_ok v' ks"
  by (simp add: init_ok_def)

lemma init_ok_less: "init_ok v (add_mset k ks) \<Longrightarrow> init_ok v ks"
  by (simp add: init_ok_add)

lemma inv4_finishes: "inv4 v ow (add_mset k ks) busy \<Longrightarrow> inv4 v ow ks (busy \<and> \<not> ck_destroyIfFail k)"
  using inv3_finishes [of v ow k ks busy] by (auto dest: init_ok_less)

lemma inv4_insertDaemon:
  assumes inv: "inv4 (view m) ow (add_mset k ks) busy" and pc: "ck_pc k = WantDaemon key"
    and r: "insertDaemon key dest m = (d, m')"
  shows "inv4 (view m') ow (add_mset (at k (HaveDaemon d)) ks) busy"
proof (cases "findDaemon key m")
  case None
  let ?v = "view m"
  have new: "map_of (v_daemons ?v) key = None" using None by (simp add: findDaemon_def view_def)
  have d: "d = v_nextD ?v" using view_insertDaemon [OF r None] by simp
  have v': "view m' = ?v\<lparr>v_daemons := AList.update key d (v_daemons ?v), v_key := (v_key ?v)(d := key),
      v_ref := (v_ref ?v)(d := 1), v_sup := (v_sup ?v)(d := None), v_gone := (v_gone ?v)(d := False),
      v_init := (v_init ?v)(d := InitNone), v_nextD := d + 1\<rparr>"
    using view_insertDaemon [OF r None] by simp
  have "pc_init (ck_pc k') \<noteq> Some d" if "k' \<in># ks" for k'
  proof -
    have "call_ok ?v ow k'" using inv that by (simp add: calls_ok_def)
    then show ?thesis by (cases "ck_pc k'") (auto simp: call_ok_def pair_ok_def d)
  qed
  moreover have "init_ok ?v ks" using inv by (simp add: init_ok_add)
  ultimately have "init_ok (view m') ks" by (auto simp: init_ok_def v')
  moreover have "inv3 (view m') ow (add_mset (at k (HaveDaemon d)) ks) busy"
    by (rule inv3_insert [OF _ new d v']) (use inv in simp)
  ultimately show ?thesis by (simp add: init_ok_add)
next
  case (Some r')
  then have "findDaemon key m = Some (d, m')" using r by (simp add: insertDaemon_def)
  from view_findDaemon [OF this] have "map_of (v_daemons (view m)) key = Some d"
    and v': "view m' = (view m)\<lparr>v_ref := (v_ref (view m))(d := v_ref (view m) d + 1)\<rparr>" by auto
  then have "inv3 (view m') ow (add_mset (at k (HaveDaemon d)) ks) busy" using inv inv3_find by blast
  moreover have "init_ok (view m') ks" using inv v' by (auto simp: init_ok_add intro: init_ok_same)
  ultimately show ?thesis by (simp add: init_ok_add)
qed

lemma inv4_releaseDaemon:
  assumes inv: "inv4 (view m) ow (add_mset k ks) busy" and pc: "ck_destroyIfFail k" "pc_holds (ck_pc k) = None"
    and c: "c \<in># ow" "v_on (view m) c = d" "v_name (view m) c = ck_name k"
    and quiet: "dm_refCount (cm_daemon m d) \<le> 1 \<Longrightarrow> quiet ks (dm_supersededBy \<circ> cm_daemon m) d"
  shows "inv4 (view (releaseDaemon d (dropConnection (ck_name k) m))) (ow - {#c#}) ks False"
proof -
  have v: "view (releaseDaemon d (dropConnection (ck_name k) m)) =
      (let v1 = (view m)\<lparr>v_conns := AList.delete (ck_name k) (v_conns (view m))\<rparr>; r = v_ref v1 d - 1 in
       if r > 0 then v1\<lparr>v_ref := (v_ref v1)(d := r)\<rparr>
       else v1\<lparr>v_ref := (v_ref v1)(d := r), v_gone := (v_gone v1)(d := True),
              v_daemons := AList.delete (v_key v1 d) (v_daemons v1)\<rparr>)" (is "?v' = _")
    by (simp add: view_releaseDaemon view_dropConnection Let_def)
  have "inv3 ?v' (ow - {#c#}) ks False"
    by (rule inv3_release [OF _ pc c _ v]) (use inv quiet in \<open>auto simp: view_def\<close>)
  moreover have "init_ok ?v' ks"
    by (rule init_ok_same [of "view m"]) (use inv in \<open>auto simp: init_ok_add v Let_def\<close>)
  ultimately show ?thesis by simp
qed

lemma call_ok_answer:
  assumes "initAnswer d c b m = Some p" "ck_pc k = Created d c b" "call_ok v ow k"
  shows "call_ok v ow (at k p) \<and> pc_conn p = Some c \<and> pc_holds p = None \<and> pc_init p = None \<and>
    (pc_daemon p = None \<or> pc_daemon p = pc_daemon (Created d c b))"
  using assms
  by (auto simp: initAnswer_def call_ok_def pair_ok_def split: init_phase.splits if_splits ConnectionState.splits)

lemma mgr_inv_step:
  assumes step: "mgr_step True s s'" and inv: "mgr_inv s"
  shows "mgr_inv s'"
  using step
proof cases
  case (begin_call k name)
  have "inv3 (view (sy_mgr s)) (sy_owned s) (add_mset k (sy_calls s)) (sy_busy s \<or> ck_destroyIfFail k)"
    by (rule inv3_begins) (use inv begin_call in \<open>auto simp: mgr_inv_iff call_ok_def\<close>)
  then show ?thesis using inv begin_call by (simp add: mgr_inv_iff init_ok_add)
next
  case (find k ks key d m)
  have v: "map_of (v_daemons (view (sy_mgr s))) key = Some d"
      "view m = (view (sy_mgr s))\<lparr>v_ref := (v_ref (view (sy_mgr s)))(d := v_ref (view (sy_mgr s)) d + 1)\<rparr>"
    using view_findDaemon [OF find(5)] by auto
  have "inv3 (view m) (sy_owned s) (add_mset (at k (HaveDaemon d)) ks) (sy_busy s)"
    by (rule inv3_find [OF _ v]) (use inv find in \<open>simp add: mgr_inv_iff\<close>)
  moreover have "init_ok (view m) ks"
    by (rule init_ok_same [of "view (sy_mgr s)"]) (use inv find v in \<open>auto simp: mgr_inv_iff init_ok_add\<close>)
  ultimately show ?thesis using find by (simp add: mgr_inv_iff init_ok_add)
next
  case (miss k ks key)
  have "inv4 (view (sy_mgr s)) (sy_owned s) (add_mset (at k (WantDaemon key)) ks) (sy_busy s)"
    by (rule inv4_goes) (use inv miss in \<open>auto simp: mgr_inv_iff call_ok_def\<close>)
  then show ?thesis using miss by (simp add: mgr_inv_iff)
next
  case (connector_failed k ks key)
  then show ?thesis using inv inv4_finishes [of "view (sy_mgr s)" "sy_owned s" k ks "sy_busy s"] by (simp add: mgr_inv_iff)
next
  case (insert_daemon k ks key dest d m)
  then show ?thesis using inv inv4_insertDaemon [of "sy_mgr s" "sy_owned s" k ks "sy_busy s" key dest d m]
    by (simp add: mgr_inv_iff)
next
  case (create k ks d pe c m)
  have v: "c = v_nextC (view (sy_mgr s))"
      "view m = (view (sy_mgr s))\<lparr>v_conns := AList.update (ck_name k) c (v_conns (view (sy_mgr s))),
        v_name := (v_name (view (sy_mgr s)))(c := ck_name k), v_on := (v_on (view (sy_mgr s)))(c := d), v_nextC := c + 1\<rparr>"
    using view_createConnection [OF create(4)] by auto
  have "inv3 (view m) (add_mset c (sy_owned s)) (add_mset (at k (Created d c False)) ks) (sy_busy s)"
    by (rule inv3_create [OF _ create(3) v]) (use inv create in \<open>simp add: mgr_inv_iff\<close>)
  moreover have "init_ok (view m) ks"
    by (rule init_ok_same [of "view (sy_mgr s)"]) (use inv create v in \<open>auto simp: mgr_inv_iff init_ok_add\<close>)
  ultimately show ?thesis using create by (simp add: mgr_inv_iff init_ok_add)
next
  case (refused k ks d pe e)
  then show ?thesis using inv inv4_finishes [of "view (sy_mgr s)" "sy_owned s" k ks "sy_busy s"] by (simp add: mgr_inv_iff)
next
  case (init_start k ks d c second)
  have "v_init (view (sy_mgr s)) d = InitNone" using init_start by (simp add: view_def)
  then show ?thesis using inv init_start inv4_start [of "view (sy_mgr s)" "sy_owned s" k ks "sy_busy s" d c second]
    by (simp add: mgr_inv_iff view_simps)
next
  case (init_answer k ks d c second p)
  have "call_ok (view (sy_mgr s)) (sy_owned s) k" using inv init_answer by (simp add: mgr_inv_iff calls_ok_add)
  from call_ok_answer [OF init_answer(4,3) this]
  have "inv4 (view (sy_mgr s)) (sy_owned s) (add_mset (at k p) ks) (sy_busy s)"
    by (intro inv4_goes) (use inv init_answer in \<open>auto simp: mgr_inv_iff\<close>)
  then show ?thesis using init_answer by (simp add: mgr_inv_iff)
next
  case (init_cancelled k ks d c second)
  have "inv4 (view (sy_mgr s)) (sy_owned s) (add_mset (at k (Returned d c False)) ks) (sy_busy s)"
    by (rule inv4_goes) (use inv init_cancelled in \<open>auto simp: mgr_inv_iff calls_ok_add call_ok_def pair_ok_def\<close>)
  then show ?thesis using init_cancelled by (simp add: mgr_inv_iff)
next
  case (transport_failed k ks d c second)
  then show ?thesis
    using inv inv4_done [of "view (sy_mgr s)" "sy_owned s" k ks "sy_busy s" d c second InitFailed False]
    by (simp add: mgr_inv_iff view_simps)
next
  case (reassign k ks d c newKey p m)
  then show ?thesis using inv inv4_reassign [of "sy_mgr s" "sy_owned s" k ks "sy_busy s" d c newKey p m]
    by (simp add: mgr_inv_iff)
next
  case (no_callback k ks d c)
  have "inv4 (view (sy_mgr s)) (sy_owned s) (add_mset (at k (Installing d c)) ks) (sy_busy s)"
    by (rule inv4_goes) (use inv no_callback in \<open>auto simp: mgr_inv_iff calls_ok_add call_ok_def pair_ok_def\<close>)
  then show ?thesis using no_callback by (simp add: mgr_inv_iff)
next
  case (installed k ks d c m home)
  then show ?thesis
    using inv inv4_done [of "view (sy_mgr s)" "sy_owned s" k ks "sy_busy s" d c False InitOk True]
    by (simp add: mgr_inv_iff view_simps)
next
  case (install_failed k ks d c)
  then show ?thesis
    using inv inv4_done [of "view (sy_mgr s)" "sy_owned s" k ks "sy_busy s" d c False InitFailed False]
    by (simp add: mgr_inv_iff view_simps)
next
  case (follow k ks d c to)
  have v: "v_sup (view (sy_mgr s)) d = Some to" using follow by (simp add: view_def)
  have "inv3 (view (followSupersede d to (sy_mgr s))) (sy_owned s) (add_mset (at k (Moving c to)) ks) (sy_busy s)"
    by (rule inv3_follow [OF _ follow(3) v view_followSupersede]) (use inv follow in \<open>simp add: mgr_inv_iff\<close>)
  moreover have "init_ok (view (followSupersede d to (sy_mgr s))) ks"
    by (rule init_ok_same [of "view (sy_mgr s)"])
      (use inv follow in \<open>auto simp: mgr_inv_iff init_ok_add view_followSupersede\<close>)
  ultimately show ?thesis using follow by (simp add: mgr_inv_iff init_ok_add)
next
  case (move k ks c to)
  let ?m = "set_conn c (updateDaemon (cm_conn (sy_mgr s) c) to) (sy_mgr s)"
  have "inv3 (view ?m) (sy_owned s) (add_mset (at k (Created to c True)) ks) (sy_busy s)"
    by (rule inv3_move [OF _ move(3) view_updateDaemon]) (use inv move in \<open>simp add: mgr_inv_iff\<close>)
  moreover have "init_ok (view ?m) ks"
    by (rule init_ok_same [of "view (sy_mgr s)"])
      (use inv move in \<open>auto simp: mgr_inv_iff init_ok_add view_updateDaemon\<close>)
  ultimately show ?thesis using move by (simp add: mgr_inv_iff init_ok_add)
next
  case (finish_ok k ks d c sha256 m)
  then show ?thesis using inv view_finishRoots [OF finish_ok(4)]
      inv4_finishes [of "view (sy_mgr s)" "sy_owned s" k ks "sy_busy s"] by (simp add: mgr_inv_iff)
next
  case (finish_refused k ks d c sha256)
  then show ?thesis using inv inv4_finishes [of "view (sy_mgr s)" "sy_owned s" k ks "sy_busy s"] by (simp add: mgr_inv_iff)
next
  case (finish_kept k ks d c)
  then show ?thesis using inv inv4_finishes [of "view (sy_mgr s)" "sy_owned s" k ks "sy_busy s"] by (simp add: mgr_inv_iff)
next
  case (finish_destroyed k ks d c)
  have "inv4 (view (releaseDaemon d (dropConnection (ck_name k) (sy_mgr s)))) (sy_owned s - {#c#}) ks False"
    by (rule inv4_releaseDaemon) (use inv finish_destroyed in \<open>auto simp: mgr_inv_iff calls_ok_add call_ok_def pair_ok_def\<close>)
  then show ?thesis using finish_destroyed by (simp add: mgr_inv_iff)
next
  case (remove_lookup k safely c)
  have "map_of (v_conns (view (sy_mgr s))) (ck_name k) = Some c"
    using remove_lookup by (auto simp: connection_def Let_def view_def split: option.splits if_splits)
  then have "call_ok (view (sy_mgr s)) (sy_owned s) k"
    using inv remove_lookup by (auto simp: mgr_inv_iff tables_ok_def call_ok_def)
  then have "inv3 (view (sy_mgr s)) (sy_owned s) (add_mset k (sy_calls s)) (sy_busy s \<or> ck_destroyIfFail k)"
    by (intro inv3_begins) (use inv remove_lookup in \<open>auto simp: mgr_inv_iff\<close>)
  then show ?thesis using inv remove_lookup by (simp add: mgr_inv_iff init_ok_add)
next
  case (remove_finish k ks c d pe)
  have ok: "ck_destroyIfFail k" "c \<in># sy_owned s" "v_name (view (sy_mgr s)) c = ck_name k"
    using inv remove_finish by (auto simp: mgr_inv_iff calls_ok_add call_ok_def)
  have "inv4 (view (releaseDaemon d (dropConnection (ck_name k) (sy_mgr s)))) (sy_owned s - {#c#}) ks False"
    by (rule inv4_releaseDaemon [where busy = "sy_busy s"])
      (use inv remove_finish ok in \<open>auto simp: mgr_inv_iff view_def\<close>)
  moreover have "v_on (view (sy_mgr s)) c = d" using remove_finish by (simp add: view_def)
  ultimately show ?thesis using remove_finish ok by (simp add: mgr_inv_iff view_removeFinish)
next
  case (state_change d st)
  have "view (set_daemon d ((cm_daemon (sy_mgr s) d)\<lparr>dm_state := st\<rparr>) (sy_mgr s)) = view (sy_mgr s)"
    by (simp add: view_def fun_eq_iff)
  then show ?thesis using inv state_change by (simp add: mgr_inv_iff)
qed

lemma mgr_inv_start:
  assumes "cm_connections m = []" "cm_daemons m = []" "cm_daemon m = (\<lambda>_. nilDaemon)"
  shows "mgr_inv (mgr_start m)"
  using assms by (simp add: mgr_start_def mgr_inv_def tables_ok_def calls_ok_def refs_ok_def init_ok_def view_def
      uses_def quiet_def nilDaemon_def)

lemma mgr_inv_reachable:
  assumes "(mgr_step True)\<^sup>*\<^sup>* (mgr_start (foldr RegisterConnectorFactory keys (NewConnectionManager root))) s"
  shows "mgr_inv s"
  using assms
proof (induction rule: rtranclp_induct)
  case base
  have "cm_connections m = [] \<and> cm_daemons m = [] \<and> cm_daemon m = (\<lambda>_. nilDaemon)"
    if "m = foldr RegisterConnectorFactory keys (NewConnectionManager root)" for m
    unfolding that by (induction keys) (simp_all add: NewConnectionManager_def RegisterConnectorFactory_def)
  then show ?case by (intro mgr_inv_start) auto
next
  case (step s t)
  then show ?case using mgr_inv_step by blast
qed

lemma card_filter_le: "card {c \<in> set_mset M. P c} \<le> size (filter_mset P M)"
proof -
  have "set_mset (filter_mset P M) = {c \<in> set_mset M. P c}" by (rule set_mset_filter)
  moreover have "card (set_mset N) \<le> size N" for N :: "'a multiset"
    by (induction N) (auto simp: card_insert_if)
  ultimately show ?thesis by metis
qed

lemma connectionsOn_le:
  assumes "tables_ok (view m) ow"
  shows "card (connectionsOn m d) \<le> uses (view m) ow ks d"
proof -
  let ?f = "\<lambda>n. the (map_of (cm_connections m) n)"
  have reg: "v_name (view m) c = n \<and> c \<in># ow" if "map_of (cm_connections m) n = Some c" for n c
  proof -
    have "map_of (v_conns (view m)) n = Some c" using that by (simp add: view_def)
    then show ?thesis using assms by (simp add: tables_ok_def)
  qed
  have "?f ` connectionsOn m d \<subseteq> {c \<in> set_mset ow. v_on (view m) c = d}"
    using reg by (auto simp: connectionsOn_def) (auto simp: view_def)
  moreover have "inj_on ?f (connectionsOn m d)"
  proof (rule inj_onI)
    fix x y assume xy: "x \<in> connectionsOn m d" "y \<in> connectionsOn m d" "?f x = ?f y"
    obtain c where c: "map_of (cm_connections m) x = Some c" using xy(1) by (auto simp: connectionsOn_def)
    obtain c' where c': "map_of (cm_connections m) y = Some c'" using xy(2) by (auto simp: connectionsOn_def)
    have "c = c'" using xy(3) by (simp add: c c')
    then show "x = y" using reg [OF c] reg [OF c'] by simp
  qed
  ultimately have "card (connectionsOn m d) \<le> card {c \<in> set_mset ow. v_on (view m) c = d}"
    by (intro card_inj_on_le) auto
  also have "\<dots> \<le> uses (view m) ow ks d"
    using card_filter_le [of ow "\<lambda>c. v_on (view m) c = d"] by (simp add: uses_def)
  finally show ?thesis .
qed

text \<open>
  C3. As long as the last reference of a daemon is only released while no initialisation works on it, the
  reference count of a daemon that was not superseded is at least the number of connections registered on it, and
  none of them is ever left on a daemon that was destroyed.
\<close>

theorem connections_keep_their_daemon:
  assumes "(mgr_step True)\<^sup>*\<^sup>* (mgr_start (foldr RegisterConnectorFactory keys (NewConnectionManager root))) s"
    "dm_supersededBy (cm_daemon (sy_mgr s) d) = None"
  shows "int (card (connectionsOn (sy_mgr s) d)) \<le> dm_refCount (cm_daemon (sy_mgr s) d) \<and>
    (dm_destroyed (cm_daemon (sy_mgr s) d) \<longrightarrow> connectionsOn (sy_mgr s) d = {})"
proof -
  have inv: "inv4 (view (sy_mgr s)) (sy_owned s) (sy_calls s) (sy_busy s)"
    using mgr_inv_reachable [OF assms(1)] by (simp add: mgr_inv_iff)
  have "v_sup (view (sy_mgr s)) d = None" using assms(2) by (simp add: view_def)
  then have refs: "int (uses (view (sy_mgr s)) (sy_owned s) (sy_calls s) d) \<le> dm_refCount (cm_daemon (sy_mgr s) d)"
      "dm_destroyed (cm_daemon (sy_mgr s) d) \<longrightarrow> uses (view (sy_mgr s)) (sy_owned s) (sy_calls s) d = 0"
    using inv refs_okD [of "view (sy_mgr s)" "sy_owned s" "sy_calls s" d] by (auto simp: view_def)
  have card: "card (connectionsOn (sy_mgr s) d) \<le> uses (view (sy_mgr s)) (sy_owned s) (sy_calls s) d"
    using connectionsOn_le inv by blast
  have "connectionsOn (sy_mgr s) d \<subseteq> dom (map_of (cm_connections (sy_mgr s)))" by (auto simp: connectionsOn_def)
  then have "finite (connectionsOn (sy_mgr s) d)" by (rule finite_subset) (rule finite_dom_map_of)
  then show ?thesis using refs card by (auto simp: card_eq_0_iff)
qed

subsection \<open>A concrete run\<close>

definition exURL :: "string \<Rightarrow> destination_url" where
  "exURL h = \<lparr>u_Scheme = ''ssh'', u_User = None, u_Hostname = h, u_Port = '''', u_Host = h, u_String = h\<rparr>"

definition exCall :: "string \<Rightarrow> bool \<Rightarrow> call_pc \<Rightarrow> call" where
  "exCall h destroy pc =
     \<lparr>ck_name = h, ck_url = exURL h, ck_localRoot = ''/a'', ck_remoteRoot = '''', ck_identity = ''i'',
      ck_destroyIfFail = destroy, ck_background = False, ck_willSync = False, ck_pc = pc\<rparr>"

definition exEnv :: path_env where
  "exEnv = \<lparr>pe_evalSymlinks = Some, pe_getwd = Some ''/'', pe_writeOk = True\<rparr>"

definition exMgr :: ConnectionManager where
  "exMgr = RegisterConnectorFactory ''ssh'' (NewConnectionManager None)"

definition exInsert :: "string \<Rightarrow> ConnectionManager \<Rightarrow> ConnectionManager" where
  "exInsert h m = snd (insertDaemon (daemonKey (exURL h) ''i'') h m)"

definition exCreate :: "string \<Rightarrow> nat \<Rightarrow> ConnectionManager \<Rightarrow> ConnectionManager" where
  "exCreate h d m =
     (case createConnection exEnv h ''/a'' '''' d False m of Inl _ \<Rightarrow> m | Inr (_, m') \<Rightarrow> m')"

lemmas ex_simps = exCall_def exURL_def exEnv_def exMgr_def exInsert_def exCreate_def mgr_start_def
  RegisterConnectorFactory_def NewConnectionManager_def scheme_def initializeStart_def getOrCreateDaemonForConnection_def daemonKey_def findDaemon_def insertDaemon_def
  createConnection_def checkOverlappingRoots_def writeConnectionRootsFile_def updateDaemonRemoteRoots_def publishConnectionsLocked_def
  newConnection_def nilDaemon_def addRef_def afterTransport_def reassignDaemon_def Let_def

lemma ex_state:
  "exInsert h exMgr = exMgr\<lparr>cm_daemons := [(h @ ''::i'', 0)], cm_nextDaemon := 1,
     cm_daemon := (cm_daemon exMgr)(0 := nilDaemon\<lparr>dm_destination := h, dm_mapKey := h @ ''::i'', dm_refCount := 1\<rparr>)\<rparr>"
  by (simp add: ex_simps)

lemma ex_created:
  "exCreate h d (exInsert h exMgr) = (exInsert h exMgr)\<lparr>cm_connections := [(h, 0)], cm_published := Some [(h, 0)],
     cm_nextConn := 1, cm_conn := (cm_conn exMgr)(0 := newConnection d h ''/a'' '''' False)\<rparr>"
  by (cases d) (simp_all add: ex_simps fun_eq_iff)

definition exRestored :: mgr_sys where
  "exRestored = \<lparr>sy_mgr = exCreate ''x'' 0 (exInsert ''x'' exMgr), sy_calls = {#exCall ''x'' False (Created 0 0 False)#},
     sy_busy = False, sy_owned = {#0#}\<rparr>"

lemma ex_restored: "(mgr_step g)\<^sup>*\<^sup>* (mgr_start exMgr) exRestored"
proof -
  let ?k = "exCall ''x'' False"
  let ?s = "\<lambda>m p ow. \<lparr>sy_mgr = m, sy_calls = {#?k p#}, sy_busy = False, sy_owned = ow\<rparr>"
  have "mgr_step g (mgr_start exMgr) (?s exMgr Checked {#})"
    using begin_call [of "?k Checked" "mgr_start exMgr" "''x''" g] by (simp add: ex_simps)
  moreover have "mgr_step g (?s exMgr Checked {#}) (?s exMgr (WantDaemon (daemonKey (exURL ''x'') ''i'')) {#})"
    using miss [of "?s exMgr Checked {#}" "?k Checked" "{#}" _ g] by (simp add: ex_simps)
  moreover have "mgr_step g (?s exMgr (WantDaemon (daemonKey (exURL ''x'') ''i'')) {#})
      (?s (exInsert ''x'' exMgr) (HaveDaemon 0) {#})"
    using insert_daemon [of "?s exMgr (WantDaemon (daemonKey (exURL ''x'') ''i'')) {#}" _ "{#}"
        "daemonKey (exURL ''x'') ''i''" "''x''" 0 "exInsert ''x'' exMgr" g]
    by (simp add: ex_simps)
  moreover have "mgr_step g (?s (exInsert ''x'' exMgr) (HaveDaemon 0) {#}) exRestored"
    using create [of "?s (exInsert ''x'' exMgr) (HaveDaemon 0) {#}" "?k (HaveDaemon 0)" "{#}" 0 exEnv 0
        "exCreate ''x'' 0 (exInsert ''x'' exMgr)" g]
    by (simp add: exRestored_def ex_simps)
  ultimately show ?thesis by (meson converse_rtranclp_into_rtranclp rtranclp.rtrancl_refl)
qed

theorem connections_keep_their_daemon_witness:
  "\<exists>s. (mgr_step True)\<^sup>*\<^sup>* (mgr_start (foldr RegisterConnectorFactory [''ssh''] (NewConnectionManager None))) s \<and>
     connectionsOn (sy_mgr s) 0 = {''x''} \<and> int (card {''x''}) \<le> dm_refCount (cm_daemon (sy_mgr s) 0)"
proof -
  have run: "(mgr_step True)\<^sup>*\<^sup>* (mgr_start (foldr RegisterConnectorFactory [''ssh''] (NewConnectionManager None))) exRestored"
    using ex_restored [of True] by (simp add: exMgr_def)
  have on: "connectionsOn (sy_mgr exRestored) 0 = {''x''}"
    by (auto simp: connectionsOn_def exRestored_def ex_created newConnection_def split: if_splits)
  have "dm_supersededBy (cm_daemon (sy_mgr exRestored) 0) = None" by (simp add: exRestored_def ex_simps)
  from connections_keep_their_daemon [OF run this] show ?thesis using run on by auto
qed

definition exDaemon :: "string \<Rightarrow> int \<Rightarrow> bool \<Rightarrow> managed_daemon" where
  "exDaemon key refs destroyed =
     \<lparr>dm_destination = ''x'', dm_mapKey = key, dm_refCount = refs, dm_supersededBy = None, dm_remoteRoots = [],
      dm_homeDir = '''', dm_state = ConnectionStateInitializing, dm_init = InitRunning, dm_destroyed = destroyed\<rparr>"

definition exRaceMgr ::
    "(string \<times> nat) list \<Rightarrow> (string \<times> nat) list \<Rightarrow> nat \<Rightarrow> (nat \<Rightarrow> Connection) \<Rightarrow> managed_daemon \<Rightarrow> ConnectionManager" where
  "exRaceMgr conns daemons nextConn conn dm =
     exMgr\<lparr>cm_connections := conns, cm_published := Some conns, cm_daemons := daemons, cm_conn := conn,
       cm_nextConn := nextConn, cm_daemon := (cm_daemon exMgr)(0 := dm), cm_nextDaemon := 1\<rparr>"

definition exConn :: "nat \<Rightarrow> Connection" where
  "exConn = (cm_conn exMgr)(0 := newConnection 0 ''x'' ''/a'' '''' False)"

definition exClosed :: "nat \<Rightarrow> Connection" where
  "exClosed = exConn(0 := (exConn 0)\<lparr>cn_closed := True\<rparr>)"

definition exRace0 :: ConnectionManager where
  "exRace0 = exRaceMgr [(''x'', 0)] [(''x::i'', 0)] 1 exConn (exDaemon ''x::i'' 1 False)"

definition exRace1 :: ConnectionManager where
  "exRace1 = exRaceMgr [] [] 1 exClosed (exDaemon ''x::i'' 0 True)"

definition exRace2 :: ConnectionManager where
  "exRace2 = exRaceMgr [] [(''h::i'', 0)] 1 exClosed (exDaemon ''h::i'' 0 True)"

definition exRace3 :: ConnectionManager where
  "exRace3 = exRaceMgr [] [(''h::i'', 0)] 1 exClosed (exDaemon ''h::i'' 1 True)"

definition exRace4 :: ConnectionManager where
  "exRace4 = exRaceMgr [(''h'', 1)] [(''h::i'', 0)] 2 (exClosed(1 := newConnection 0 ''h'' ''/a'' '''' False))
     (exDaemon ''h::i'' 1 True)"

lemmas ex_race_simps = exRaceMgr_def exDaemon_def exConn_def exClosed_def removeFinish_def releaseDaemon_def
  dropConnection_def cn_Close_def connection_def exRace0_def exRace1_def exRace2_def exRace3_def exRace4_def

text \<open>
  Without that restriction the code does reach a connection on a destroyed daemon. A connection being
  restored at start-up is removed while its transport is still being established; its daemon is destroyed and leaves
  the table, but the restore then enters it again under the resolved destination, where the next connection to the
  same host finds it.
\<close>

theorem removal_during_restore_leaves_a_destroyed_daemon:
  "\<exists>s c d. (mgr_step False)\<^sup>*\<^sup>* (mgr_start exMgr) s \<and> map_of (cm_connections (sy_mgr s)) ''h'' = Some c \<and>
     cn_daemon (cm_conn (sy_mgr s) c) = d \<and> dm_destroyed (cm_daemon (sy_mgr s) d) \<and>
     dm_supersededBy (cm_daemon (sy_mgr s) d) = None"
proof -
  let ?k = "exCall ''x'' False" and ?y = "exCall ''h'' False" and ?r = "exCall ''x'' True (Removing 0)"
  let ?i = "?k (Initing 0 0 False)" and ?p = "?k (Installing 0 0)"
  let ?s = "\<lambda>m ks b ow. \<lparr>sy_mgr = m, sy_calls = ks, sy_busy = b, sy_owned = ow\<rparr>"
  have "mgr_step False exRestored (?s exRace0 {#?i#} False {#0#})"
    using init_start [of exRestored "?k (Created 0 0 False)" "{#}" 0 0 False False]
    by (simp add: exRestored_def ex_race_simps ex_simps)
  moreover have "mgr_step False (?s exRace0 {#?i#} False {#0#}) (?s exRace0 {#?r, ?i#} True {#0#})"
    using remove_lookup [of ?r "?s exRace0 {#?i#} False {#0#}" False 0 False] by (simp add: ex_race_simps ex_simps)
  moreover have "mgr_step False (?s exRace0 {#?r, ?i#} True {#0#}) (?s exRace1 {#?i#} False {#})"
    using remove_finish [of "?s exRace0 {#?r, ?i#} True {#0#}" ?r "{#?i#}" 0 0 False exEnv] by (simp add: ex_race_simps ex_simps)
  moreover have "mgr_step False (?s exRace1 {#?i#} False {#}) (?s exRace2 {#?p#} False {#})"
    using reassign [of "?s exRace1 {#?i#} False {#}" ?i "{#}" 0 0 "''h::i''" "Installing 0 0" exRace2 False]
    by (simp add: ex_race_simps ex_simps)
  moreover have "mgr_step False (?s exRace2 {#?p#} False {#}) (?s exRace2 {#?y Checked, ?p#} False {#})"
    using begin_call [of "?y Checked" "?s exRace2 {#?p#} False {#}" "''h''" False] by (simp add: ex_race_simps ex_simps)
  moreover have "mgr_step False (?s exRace2 {#?y Checked, ?p#} False {#}) (?s exRace3 {#?y (HaveDaemon 0), ?p#} False {#})"
    using find [of "?s exRace2 {#?y Checked, ?p#} False {#}" "?y Checked" "{#?p#}" _ 0 exRace3 False]
    by (simp add: ex_race_simps ex_simps)
  moreover have "mgr_step False (?s exRace3 {#?y (HaveDaemon 0), ?p#} False {#})
      (?s exRace4 {#?y (Created 0 1 False), ?p#} False {#1#})"
    using create [of "?s exRace3 {#?y (HaveDaemon 0), ?p#} False {#}" "?y (HaveDaemon 0)" "{#?p#}" 0 exEnv 1 exRace4 False]
    by (simp add: ex_race_simps ex_simps)
  ultimately have "(mgr_step False)\<^sup>*\<^sup>* exRestored (?s exRace4 {#?y (Created 0 1 False), ?p#} False {#1#})"
    by (meson converse_rtranclp_into_rtranclp rtranclp.rtrancl_refl)
  then have "(mgr_step False)\<^sup>*\<^sup>* (mgr_start exMgr) (?s exRace4 {#?y (Created 0 1 False), ?p#} False {#1#})"
    using ex_restored [of False] by (rule rtranclp_trans [rotated])
  moreover have "map_of (cm_connections exRace4) ''h'' = Some 1" "cn_daemon (cm_conn exRace4 1) = 0"
      "dm_destroyed (cm_daemon exRace4 0)" "dm_supersededBy (cm_daemon exRace4 0) = None"
    by (simp_all add: ex_race_simps newConnection_def)
  ultimately show ?thesis
    by (intro exI [of _ "?s exRace4 {#?y (Created 0 1 False), ?p#} False {#1#}"] exI [of _ 1] exI [of _ 0]) simp
qed

end
