(* ===== verification/ManagerRoots.thy ===== *)
theory ManagerRoots
  imports ManagerRefs
begin

text \<open>
  The local roots of the registered connections, over every interleaving of the calls of the connection
  manager: they never overlap, so that a working directory selects at most one connection.
\<close>

subsection \<open>Local roots\<close>

text \<open>The part of a manager that the selection of a connection by directory depends on.\<close>

definition rview :: "ConnectionManager \<Rightarrow> (string \<times> nat) list \<times> (nat \<Rightarrow> string \<times> bool) \<times> nat" where
  "rview m = (cm_connections m, \<lambda>c. (cn_localRoot (cm_conn m c), cn_background (cm_conn m c)), cm_nextConn m)"

definition rooted :: "string \<times> bool \<Rightarrow> bool" where
  "rooted r \<longleftrightarrow> \<not> snd r \<and> fst r \<noteq> ''''"

fun roots_ok :: "(string \<times> nat) list \<times> (nat \<Rightarrow> string \<times> bool) \<times> nat \<Rightarrow> bool" where
  "roots_ok (conns, root, next) \<longleftrightarrow>
     distinct (map fst conns) \<and> (\<forall>n c. (n, c) \<in> set conns \<longrightarrow> c < next) \<and>
     (\<forall>n c n' c'. (n, c) \<in> set conns \<and> (n', c') \<in> set conns \<and> n \<noteq> n' \<and> rooted (root c) \<and> rooted (root c') \<longrightarrow>
        \<not> under (ToLower (fst (root c))) (ToLower (fst (root c'))))"

definition call_root :: "(string \<times> nat) list \<times> (nat \<Rightarrow> string \<times> bool) \<times> nat \<Rightarrow> call \<Rightarrow> bool" where
  "call_root rv k =
     (case (rv, pc_conn (ck_pc k)) of
        ((_, root, nxt), Some c) \<Rightarrow> c < nxt \<and> fst (root c) = ck_localRoot k
      | (_, None) \<Rightarrow> True)"

definition roots_inv :: "mgr_sys \<Rightarrow> bool" where
  "roots_inv s \<longleftrightarrow> roots_ok (rview (sy_mgr s)) \<and> (\<forall>k \<in># sy_calls s. call_root (rview (sy_mgr s)) k)"

lemma overlapping_None:
  "overlapping m l conns = None \<Longrightarrow> (n, c) \<in> set conns \<Longrightarrow> \<not> cn_background (cm_conn m c) \<Longrightarrow> cn_localRoot (cm_conn m c) \<noteq> '''' \<Longrightarrow>
     \<not> under (ToLower l) (ToLower (cn_localRoot (cm_conn m c))) \<and> \<not> under (ToLower (cn_localRoot (cm_conn m c))) (ToLower l)"
  by (induction m l conns rule: overlapping.induct) (auto simp: Let_def under_def split: if_splits)

lemma write_roots_keeps [simp]:
  "cm_connections (writeConnectionRootsFile pe m) = cm_connections m" "cm_conn (writeConnectionRootsFile pe m) = cm_conn m"
  "cm_nextConn (writeConnectionRootsFile pe m) = cm_nextConn m"
  "cm_connections (updateDaemonRemoteRoots d m) = cm_connections m" "cm_conn (updateDaemonRemoteRoots d m) = cm_conn m"
  "cm_nextConn (updateDaemonRemoteRoots d m) = cm_nextConn m"
  "cm_connections (publishConnectionsLocked m) = cm_connections m" "cm_conn (publishConnectionsLocked m) = cm_conn m"
  "cm_nextConn (publishConnectionsLocked m) = cm_nextConn m"
  by (simp_all add: writeConnectionRootsFile_def updateDaemonRemoteRoots_def publishConnectionsLocked_def Let_def)

named_theorems rview_simps

lemma rview_set_daemon [rview_simps]: "rview (set_daemon d x m) = rview m"
  by (simp add: rview_def)

lemma rview_addRef [rview_simps]: "rview (addRef n d m) = rview m"
  by (simp add: addRef_def rview_simps)

lemma rview_findDaemon: "findDaemon key m = Some (d, m') \<Longrightarrow> rview m' = rview m"
  by (auto simp: findDaemon_def rview_simps)

lemma rview_insertDaemon: "insertDaemon key dest m = (d, m') \<Longrightarrow> rview m' = rview m"
  by (auto simp: insertDaemon_def Let_def rview_findDaemon split: option.splits) (simp add: rview_def)

lemma rview_afterTransport: "afterTransport d c newKey m = (p, m') \<Longrightarrow> rview m' = rview m"
  by (auto simp: afterTransport_def reassignDaemon_def Let_def rview_def split: if_splits option.splits prod.splits)

lemma rview_followSupersede [rview_simps]: "rview (followSupersede d to m) = rview m"
  by (simp add: followSupersede_def rview_simps)

lemma rview_updateDaemon [rview_simps]: "rview (set_conn c (updateDaemon (cm_conn m c) to) m) = rview m"
  by (simp add: rview_def updateDaemon_def fun_eq_iff)

lemma rview_roots [rview_simps]:
  "rview (updateDaemonRemoteRoots d m) = rview m" "rview (writeConnectionRootsFile pe m) = rview m"
  by (simp_all add: rview_def)

lemma rview_release [rview_simps]: "rview (releaseDaemon d m) = rview m"
  by (simp add: rview_def releaseDaemon_def addRef_def Let_def)

lemma rview_drop [rview_simps]: "rview (dropConnection name m) = (AList.delete name (cm_connections m), snd (rview m))"
  by (simp add: rview_def dropConnection_def)

lemma rview_close [rview_simps]: "rview (set_conn c (fst (cn_Close (cm_conn m c))) m) = rview m"
  by (simp add: rview_def cn_Close_def fun_eq_iff)

lemma rview_removeFinish [rview_simps]:
  "rview (removeFinish pe name c m) = (AList.delete name (cm_connections m), snd (rview m))"
  by (simp add: removeFinish_def Let_def rview_simps)

lemma rview_finishRoots:
  assumes "finishRoots sha256 k d c m = Some m'" "cn_localRoot (cm_conn m c) = ck_localRoot k"
  shows "rview m' = rview m"
proof -
  have "SetRoots (cm_conn m c) (ck_localRoot k) r = Inr conn \<Longrightarrow>
      cn_localRoot conn = cn_localRoot (cm_conn m c) \<and> cn_background conn = cn_background (cm_conn m c)" for r conn
    using assms(2) by (auto simp: SetRoots_def Let_def split: if_splits)
  then show ?thesis
    using assms(1)
    by (auto simp: finishRoots_def resolveRemoteRoot_def rview_simps split: sum.splits if_splits)
      (auto simp: rview_def fun_eq_iff)
qed

lemma roots_ok_delete:
  assumes "roots_ok (conns, r)"
  shows "roots_ok (AList.delete name conns, r)"
proof -
  obtain root nxt where r: "r = (root, nxt)" by (cases r)
  have "set (AList.delete name conns) \<subseteq> set conns" by (simp add: AList.delete_eq)
  moreover have "distinct (map fst (AList.delete name conns))" using assms by (simp add: r distinct_delete)
  ultimately show ?thesis using assms unfolding r roots_ok.simps by blast
qed

lemma roots_ok_create:
  assumes ok: "roots_ok (rview m)" and r: "createConnection pe name l rr d b m = Inr (c, m')"
  shows "c = cm_nextConn m \<and> cm_nextConn m' = c + 1 \<and> cm_conn m' = (cm_conn m)(c := newConnection d name l rr b) \<and>
    roots_ok (rview m')"
proof -
  have free: "\<not> b \<and> l \<noteq> '''' \<longrightarrow> overlapping m l (cm_connections m) = None"
    using r by (auto simp: createConnection_def checkOverlappingRoots_def split: option.splits if_splits)
  have c: "c = cm_nextConn m" "cm_nextConn m' = c + 1" "cm_conn m' = (cm_conn m)(c := newConnection d name l rr b)"
      "cm_connections m' = AList.update name c (cm_connections m)"
    using r by (auto simp: createConnection_def Let_def split: option.splits)
  have ok': "distinct (map fst (cm_connections m))" "\<And>n c. (n, c) \<in> set (cm_connections m) \<Longrightarrow> c < cm_nextConn m"
    using ok by (auto simp: rview_def)
  have entries: "(n, x) \<in> set (cm_connections m') \<longleftrightarrow> (if n = name then x = c else (n, x) \<in> set (cm_connections m))" for n x
  proof -
    have "distinct (map fst (cm_connections m'))" using ok'(1) by (simp add: c(4) distinct_update)
    then have "(n, x) \<in> set (cm_connections m') \<longleftrightarrow> map_of (cm_connections m') n = Some x" by simp
    then show ?thesis using ok'(1) by (auto simp: c(4) AList.update_conv')
  qed
  have "\<not> under (ToLower (cn_localRoot (cm_conn m' x))) (ToLower (cn_localRoot (cm_conn m' y)))"
    if mem: "(n, x) \<in> set (cm_connections m')" "(n', y) \<in> set (cm_connections m')" "n \<noteq> n'"
      "rooted (cn_localRoot (cm_conn m' x), cn_background (cm_conn m' x))"
      "rooted (cn_localRoot (cm_conn m' y), cn_background (cm_conn m' y))" for n x n' y
  proof -
    have old: "z < c" "cm_conn m' z = cm_conn m z" if "(k, z) \<in> set (cm_connections m)" for k z
      using ok'(2) [OF that] by (simp_all add: c)
    consider "n = name" "n' \<noteq> name" | "n \<noteq> name" "n' = name" | "n \<noteq> name" "n' \<noteq> name" using mem(3) by blast
    then show ?thesis
    proof cases
      case 1
      then have "x = c" "(n', y) \<in> set (cm_connections m)" using mem(1,2) by (auto simp: entries)
      then show ?thesis using overlapping_None [of m l _ n' y] free mem(4,5) old [of n' y] by (auto simp: rooted_def c)
    next
      case 2
      then have "y = c" "(n, x) \<in> set (cm_connections m)" using mem(1,2) by (auto simp: entries)
      then show ?thesis using overlapping_None [of m l _ n x] free mem(4,5) old [of n x] by (auto simp: rooted_def c)
    next
      case 3
      then have "(n, x) \<in> set (cm_connections m)" "(n', y) \<in> set (cm_connections m)" using mem(1,2) by (auto simp: entries)
      then show ?thesis using ok mem(3-5) old by (auto simp: rview_def)
    qed
  qed
  moreover have "x < cm_nextConn m'" if "(n, x) \<in> set (cm_connections m')" for n x
    using that ok'(2) [of n x] by (auto simp: entries c(1,2) split: if_splits)
  moreover have "distinct (map fst (cm_connections m'))" using ok'(1) by (simp add: c(4) distinct_update)
  ultimately have "roots_ok (rview m')" unfolding rview_def roots_ok.simps fst_conv by blast
  then show ?thesis using c by blast
qed

lemma roots_inv_goes:
  assumes "roots_inv s" "sy_calls s = add_mset k ks" "rview m = rview (sy_mgr s)"
    "pc_conn p = None \<or> pc_conn p = pc_conn (ck_pc k)"
  shows "roots_inv (goes k p m ks s)"
proof -
  have "call_root (rview m) k'" if "k' \<in># ks" for k' using assms(1-3) that by (simp add: roots_inv_def)
  moreover have "call_root (rview m) (at k p)"
    using assms by (auto simp: roots_inv_def call_root_def split: prod.splits option.splits)
  ultimately show ?thesis using assms(1,3) by (simp add: roots_inv_def)
qed

lemma roots_inv_finishes:
  assumes "roots_inv s" "sy_calls s = add_mset k ks" "snd (rview m) = snd (rview (sy_mgr s))" "roots_ok (rview m)"
  shows "roots_inv ((finishes k m ks s)\<lparr>sy_owned := ow\<rparr>) \<and> roots_inv (finishes k m ks s)"
proof -
  have "call_root (rview m) k'" if "k' \<in># ks" for k'
    using assms(1-3) that by (auto simp: roots_inv_def call_root_def split: prod.splits)
  then show ?thesis using assms(4) by (simp add: roots_inv_def)
qed

lemma roots_inv_drop:
  assumes "roots_inv s" "sy_calls s = add_mset k ks" "rview m = (AList.delete n (cm_connections (sy_mgr s)), snd (rview (sy_mgr s)))"
  shows "roots_inv ((finishes k m ks s)\<lparr>sy_owned := ow\<rparr>)"
proof -
  have "(cm_connections (sy_mgr s), snd (rview (sy_mgr s))) = rview (sy_mgr s)" by (simp add: rview_def)
  then have "roots_ok (cm_connections (sy_mgr s), snd (rview (sy_mgr s)))" using assms(1) unfolding roots_inv_def by metis
  then have "roots_ok (rview m)" unfolding assms(3) by (rule roots_ok_delete)
  then show ?thesis using roots_inv_finishes [OF assms(1,2)] assms(3) by simp
qed

lemma roots_inv_step:
  assumes step: "mgr_step g s s'" and inv: "roots_inv s"
  shows "roots_inv s'"
  using step
proof cases
  case (create k ks d pe c m)
  from roots_ok_create [OF _ create(4)] inv
  have c: "c = cm_nextConn (sy_mgr s)" "cm_nextConn m = c + 1" "roots_ok (rview m)"
      "cm_conn m = (cm_conn (sy_mgr s))(c := newConnection d (ck_name k) (ck_localRoot k) (ck_remoteRoot k) (ck_background k))"
    by (auto simp: roots_inv_def)
  have "call_root (rview m) k'" if "k' \<in># ks" for k'
  proof -
    have "call_root (rview (sy_mgr s)) k'" using inv create(2) that by (simp add: roots_inv_def)
    then show ?thesis by (auto simp: call_root_def rview_def c(2,4) split: option.splits) (auto simp: c(1))
  qed
  moreover have "call_root (rview m) (at k (Created d c False))" by (simp add: call_root_def rview_def c(2,4))
  ultimately show ?thesis using c(3) create(1) by (simp add: roots_inv_def)
next
  case (finish_ok k ks d c sha256 m)
  have "cn_localRoot (cm_conn (sy_mgr s) c) = ck_localRoot k"
    using inv finish_ok by (simp add: roots_inv_def call_root_def rview_def)
  then have "rview m = rview (sy_mgr s)" using rview_finishRoots finish_ok(4) by blast
  then show ?thesis using inv finish_ok roots_inv_finishes [of s k ks m] by (simp add: roots_inv_def)
next
  case (finish_destroyed k ks d c)
  then show ?thesis using roots_inv_drop [OF inv finish_destroyed(2), of "releaseDaemon d (dropConnection (ck_name k) (sy_mgr s))" "ck_name k"]
    by (simp add: rview_simps)
next
  case (remove_finish k ks c d pe)
  then show ?thesis using roots_inv_drop [OF inv remove_finish(2) rview_removeFinish] by simp
next
  case (init_answer k ks d c second p)
  then have "pc_conn p = Some c"
    by (auto simp: initAnswer_def split: init_phase.splits if_splits ConnectionState.splits)
  then show ?thesis using init_answer roots_inv_goes [OF inv init_answer(2), of "sy_mgr s" p] by simp
next
  case (reassign k ks d c newKey p m)
  then have "pc_conn p = Some c" by (auto simp: afterTransport_def Let_def split: if_splits prod.splits)
  then show ?thesis using reassign roots_inv_goes [OF inv reassign(2) rview_afterTransport [OF reassign(4)], of p] by simp
next
  case (begin_call k name)
  then show ?thesis using inv by (auto simp: roots_inv_def call_root_def)
next
  case (remove_lookup k safely c)
  then show ?thesis using inv by (auto simp: roots_inv_def call_root_def)
next
  case (state_change d st)
  then show ?thesis using inv by (simp add: roots_inv_def rview_simps)
next
  case (find k ks key d m)
  then show ?thesis using roots_inv_goes [OF inv find(2) rview_findDaemon] by simp
next
  case (insert_daemon k ks key dest d m)
  then show ?thesis using roots_inv_goes [OF inv insert_daemon(2) rview_insertDaemon] by simp
next
  case (connector_failed k ks key)
  then show ?thesis using inv roots_inv_finishes [OF inv connector_failed(2)] by (simp add: roots_inv_def)
next
  case (refused k ks d pe e)
  then show ?thesis using inv roots_inv_finishes [OF inv refused(2)] by (simp add: roots_inv_def)
next
  case (finish_refused k ks d c sha256)
  then show ?thesis using inv roots_inv_finishes [OF inv finish_refused(2)] by (simp add: roots_inv_def)
next
  case (finish_kept k ks d c)
  then show ?thesis using inv roots_inv_finishes [OF inv finish_kept(2)] by (simp add: roots_inv_def)
next
  case (miss k ks key)
  then show ?thesis
    using roots_inv_goes [OF inv miss(2), of "sy_mgr s" "WantDaemon key"] by (simp add: rview_simps)
next
  case (init_start k ks d c second)
  then show ?thesis
    using roots_inv_goes [OF inv init_start(2), of "set_init d ConnectionStateInitializing InitRunning (sy_mgr s)" "Initing d c second"] by (simp add: rview_simps)
next
  case (init_cancelled k ks d c second)
  then show ?thesis
    using roots_inv_goes [OF inv init_cancelled(2), of "sy_mgr s" "Returned d c False"] by (simp add: rview_simps)
next
  case (transport_failed k ks d c second)
  then show ?thesis
    using roots_inv_goes [OF inv transport_failed(2), of "set_init d ConnectionStateFailed (InitDone InitFailed) (sy_mgr s)" "Returned d c False"] by (simp add: rview_simps)
next
  case (no_callback k ks d c)
  then show ?thesis
    using roots_inv_goes [OF inv no_callback(2), of "sy_mgr s" "Installing d c"] by (simp add: rview_simps)
next
  case (installed k ks d c m home)
  then show ?thesis
    using roots_inv_goes [OF inv installed(2), of m "Returned d c True"] by (simp add: rview_simps)
next
  case (install_failed k ks d c)
  then show ?thesis
    using roots_inv_goes [OF inv install_failed(2), of "set_init d ConnectionStateFailed (InitDone InitFailed) (sy_mgr s)" "Returned d c False"] by (simp add: rview_simps)
next
  case (follow k ks d c to)
  then show ?thesis
    using roots_inv_goes [OF inv follow(2), of "followSupersede d to (sy_mgr s)" "Moving c to"] by (simp add: rview_simps)
next
  case (move k ks c to)
  then show ?thesis
    using roots_inv_goes [OF inv move(2), of "set_conn c (updateDaemon (cm_conn (sy_mgr s) c) to) (sy_mgr s)" "Created to c True"] by (simp add: rview_simps)
qed

lemma roots_inv_reachable:
  assumes "(mgr_step g)\<^sup>*\<^sup>* (mgr_start (foldr RegisterConnectorFactory keys (NewConnectionManager root))) s"
  shows "roots_inv s"
  using assms
proof (induction rule: rtranclp_induct)
  case base
  have "cm_connections (foldr RegisterConnectorFactory keys (NewConnectionManager root)) = []"
    by (induction keys) (simp_all add: NewConnectionManager_def RegisterConnectorFactory_def)
  then show ?case by (simp add: roots_inv_def mgr_start_def rview_def)
next
  case (step s t)
  then show ?case using roots_inv_step by blast
qed

lemma filter_the_only:
  "distinct (map fst xs) \<Longrightarrow> (n, c) \<in> set xs \<Longrightarrow> P c \<Longrightarrow> (\<And>n' c'. (n', c') \<in> set xs \<Longrightarrow> P c' \<Longrightarrow> n' = n) \<Longrightarrow>
     filter P (map snd xs) = [c]"
proof (induction xs)
  case (Cons x xs)
  obtain m d where x: "x = (m, d)" by (cases x)
  show ?case
  proof (cases "m = n")
    case True
    then have "c = d" using Cons.prems(1,2) x by force
    moreover have "filter P (map snd xs) = []"
      using Cons.prems(1,4) x True by (force simp: filter_empty_conv)
    ultimately show ?thesis using Cons.prems(3) x by simp
  next
    case False
    then have "\<not> P d" using Cons.prems(4) [of m d] x by auto
    moreover have "filter P (map snd xs) = [c]"
    proof (rule Cons.IH)
      show "n' = n" if "(n', c') \<in> set xs" "P c'" for n' c' using Cons.prems(4) [of n' c'] that by simp
    qed (use Cons.prems(1-3) False x in auto)
    ultimately show ?thesis using x by simp
  qed
qed simp



end
