(* ===== verification/SessionManager.thy ===== *)
theory SessionManager
  imports ConnectionManager
begin

text \<open>
  Shell sessions (\<^verbatim>\<open>pkg/session.go\<close>, \<^verbatim>\<open>pkg/session_manager.go\<close>, \<^verbatim>\<open>pkg/server_grpc_session.go\<close>, \<^verbatim>\<open>pkg/shim.go\<close>):
  which connection a session uses, which commands are forwarded for it, the shims that stand for them in the
  session's directory, and where a command is run. Everything done under \<^verbatim>\<open>sessMgrMu\<close> is one function. The
  directories of the sessions are part of the state; the success of each file operation is an argument. Go's maps
  are association lists, whose order stands for the order of an iteration.
\<close>

subsection \<open>Sessions\<close>

record ForwardedCommand =
  fc_conn :: nat
  fc_path :: string

record Session =
  ss_pid :: "64 word"
  ss_desiredFwds :: "(string \<times> ForwardCommandIntent list) list"
  ss_actualFwds :: "(string \<times> ForwardedCommand) list"
  ss_dir :: string
  ss_shimPath :: string
  ss_cwd :: string
  ss_pinnedConnection :: string

datatype sess_error =
    ManagerError mgr_error
  | NoEligibleConnection
  | NoEligibleConnectionHint string
  | EmptyCommand
  | ForwardingNotFound string
  | ConnectionNotConnected string
  | ShellOrCommand
  | NoSessionPath
  | SessionFileError

definition sess_Which :: "Session \<Rightarrow> string \<Rightarrow> sess_error + ForwardedCommand" where
  "sess_Which sess command =
     (if command = '''' then Inl EmptyCommand
      else
        (case map_of (ss_actualFwds sess) command of
           None \<Rightarrow> Inl (ForwardingNotFound command)
         | Some fwd \<Rightarrow> Inr fwd))"

definition UpdateActualForwardCommands :: "Session \<Rightarrow> (string \<times> ForwardedCommand) list \<Rightarrow> Session" where
  "UpdateActualForwardCommands sess newActual = sess\<lparr>ss_actualFwds := newActual\<rparr>"

definition UpdateDesiredForwardCommands :: "Session \<Rightarrow> string \<Rightarrow> ForwardCommandIntent list \<Rightarrow> Session" where
  "UpdateDesiredForwardCommands sess toDestination commands =
     sess\<lparr>ss_desiredFwds := AList.update toDestination
       ((case map_of (ss_desiredFwds sess) toDestination of None \<Rightarrow> [] | Some old \<Rightarrow> old) @ commands) (ss_desiredFwds sess)\<rparr>"

definition setCWD :: "Session \<Rightarrow> string \<Rightarrow> Session" where
  "setCWD sess cwd = sess\<lparr>ss_cwd := cwd\<rparr>"

definition SetPinnedConnection :: "Session \<Rightarrow> string \<Rightarrow> Session" where
  "SetPinnedConnection sess name = sess\<lparr>ss_pinnedConnection := name\<rparr>"

subsection \<open>The connection of a session\<close>

definition ConnectionByName :: "ConnectionManager \<Rightarrow> string \<Rightarrow> mgr_error + nat" where
  "ConnectionByName m name = connection m name True"

definition selectConnection ::
    "path_env \<Rightarrow> ConnectionManager \<Rightarrow> Session \<Rightarrow> string \<Rightarrow> string \<Rightarrow> sess_error + nat" where
  "selectConnection pe m sess connName cwd =
     (if connName \<noteq> '''' then map_sum ManagerError (\<lambda>c. c) (ConnectionByName m connName)
      else
        let pinned = (if ss_pinnedConnection sess \<noteq> ''''
                      then (case ConnectionByName m (ss_pinnedConnection sess) of Inl _ \<Rightarrow> None | Inr c \<Rightarrow> Some c)
                      else None) in
        (case pinned of
           Some c \<Rightarrow> Inr c
         | None \<Rightarrow>
             if cwd = '''' then Inl NoEligibleConnection
             else
               (case matchConnectionByCWD pe m cwd False of
                  Some c \<Rightarrow> Inr c
                | None \<Rightarrow>
                    if length (cm_connections m) = 1 then
                      (case matchConnectionByCWD pe m cwd True of
                         Some c \<Rightarrow> Inl (NoEligibleConnectionHint (cn_name (cm_conn m c)))
                       | None \<Rightarrow> Inl NoEligibleConnection)
                    else Inl NoEligibleConnection)))"

definition resolveSessionConnection :: "path_env \<Rightarrow> ConnectionManager \<Rightarrow> Session \<Rightarrow> nat option" where
  "resolveSessionConnection pe m sess =
     (case selectConnection pe m sess '''' (ss_cwd sess) of Inl _ \<Rightarrow> None | Inr c \<Rightarrow> Some c)"

text \<open>
  The commands a connection offers: those the daemon found for all directories and for the connection's root.
\<close>

type_synonym commands_env = "nat \<Rightarrow> string list \<times> (string \<Rightarrow> string list)"

definition availableCommands :: "commands_env \<Rightarrow> ConnectionManager \<Rightarrow> nat \<Rightarrow> string list" where
  "availableCommands cmds m c =
     (let (allDirs, byDir) = cmds (cn_daemon (cm_conn m c)) in cn_AvailableCommands allDirs byDir (cm_conn m c))"

definition selectConnectionForCommand ::
    "path_env \<Rightarrow> commands_env \<Rightarrow> ConnectionManager \<Rightarrow> Session \<Rightarrow> string \<Rightarrow> string \<Rightarrow> string \<Rightarrow> sess_error + ForwardedCommand" where
  "selectConnectionForCommand pe cmds m sess connName command cwd =
     (case selectConnection pe m sess connName cwd of
        Inl e \<Rightarrow> Inl e
      | Inr c \<Rightarrow>
          if command = '''' \<or> IsAbs command then Inr \<lparr>fc_conn = c, fc_path = command\<rparr>
          else
            let newCommand = (case filter (\<lambda>avail. Base avail = command) (availableCommands cmds m c) of
                                [] \<Rightarrow> '''' | avail # _ \<Rightarrow> avail) in
            Inr \<lparr>fc_conn = c, fc_path = (if newCommand = '''' then command else newCommand)\<rparr>)"

subsection \<open>Forwarded commands\<close>

definition appendFwd :: "'k \<Rightarrow> 'v \<Rightarrow> ('k \<times> 'v list) list \<Rightarrow> ('k \<times> 'v list) list" where
  "appendFwd k v m = AList.update k ((case map_of m k of None \<Rightarrow> [] | Some vs \<Rightarrow> vs) @ [v]) m"

definition DesiredForwardingsForSession ::
    "ConnectionManager \<Rightarrow> Session \<Rightarrow> nat option \<Rightarrow> (string \<times> ForwardCommandIntent list) list" where
  "DesiredForwardingsForSession m sess selectedConn =
     (let flatFwds = foldl (\<lambda>fl (sessDest, sessFwdList). foldl (\<lambda>fl fwd. appendFwd fwd sessDest fl) fl sessFwdList)
                       (forwardings m selectedConn) (ss_desiredFwds sess)
      in foldl (\<lambda>allFwds (fwd, dests). foldl (\<lambda>al dest. appendFwd dest fwd al) allFwds dests) [] flatFwds)"

text \<open>The table from base names to the last available command of that name.\<close>

definition localRemoteCommands :: "string list \<Rightarrow> (string \<times> string) list" where
  "localRemoteCommands avail = foldl (\<lambda>t cmd. AList.update (Base cmd) cmd t) [] avail"

text \<open>
  The commands of one destination; \<open>None\<close> when an empty path is met, which ends the whole function with a nil
  map and a nil error.
\<close>

fun forwardIntents ::
    "string \<Rightarrow> nat \<Rightarrow> (string \<times> string) list \<Rightarrow> ForwardCommandIntent list \<Rightarrow> (string \<times> ForwardedCommand) list
     \<Rightarrow> (string \<times> ForwardedCommand) list option" where
  "forwardIntents connName c table [] acc = Some acc"
| "forwardIntents connName c table (toFwd # rest) acc =
     (case map_of table (fi_Name toFwd) of
        None \<Rightarrow> forwardIntents connName c table rest acc
      | Some path \<Rightarrow>
          if path = '''' then None
          else forwardIntents connName c table rest
                 (AList.update (LocalName toFwd connName) \<lparr>fc_conn = c, fc_path = path\<rparr> acc))"

fun forwardDestinations ::
    "commands_env \<Rightarrow> ConnectionManager \<Rightarrow> (string \<times> ForwardCommandIntent list) list \<Rightarrow> (string \<times> ForwardedCommand) list
     \<Rightarrow> mgr_error + (string \<times> ForwardedCommand) list" where
  "forwardDestinations cmds m [] acc = Inr acc"
| "forwardDestinations cmds m ((destination, toFwdIntents) # rest) acc =
     (case ConnectionByName m destination of
        Inl e \<Rightarrow> Inl e
      | Inr c \<Rightarrow>
          (case forwardIntents (cn_name (cm_conn m c)) c (localRemoteCommands (availableCommands cmds m c)) toFwdIntents acc of
             None \<Rightarrow> Inr []
           | Some acc' \<Rightarrow> forwardDestinations cmds m rest acc'))"

definition resolveForwardedCommandsForSession ::
    "commands_env \<Rightarrow> ConnectionManager \<Rightarrow> Session \<Rightarrow> nat option \<Rightarrow> mgr_error + (string \<times> ForwardedCommand) list" where
  "resolveForwardedCommandsForSession cmds m sess selectedConn =
     forwardDestinations cmds m (DesiredForwardingsForSession m sess selectedConn) []"

subsection \<open>Shims and session directories\<close>

definition unlines :: "string list \<Rightarrow> string" where
  "unlines ls = concat (map (\<lambda>l. l @ [CHR 0x0A]) ls)"

definition shimmedCmd :: string where
  \<open>shimmedCmd = unlines
     [''#!/bin/sh'', ''set -e'', ''export PATH=$_GC_LOCAL_PATH'', ''if [ "$#" -lt 1 ]; then'',
      CHR 0x09 # ''args=""'', ''else'', CHR 0x09 # ''args="$(printf " %q" "${@}")"'', ''fi'',
      ''graft run-shimmed-cmd --pid=$GRAFT_SESSION --cwd=$(pwd) --cmd=$(basename $0) -- $args'']\<close>

definition shimmedSudoCmd :: string where
  \<open>shimmedSudoCmd = unlines
     [''#!/bin/sh'', ''set -e'', ''export PATH=$_GC_LOCAL_PATH'', ''if [ "$#" -lt 1 ]; then'',
      CHR 0x09 # ''exec $(basename $0) $@'', ''fi'', '''', ''cmd=$(basename $1)'',
      ''if [ -n "$_GC_SHIMS_PATH" ] && [ -x "$_GC_SHIMS_PATH/$cmd" ]; then'', CHR 0x09 # ''shift'',
      CHR 0x09 # ''if [ "$#" -lt 1 ]; then'', CHR 0x09 # CHR 0x09 # ''args=""'', CHR 0x09 # ''else'',
      CHR 0x09 # CHR 0x09 # ''args="$(printf " %q" "$@")"'', CHR 0x09 # ''fi'',
      CHR 0x09 # ''graft run-shimmed-cmd --pid=$GRAFT_SESSION --cwd=$(pwd) --sudo --cmd=$cmd -- $args'',
      ''else'', CHR 0x09 # ''exec $(basename $0) $@'', ''fi'']\<close>

definition sudoCommandName :: string where
  "sudoCommandName = ''sudo''"

definition shimOf :: "string \<Rightarrow> string" where
  "shimOf cmdName = (if cmdName = sudoCommandName then shimmedSudoCmd else shimmedCmd)"

text \<open>
  The directory of a session: the shims in its \<^verbatim>\<open>shims\<close> directory, if there is one, and the two files the daemon
  keeps beside it. Each file operation may fail, as the function \<open>sv_ok\<close> of the environment says.
\<close>

record session_files =
  sf_shims :: "(string \<times> string) list option"
  sf_current :: "string option"
  sf_cwd :: "string option"

datatype file_op =
    StatSession | MakeSession | StatShims | MakeShims | ReadShims | RemoveShim string | StatShim string | ReadShim string
  | WriteShim string | ReadCurrent | WriteCurrent | ReadCwd | WriteCwd | RemoveSession

record sess_env =
  sv_env :: environment
  sv_userHome :: "string option"
  sv_ok :: "string \<Rightarrow> file_op \<Rightarrow> bool"
  sv_readRoot :: bool
  sv_alive :: "nat \<Rightarrow> bool"

record SessionManager =
  sm_sessions :: "(64 word \<times> Session) list"
  sm_files :: "(string \<times> session_files) list"

definition NewSessionManager :: "(string \<times> session_files) list \<Rightarrow> SessionManager" where
  "NewSessionManager files = \<lparr>sm_sessions = [], sm_files = files\<rparr>"

definition dirName :: "64 word \<Rightarrow> string" where
  "dirName pid = utoa (unat pid)"

definition noFiles :: session_files where
  "noFiles = \<lparr>sf_shims = None, sf_current = None, sf_cwd = None\<rparr>"

definition filesOf :: "SessionManager \<Rightarrow> 64 word \<Rightarrow> session_files" where
  "filesOf mgr pid = (case map_of (sm_files mgr) (dirName pid) of None \<Rightarrow> noFiles | Some f \<Rightarrow> f)"

abbreviation set_files :: "64 word \<Rightarrow> session_files \<Rightarrow> SessionManager \<Rightarrow> SessionManager" where
  "set_files pid f mgr \<equiv> mgr\<lparr>sm_files := AList.update (dirName pid) f (sm_files mgr)\<rparr>"

abbreviation set_session :: "64 word \<Rightarrow> Session \<Rightarrow> SessionManager \<Rightarrow> SessionManager" where
  "set_session pid s mgr \<equiv> mgr\<lparr>sm_sessions := AList.update pid s (sm_sessions mgr)\<rparr>"

definition shimCommand :: "(file_op \<Rightarrow> bool) \<Rightarrow> string \<Rightarrow> (string \<times> string) list option \<Rightarrow> (string \<times> string) list option" where
  "shimCommand ok cmdName shims =
     (let current = (if ok (StatShim cmdName) then Option.bind shims (\<lambda>s. map_of s cmdName) else None);
          rewriteFile = (current = None \<or> \<not> ok (ReadShim cmdName) \<or> current \<noteq> Some (shimOf cmdName)) in
      if \<not> rewriteFile then shims
      else if ok (WriteShim cmdName) then map_option (AList.update cmdName (shimOf cmdName)) shims
      else shims)"

definition writeSessionConnectionFile :: "(file_op \<Rightarrow> bool) \<Rightarrow> string \<Rightarrow> session_files \<Rightarrow> session_files" where
  "writeSessionConnectionFile ok connName f =
     (if ok ReadCurrent \<and> sf_current f = Some connName then f
      else if ok WriteCurrent then f\<lparr>sf_current := Some connName\<rparr>
      else f)"

definition tickReconcileSession ::
    "path_env \<Rightarrow> commands_env \<Rightarrow> ConnectionManager \<Rightarrow> (file_op \<Rightarrow> bool) \<Rightarrow> Session \<Rightarrow> session_files \<Rightarrow> Session \<times> session_files" where
  "tickReconcileSession pe cmds m ok sess files =
     (let resolvedConn = resolveSessionConnection pe m sess;
          existing = (if ok ReadShims then (case sf_shims files of None \<Rightarrow> [] | Some s \<Rightarrow> filter (\<lambda>n. n \<noteq> sudoCommandName) (map fst s))
                      else []) in
      case resolveForwardedCommandsForSession cmds m sess resolvedConn of
        Inl _ \<Rightarrow> (sess, files)
      | Inr newForwardings \<Rightarrow>
          let toDelete = filter (\<lambda>n. map_of newForwardings n = None \<and> ok (RemoveShim n)) existing;
              shims1 = map_option (filter (\<lambda>(n, _). n \<notin> set toDelete)) (sf_shims files);
              shims2 = foldl (\<lambda>s n. shimCommand ok n s) shims1 (map fst newForwardings);
              shims3 = shimCommand ok sudoCommandName shims2;
              connName = (case resolvedConn of None \<Rightarrow> '''' | Some c \<Rightarrow> cn_name (cm_conn m c))
          in (UpdateActualForwardCommands sess newForwardings,
              writeSessionConnectionFile ok connName (files\<lparr>sf_shims := shims3\<rparr>)))"

subsection \<open>The table of sessions\<close>

definition makeDirs :: "(file_op \<Rightarrow> bool) \<Rightarrow> session_files option \<Rightarrow> session_files option \<times> bool" where
  "makeDirs ok files =
     (if \<not> ok StatSession then (files, False)
      else if files = None \<and> \<not> ok MakeSession then (None, False)
      else
        let f = (case files of None \<Rightarrow> noFiles | Some f \<Rightarrow> f) in
        if \<not> ok StatShims then (Some f, False)
        else if sf_shims f \<noteq> None then (Some f, True)
        else if \<not> ok MakeShims then (Some f, False)
        else (Some (f\<lparr>sf_shims := Some []\<rparr>), True))"

definition getOrCreateSession :: "sess_env \<Rightarrow> 64 word \<Rightarrow> SessionManager \<Rightarrow> (sess_error + Session) \<times> SessionManager" where
  "getOrCreateSession env pid mgr =
     (case map_of (sm_sessions mgr) pid of
        Some sess \<Rightarrow> (Inr sess, mgr)
      | None \<Rightarrow>
          (case SessionPath (sv_env env) (sv_userHome env) pid of
             None \<Rightarrow> (Inl NoSessionPath, mgr)
           | Some sessPath \<Rightarrow>
               let (files, made) = makeDirs (sv_ok env (dirName pid)) (map_of (sm_files mgr) (dirName pid));
                   mgr1 = (case files of None \<Rightarrow> mgr | Some f \<Rightarrow> set_files pid f mgr) in
               if \<not> made then (Inl SessionFileError, mgr1)
               else
                 let sess = \<lparr>ss_pid = pid, ss_desiredFwds = [], ss_actualFwds = [], ss_dir = sessPath,
                             ss_shimPath = PathJoin [sessPath, ''shims''],
                             ss_cwd = (case sf_cwd (filesOf mgr1 pid) of
                                         Some cwd \<Rightarrow> if sv_ok env (dirName pid) ReadCwd then cwd else ''''
                                       | None \<Rightarrow> ''''),
                             ss_pinnedConnection = ''''\<rparr>
                 in (Inr sess, set_session pid sess mgr1)))"

definition removeSession :: "sess_env \<Rightarrow> 64 word \<Rightarrow> string \<Rightarrow> SessionManager \<Rightarrow> SessionManager" where
  "removeSession env pid dir mgr =
     mgr\<lparr>sm_sessions := AList.delete pid (sm_sessions mgr),
         sm_files := (if sv_ok env dir RemoveSession then AList.delete dir (sm_files mgr) else sm_files mgr)\<rparr>"

definition pruneDir :: "sess_env \<Rightarrow> SessionManager \<Rightarrow> string \<Rightarrow> SessionManager" where
  "pruneDir env mgr dir =
     (case ParseUint dir 10 64 of
        None \<Rightarrow> removeSession env 0 dir mgr
      | Some n \<Rightarrow>
          if n \<ge> 2 ^ 63 then mgr
          else if \<not> sv_alive env n then removeSession env (of_nat n) dir mgr
          else snd (getOrCreateSession env (of_nat n) mgr))"

definition tickPruneSessions :: "sess_env \<Rightarrow> SessionManager \<Rightarrow> SessionManager" where
  "tickPruneSessions env mgr =
     (if \<not> sv_readRoot env then mgr else foldl (pruneDir env) mgr (map fst (sm_files mgr)))"

definition reconcileIn ::
    "path_env \<Rightarrow> commands_env \<Rightarrow> ConnectionManager \<Rightarrow> sess_env \<Rightarrow> SessionManager \<Rightarrow> Session \<Rightarrow> SessionManager" where
  "reconcileIn pe cmds m env mgr sess =
     (let pid = ss_pid sess;
          (sess', files') = tickReconcileSession pe cmds m (sv_ok env (dirName pid)) sess (filesOf mgr pid)
      in set_session pid sess'
           (if map_of (sm_files mgr) (dirName pid) = None then mgr else set_files pid files' mgr))"

definition sm_tick :: "path_env \<Rightarrow> commands_env \<Rightarrow> ConnectionManager \<Rightarrow> sess_env \<Rightarrow> SessionManager \<Rightarrow> SessionManager \<times> 64 word" where
  "sm_tick pe cmds m env mgr =
     (let mgr1 = tickPruneSessions env mgr in
      (foldl (reconcileIn pe cmds m env) mgr1 (map snd (sm_sessions mgr1)),
       sum_list (map fst (sm_sessions mgr))))"

definition SessionByPID :: "sess_env \<Rightarrow> 64 word \<Rightarrow> SessionManager \<Rightarrow> (sess_error + Session) \<times> SessionManager" where
  "SessionByPID = getOrCreateSession"

definition UpdateSessionCWD ::
    "path_env \<Rightarrow> commands_env \<Rightarrow> ConnectionManager \<Rightarrow> sess_env \<Rightarrow> 64 word \<Rightarrow> string \<Rightarrow> SessionManager
     \<Rightarrow> sess_error option \<times> SessionManager" where
  "UpdateSessionCWD pe cmds m env pid cwd mgr =
     (case getOrCreateSession env pid mgr of
        (Inl e, mgr1) \<Rightarrow> (Some e, mgr1)
      | (Inr sess, mgr1) \<Rightarrow>
          if ss_cwd sess = cwd then (None, mgr1)
          else
            let sess1 = setCWD sess cwd;
                mgr2 = (case map_of (sm_files mgr1) (dirName pid) of
                          Some f \<Rightarrow> if sv_ok env (dirName pid) WriteCwd then set_files pid (f\<lparr>sf_cwd := Some cwd\<rparr>) mgr1 else mgr1
                        | None \<Rightarrow> mgr1)
            in (None, reconcileIn pe cmds m env mgr2 sess1))"

definition PinConnection ::
    "path_env \<Rightarrow> commands_env \<Rightarrow> ConnectionManager \<Rightarrow> sess_env \<Rightarrow> 64 word \<Rightarrow> string \<Rightarrow> SessionManager
     \<Rightarrow> (sess_error + string) \<times> SessionManager" where
  "PinConnection pe cmds m env pid connName mgr =
     (case (if connName \<noteq> '''' then (case ConnectionByName m connName of Inl e \<Rightarrow> Some e | Inr _ \<Rightarrow> None) else None) of
        Some e \<Rightarrow> (Inl (ManagerError e), mgr)
      | None \<Rightarrow>
          (case getOrCreateSession env pid mgr of
             (Inl e, mgr1) \<Rightarrow> (Inl e, mgr1)
           | (Inr sess, mgr1) \<Rightarrow>
               (Inr connName, reconcileIn pe cmds m env mgr1 (SetPinnedConnection sess connName))))"

text \<open>
  \<^verbatim>\<open>RunCommand\<close> up to the point where the command is sent: the connection, the directory and the path it is run
  with.
\<close>

definition sm_RunCommand ::
    "path_env \<Rightarrow> commands_env \<Rightarrow> ConnectionManager \<Rightarrow> sess_env \<Rightarrow> 64 word \<Rightarrow> string \<Rightarrow> bool \<Rightarrow> bool \<Rightarrow> string \<Rightarrow> SessionManager
     \<Rightarrow> (sess_error + nat \<times> string \<times> string) \<times> SessionManager" where
  "sm_RunCommand pe cmds m env pid connectionName shell exactCommand command mgr =
     (if shell = (command \<noteq> '''') then (Inl ShellOrCommand, mgr)
      else
        (case SessionByPID env pid mgr of
           (Inl e, mgr1) \<Rightarrow> (Inl e, mgr1)
         | (Inr sess, mgr1) \<Rightarrow>
             (case (if exactCommand \<or> shell
                    then selectConnectionForCommand pe cmds m sess connectionName command (ss_cwd sess)
                    else sess_Which sess command) of
                Inl e \<Rightarrow> (Inl e, mgr1)
              | Inr fwd \<Rightarrow>
                  let conn = cm_conn m (fc_conn fwd);
                      st = fst (cn_State (\<lambda>d. (dm_state (cm_daemon m d), '''')) conn) in
                  if st \<noteq> ConnectionStateConnected then (Inl (ConnectionNotConnected (cn_name conn)), mgr1)
                  else (Inr (fc_conn fwd, (case MatchCWD conn (ss_cwd sess) of None \<Rightarrow> '''' | Some d \<Rightarrow> d), fc_path fwd), mgr1))))"

subsection \<open>The calls of a client\<close>

definition SessionSelectConnection ::
    "path_env \<Rightarrow> commands_env \<Rightarrow> ConnectionManager \<Rightarrow> sess_env \<Rightarrow> 64 word \<Rightarrow> string \<Rightarrow> SessionManager
     \<Rightarrow> (sess_error + string \<times> (string \<times> string) list) \<times> SessionManager" where
  "SessionSelectConnection pe cmds m env pid cwd mgr =
     (case UpdateSessionCWD pe cmds m env pid cwd mgr of
        (Some e, mgr1) \<Rightarrow> (Inl e, mgr1)
      | (None, mgr1) \<Rightarrow>
          (case SessionByPID env pid mgr1 of
             (Inl e, mgr2) \<Rightarrow> (Inl e, mgr2)
           | (Inr sess, mgr2) \<Rightarrow>
               (case selectConnection pe m sess '''' cwd of
                  Inl e \<Rightarrow> (Inl e, mgr2)
                | Inr c \<Rightarrow>
                    let conn = cm_conn m c;
                        roots = (if cn_localRoot conn \<noteq> '''' \<and> cn_remoteRoot conn \<noteq> ''''
                                 then [(cn_localRoot conn, cn_remoteRoot conn)] else [])
                    in (Inr (cn_name conn, roots @ map (\<lambda>i. (si_FromLocal i, si_ToRemote i)) (Synchronizations conn)), mgr2))))"

definition SessionWhich :: "ConnectionManager \<Rightarrow> sess_env \<Rightarrow> 64 word \<Rightarrow> string \<Rightarrow> SessionManager \<Rightarrow> (sess_error + string \<times> string) \<times> SessionManager" where
  "SessionWhich m env pid command mgr =
     (case SessionByPID env pid mgr of
        (Inl e, mgr1) \<Rightarrow> (Inl e, mgr1)
      | (Inr sess, mgr1) \<Rightarrow>
          (map_sum (\<lambda>e. e) (\<lambda>fwd. (cn_name (cm_conn m (fc_conn fwd)), fc_path fwd)) (sess_Which sess command), mgr1))"

definition SessionShimmedCommands ::
    "path_env \<Rightarrow> commands_env \<Rightarrow> ConnectionManager \<Rightarrow> sess_env \<Rightarrow> 64 word \<Rightarrow> SessionManager
     \<Rightarrow> (sess_error + (string \<times> (string \<times> string \<times> bool) list) list) \<times> SessionManager" where
  "SessionShimmedCommands pe cmds m env pid mgr =
     (case SessionByPID env pid mgr of
        (Inl e, mgr1) \<Rightarrow> (Inl e, mgr1)
      | (Inr sess, mgr1) \<Rightarrow>
          let resolvedConn = resolveSessionConnection pe m sess;
              fwdings = DesiredForwardingsForSession m sess resolvedConn;
              resolved = (case resolveForwardedCommandsForSession cmds m sess resolvedConn of Inl _ \<Rightarrow> [] | Inr r \<Rightarrow> r)
          in (Inr (map (\<lambda>(dest, fwds). (dest, map (\<lambda>fwd. (LocalName fwd dest, fi_Name fwd,
                       map_of resolved (LocalName fwd dest) \<noteq> None)) fwds)) fwdings), mgr1))"

subsection \<open>The interface to the connection manager\<close>

text \<open>
  What sessions rely on: in a well-formed table a look-up by name gives exactly the usable connection registered
  under it, and a look-up by directory gives a registered one.
\<close>

locale connection_table =
  fixes wf :: "'m \<Rightarrow> bool" and registered :: "'m \<Rightarrow> string \<Rightarrow> 'c \<Rightarrow> bool" and usable :: "'m \<Rightarrow> 'c \<Rightarrow> bool"
    and lookup :: "'m \<Rightarrow> string \<Rightarrow> 'e + 'c" and by_directory :: "'m \<Rightarrow> string \<Rightarrow> bool \<Rightarrow> 'c option"
  assumes lookup_iff: "wf m \<Longrightarrow> lookup m n = Inr c \<longleftrightarrow> registered m n c \<and> usable m c"
    and by_directory_registered: "by_directory m d b = Some c \<Longrightarrow> \<exists>n. registered m n c"
begin

lemma lookup_fails: "wf m \<Longrightarrow> (\<exists>e. lookup m n = Inl e) \<longleftrightarrow> (\<forall>c. registered m n c \<longrightarrow> \<not> usable m c)"
  using lookup_iff [of m n] by (cases "lookup m n") auto

lemma named_or_directory_registered:
  assumes "wf m" and "lookup m n = Inr c \<or> by_directory m d b = Some c"
  shows "\<exists>n. registered m n c"
  using assms lookup_iff by_directory_registered by blast

end

definition connected :: "ConnectionManager \<Rightarrow> nat \<Rightarrow> bool" where
  "connected m c \<longleftrightarrow> fst (cn_State (\<lambda>d. (dm_state (cm_daemon m d), '''')) (cm_conn m c)) = ConnectionStateConnected"

lemma matchConnectionByCWD_member: "matchConnectionByCWD pe m cwd b = Some c \<Longrightarrow> \<exists>n. (n, c) \<in> set (cm_connections m)"
proof -
  assume "matchConnectionByCWD pe m cwd b = Some c"
  then obtain dir where "filter (\<lambda>c. rootMatches pe b (ToLower dir) (cm_conn m c)) (map snd (cm_connections m)) = [c]"
    by (auto simp: matchConnectionByCWD_def split: if_splits option.splits list.splits)
  then have "c \<in> set (map snd (cm_connections m))" by (metis filter_is_subset list.set_intros(1) subsetD)
  then show ?thesis by auto
qed

interpretation conns: connection_table "\<lambda>m. distinct (map fst (cm_connections m))" "\<lambda>m n c. (n, c) \<in> set (cm_connections m)"
  connected ConnectionByName "matchConnectionByCWD pe" for pe
proof unfold_locales
  fix m :: ConnectionManager and n c assume "distinct (map fst (cm_connections m))"
  then have "(n, c) \<in> set (cm_connections m) \<longleftrightarrow> map_of (cm_connections m) n = Some c" by simp
  then show "ConnectionByName m n = Inr c \<longleftrightarrow> (n, c) \<in> set (cm_connections m) \<and> connected m c"
    by (auto simp: ConnectionByName_def connection_def connected_def Let_def split: option.splits)
next
  fix m :: ConnectionManager and d b c assume "matchConnectionByCWD pe m d b = Some c"
  then show "\<exists>n. (n, c) \<in> set (cm_connections m)" by (rule matchConnectionByCWD_member)
qed

lemma selectConnection_hierarchy:
  "selectConnection pe m sess connName cwd = Inr c \<longleftrightarrow>
     (if connName \<noteq> '''' then ConnectionByName m connName = Inr c
      else if ss_pinnedConnection sess \<noteq> '''' \<and> (\<exists>c'. ConnectionByName m (ss_pinnedConnection sess) = Inr c')
      then ConnectionByName m (ss_pinnedConnection sess) = Inr c
      else cwd \<noteq> '''' \<and> matchConnectionByCWD pe m cwd False = Some c)"
  by (auto simp: selectConnection_def Let_def split: sum.splits option.splits)
    (auto simp: map_sum_def split: sum.splits)

lemma selectConnection_registered:
  assumes "distinct (map fst (cm_connections m))" and "selectConnection pe m sess connName cwd = Inr c"
  shows "\<exists>n. (n, c) \<in> set (cm_connections m)"
proof -
  have "(\<exists>n. ConnectionByName m n = Inr c) \<or> (\<exists>d b. matchConnectionByCWD pe m d b = Some c)"
    using assms(2) unfolding selectConnection_hierarchy by (auto split: if_splits)
  then show ?thesis using conns.named_or_directory_registered [OF assms(1)] by blast
qed

subsection \<open>Forwarded commands and shims\<close>

lemma localRemoteCommands_table:
  "map_of (localRemoteCommands avail) n = Some path \<Longrightarrow> path \<in> set avail \<and> Base path = n"
proof -
  have "map_of (foldl (\<lambda>t cmd. AList.update (Base cmd) cmd t) t0 avail) n = Some path \<Longrightarrow>
      map_of t0 n = Some path \<or> (path \<in> set avail \<and> Base path = n)" for t0
    by (induction avail arbitrary: t0) (fastforce simp: AList.update_conv' split: if_splits)+
  then show "map_of (localRemoteCommands avail) n = Some path \<Longrightarrow> path \<in> set avail \<and> Base path = n"
    by (fastforce simp: localRemoteCommands_def)
qed

definition fwd_ok :: "commands_env \<Rightarrow> ConnectionManager \<Rightarrow> string \<Rightarrow> ForwardedCommand \<Rightarrow> bool" where
  "fwd_ok cmds m n fwd \<longleftrightarrow>
     (\<exists>dest intent. ConnectionByName m dest = Inr (fc_conn fwd) \<and>
        n = LocalName intent (cn_name (cm_conn m (fc_conn fwd))) \<and>
        fc_path fwd \<in> set (availableCommands cmds m (fc_conn fwd)) \<and> Base (fc_path fwd) = fi_Name intent)"

lemma forwardIntents_ok:
  assumes "forwardIntents connName c (localRemoteCommands avail) is acc = Some fwds" and "map_of fwds n = Some fwd"
  shows "map_of acc n = Some fwd \<or>
    (\<exists>i \<in> set is. n = LocalName i connName \<and> fc_conn fwd = c \<and> fc_path fwd \<in> set avail \<and> Base (fc_path fwd) = fi_Name i)"
  using assms
proof (induction "is" arbitrary: acc)
  case (Cons i "is")
  show ?case
  proof (cases "map_of (localRemoteCommands avail) (fi_Name i)")
    case None
    then show ?thesis using Cons by fastforce
  next
    case (Some path)
    then have path: "path \<in> set avail" "Base path = fi_Name i" using localRemoteCommands_table by auto
    from Cons.prems(1) Some
    have "forwardIntents connName c (localRemoteCommands avail) is
        (AList.update (LocalName i connName) \<lparr>fc_conn = c, fc_path = path\<rparr> acc) = Some fwds"
      by (simp split: if_splits)
    from Cons.IH [OF this Cons.prems(2)] show ?thesis
      using path by (auto simp: AList.update_conv' split: if_splits)
  qed
qed simp

lemma forwardDestinations_ok:
  assumes "forwardDestinations cmds m ds acc = Inr fwds" and "map_of fwds n = Some fwd"
  shows "map_of acc n = Some fwd \<or> fwd_ok cmds m n fwd"
  using assms
proof (induction cmds m ds acc rule: forwardDestinations.induct)
  case (2 cmds m destination intents rest acc)
  then obtain c where c: "ConnectionByName m destination = Inr c" by (auto split: sum.splits)
  let ?f = "forwardIntents (cn_name (cm_conn m c)) c (localRemoteCommands (availableCommands cmds m c)) intents acc"
  from 2(2,3) c obtain acc' where f: "?f = Some acc'" "forwardDestinations cmds m rest acc' = Inr fwds"
    by (auto split: option.splits)
  from 2(1) [OF c f 2(3)] show ?case
  proof
    assume "map_of acc' n = Some fwd"
    from forwardIntents_ok [OF f(1) this] show ?thesis using c by (auto simp: fwd_ok_def)
  qed simp
qed simp

lemma shimCommand_ok:
  assumes "\<forall>op. ok op"
  shows "\<exists>s'. shimCommand ok n (Some s) = Some s' \<and> map_of s' = (map_of s)(n \<mapsto> shimOf n)"
  using assms by (auto simp: shimCommand_def Let_def AList.update_conv' fun_eq_iff)

lemma shimCommands_ok:
  assumes "\<forall>op. ok op"
  shows "\<exists>s'. foldl (\<lambda>s n. shimCommand ok n s) (Some s) ns = Some s' \<and>
    (\<forall>n. map_of s' n = (if n \<in> set ns then Some (shimOf n) else map_of s n))"
proof (induction ns arbitrary: s)
  case (Cons a ns)
  obtain s1 where s1: "shimCommand ok a (Some s) = Some s1" "map_of s1 = (map_of s)(a \<mapsto> shimOf a)"
    using shimCommand_ok [OF assms] by blast
  obtain s2 where s2: "foldl (\<lambda>s n. shimCommand ok n s) (Some s1) ns = Some s2"
      "\<forall>n. map_of s2 n = (if n \<in> set ns then Some (shimOf n) else map_of s1 n)"
    using Cons by blast
  then show ?case using s1 by auto
qed simp

lemma map_of_filter_keys: "map_of (filter (\<lambda>(n, _). P n) xs) k = (if P k then map_of xs k else None)"
  by (induction xs) auto

lemma reconcile_shims:
  assumes ok: "\<forall>op. ok op" and old: "sf_shims files = Some old"
    and res: "resolveForwardedCommandsForSession cmds m sess (resolveSessionConnection pe m sess) = Inr fwds"
  shows "\<exists>shims. sf_shims (snd (tickReconcileSession pe cmds m ok sess files)) = Some shims \<and>
    (\<forall>n. map_of shims n = (if n = sudoCommandName \<or> map_of fwds n \<noteq> None then Some (shimOf n) else None))"
proof -
  let ?ex = "filter (\<lambda>n. n \<noteq> sudoCommandName) (map fst old)"
  let ?del = "filter (\<lambda>n. map_of fwds n = None) ?ex"
  let ?s1 = "filter (\<lambda>(n, _). n \<notin> set ?del) old"
  obtain s2 where s2: "foldl (\<lambda>s n. shimCommand ok n s) (Some ?s1) (map fst fwds) = Some s2"
      "\<And>n. map_of s2 n = (if n \<in> set (map fst fwds) then Some (shimOf n) else map_of ?s1 n)"
    using shimCommands_ok [OF ok, of ?s1 "map fst fwds"] by blast
  obtain s3 where s3: "shimCommand ok sudoCommandName (Some s2) = Some s3"
      "map_of s3 = (map_of s2)(sudoCommandName \<mapsto> shimOf sudoCommandName)"
    using shimCommand_ok [OF ok] by blast
  have "sf_shims (snd (tickReconcileSession pe cmds m ok sess files)) = Some s3"
    using ok old res s2(1) s3(1)
    by (simp add: tickReconcileSession_def Let_def writeSessionConnectionFile_def)
  moreover have "map_of s3 n = (if n = sudoCommandName \<or> map_of fwds n \<noteq> None then Some (shimOf n) else None)" for n
  proof -
    have "map_of ?s1 n = None" if "n \<noteq> sudoCommandName" "map_of fwds n = None"
    proof (cases "n \<in> fst ` set old")
      case True
      then have "n \<in> set ?del" using that by auto
      then show ?thesis by (simp only: map_of_filter_keys) simp
    next
      case False
      then show ?thesis by (simp only: map_of_filter_keys) (simp add: map_of_eq_None_iff)
    qed
    moreover have "n \<in> set (map fst fwds) \<longleftrightarrow> map_of fwds n \<noteq> None" by (simp add: map_of_eq_None_iff)
    ultimately show ?thesis using s2(2) [of n] s3(2) by simp
  qed
  ultimately show ?thesis by blast
qed


lemma forwardIntents_Some:
  assumes "'''' \<notin> set avail"
  shows "\<exists>fwds. forwardIntents connName c (localRemoteCommands avail) is acc = Some fwds"
  using assms
proof (induction "is" arbitrary: acc)
  case (Cons i "is")
  then show ?case using localRemoteCommands_table [of avail "fi_Name i" "''''"] by (auto split: option.splits)
qed simp

lemma forwardDestinations_fails:
  assumes "(dest, is) \<in> set ds" and "ConnectionByName m dest = Inl e" and "\<And>c. '''' \<notin> set (availableCommands cmds m c)"
  shows "\<exists>e. forwardDestinations cmds m ds acc = Inl e"
  using assms
proof (induction cmds m ds acc rule: forwardDestinations.induct)
  case (2 cmds m destination intents rest acc)
  show ?case
  proof (cases "ConnectionByName m destination")
    case (Inr c)
    then obtain acc' where f: "forwardIntents (cn_name (cm_conn m c)) c (localRemoteCommands (availableCommands cmds m c)) intents acc = Some acc'"
      using forwardIntents_Some 2(4) by blast
    have "(dest, is) \<in> set rest" using 2(2,3) Inr by auto
    then show ?thesis using 2(1) [OF Inr f _ 2(3,4)] Inr f by simp
  qed simp
qed simp

text \<open>
  C36. A single destination that is not connected stops the reconciliation of a session altogether: no shim is added or
  removed, and the forwarded commands and the name of the current connection stay what they were, also for the
  destinations that are connected.
\<close>

theorem one_unavailable_destination_freezes_shims:
  assumes "(dest, is) \<in> set (DesiredForwardingsForSession m sess (resolveSessionConnection pe m sess))"
    and "ConnectionByName m dest = Inl e" and "\<forall>c. '''' \<notin> set (availableCommands cmds m c)"
  shows "tickReconcileSession pe cmds m ok sess files = (sess, files)"
proof -
  obtain e' where "resolveForwardedCommandsForSession cmds m sess (resolveSessionConnection pe m sess) = Inl e'"
    using forwardDestinations_fails [OF assms(1,2)] assms(3) unfolding resolveForwardedCommandsForSession_def by blast
  then show ?thesis unfolding tickReconcileSession_def Let_def by simp
qed

subsection \<open>Pruning\<close>

lemma getOrCreate_sessions:
  "p \<noteq> pid \<Longrightarrow> map_of (sm_sessions (snd (getOrCreateSession env pid mgr))) p = map_of (sm_sessions mgr) p"
  by (auto simp: getOrCreateSession_def Let_def AList.update_conv' split: option.splits prod.splits)

lemma removeSession_sessions:
  "map_of (sm_sessions (removeSession env pid dir mgr)) p = (if p = pid then None else map_of (sm_sessions mgr) p)"
  by (simp add: removeSession_def delete_conv')

lemma ParseUint_bound: "ParseUint s b bits = Some n \<Longrightarrow> n < 2 ^ bits"
  by (auto simp: ParseUint_def split: option.splits if_splits)

lemma of_nat_eq_iff_unat: "n < 2 ^ 64 \<Longrightarrow> of_nat n = (p :: 64 word) \<longleftrightarrow> n = unat p"
proof -
  assume "n < 2 ^ 64"
  then have "unat (of_nat n :: 64 word) = n" by (simp add: unat_of_nat take_bit_nat_eq_self)
  then show "of_nat n = p \<longleftrightarrow> n = unat p" by (auto simp: word_unat_eq_iff)
qed

lemma pruneDir_other:
  assumes "ParseUint dir 10 64 \<noteq> Some (unat p)" and "p \<noteq> 0"
  shows "map_of (sm_sessions (pruneDir env mgr dir)) p = map_of (sm_sessions mgr) p"
proof (cases "ParseUint dir 10 64")
  case (Some n)
  then have "of_nat n \<noteq> p" using assms(1) ParseUint_bound [of dir 10 64 n] of_nat_eq_iff_unat [of n p] by auto
  then show ?thesis
    using Some by (simp add: pruneDir_def removeSession_sessions getOrCreate_sessions)
qed (use assms(2) in \<open>simp add: pruneDir_def removeSession_sessions\<close>)

lemma pruneDir_dead:
  assumes "ParseUint dir 10 64 = Some (unat p)" and "unat p < 2 ^ 63" and "\<not> sv_alive env (unat p)"
  shows "map_of (sm_sessions (pruneDir env mgr dir)) p = None"
  using assms by (simp add: pruneDir_def removeSession_sessions)

lemma prune_absent:
  assumes "\<forall>dir \<in> set dirs. ParseUint dir 10 64 \<noteq> Some (unat p)" and "p \<noteq> 0"
  shows "map_of (sm_sessions (foldl (pruneDir env) mgr dirs)) p = map_of (sm_sessions mgr) p"
  using assms by (induction dirs arbitrary: mgr) (auto simp: pruneDir_other)

lemma prune_dead:
  assumes "unat p < 2 ^ 63" and "\<not> sv_alive env (unat p)" and "p \<noteq> 0"
    and "map_of (sm_sessions mgr) p = None \<or> (\<exists>dir \<in> set dirs. ParseUint dir 10 64 = Some (unat p))"
  shows "map_of (sm_sessions (foldl (pruneDir env) mgr dirs)) p = None"
  using assms(4)
proof (induction dirs arbitrary: mgr)
  case (Cons dir dirs)
  have "map_of (sm_sessions (pruneDir env mgr dir)) p = None \<or> (\<exists>d \<in> set dirs. ParseUint d 10 64 = Some (unat p))"
    using Cons.prems pruneDir_dead [OF _ assms(1,2), of dir mgr] pruneDir_other [OF _ assms(3), of dir env mgr]
    by (cases "ParseUint dir 10 64 = Some (unat p)") auto
  then show ?case using Cons.IH by simp
qed simp

text \<open>
  C35. Pruning follows the directories on disk and nothing else: a session whose process is gone leaves the table when
  there is a directory of its number, but a session without a directory stays, whether its process runs or not.
\<close>

theorem prune_follows_the_directories:
  assumes "sv_readRoot env" and "p \<noteq> 0"
  shows "((\<exists>dir \<in> fst ` set (sm_files mgr). ParseUint dir 10 64 = Some (unat p)) \<longrightarrow>
           unat p < 2 ^ 63 \<longrightarrow> \<not> sv_alive env (unat p) \<longrightarrow> map_of (sm_sessions (tickPruneSessions env mgr)) p = None) \<and>
         ((\<forall>dir \<in> fst ` set (sm_files mgr). ParseUint dir 10 64 \<noteq> Some (unat p)) \<longrightarrow>
           map_of (sm_sessions (tickPruneSessions env mgr)) p = map_of (sm_sessions mgr) p)"
  using assms prune_absent [of "map fst (sm_files mgr)" p env mgr] prune_dead [of p env mgr "map fst (sm_files mgr)"]
  by (auto simp: tickPruneSessions_def)

subsection \<open>A concrete session\<close>

definition sampleConn :: Connection where
  "sampleConn = (newConnection 0 ''dev'' ''/a'' ''/r'' False)\<lparr>cn_fwdList :=
     [\<lparr>fi_Name = ''make'', fi_Prefix = False, fi_Global = False\<rparr>, \<lparr>fi_Name = ''gcc'', fi_Prefix = True, fi_Global = True\<rparr>]\<rparr>"

definition sampleManager :: "ConnectionState \<Rightarrow> ConnectionManager" where
  "sampleManager st =
     (NewConnectionManager None)\<lparr>cm_connections := [(''dev'', 0)], cm_conn := (\<lambda>_. sampleConn), cm_nextConn := 1,
       cm_daemon := (\<lambda>_. nilDaemon\<lparr>dm_state := st\<rparr>), cm_nextDaemon := 1\<rparr>"

definition sampleSession :: Session where
  "sampleSession = \<lparr>ss_pid = 7, ss_desiredFwds = [], ss_actualFwds = [], ss_dir = ''/s/7'', ss_shimPath = ''/s/7/shims'',
     ss_cwd = ''/a/b'', ss_pinnedConnection = ''''\<rparr>"

definition sampleFiles :: session_files where
  "sampleFiles = \<lparr>sf_shims = Some [(''old'', ''x''), (''make'', ''y'')], sf_current = None, sf_cwd = None\<rparr>"

definition samplePaths :: path_env where
  "samplePaths = \<lparr>pe_evalSymlinks = Some, pe_getwd = Some ''/'', pe_writeOk = True\<rparr>"

definition sampleCommands :: commands_env where
  "sampleCommands = (\<lambda>_. ([''/usr/bin/make'', ''/usr/bin/gcc''], \<lambda>_. []))"

lemma sample_forwardings:
  "resolveForwardedCommandsForSession sampleCommands (sampleManager ConnectionStateConnected) sampleSession
     (resolveSessionConnection samplePaths (sampleManager ConnectionStateConnected) sampleSession) =
   Inr [(''make'', \<lparr>fc_conn = 0, fc_path = ''/usr/bin/make''\<rparr>), (''dev-gcc'', \<lparr>fc_conn = 0, fc_path = ''/usr/bin/gcc''\<rparr>)]"
  by code_simp


theorem one_unavailable_destination_freezes_shims_witness:
  "tickReconcileSession samplePaths sampleCommands (sampleManager ConnectionStateReconnecting) (\<lambda>_. True) sampleSession sampleFiles
     = (sampleSession, sampleFiles)"
proof (rule one_unavailable_destination_freezes_shims [of "''dev''"])
  show "(''dev'', [\<lparr>fi_Name = ''make'', fi_Prefix = False, fi_Global = False\<rparr>, \<lparr>fi_Name = ''gcc'', fi_Prefix = True, fi_Global = True\<rparr>])
      \<in> set (DesiredForwardingsForSession (sampleManager ConnectionStateReconnecting) sampleSession
          (resolveSessionConnection samplePaths (sampleManager ConnectionStateReconnecting) sampleSession))"
    by code_simp
  show "ConnectionByName (sampleManager ConnectionStateReconnecting) ''dev'' =
      Inl (CannotUseConnectionInState ConnectionStateReconnecting)"
    by code_simp
  show "\<forall>c. '''' \<notin> set (availableCommands sampleCommands (sampleManager ConnectionStateReconnecting) c)"
    by (simp add: availableCommands_def sampleCommands_def cn_AvailableCommands_def sampleManager_def)
qed

definition sampleEnv :: sess_env where
  "sampleEnv = \<lparr>sv_env = (\<lambda>_. ''''), sv_userHome = Some ''/home/u'', sv_ok = (\<lambda>_ _. True), sv_readRoot = True,
     sv_alive = (\<lambda>_. False)\<rparr>"

definition sampleTable :: SessionManager where
  "sampleTable = \<lparr>sm_sessions = [(7, sampleSession), (8, sampleSession\<lparr>ss_pid := 8\<rparr>)], sm_files = [(''7'', sampleFiles)]\<rparr>"

theorem prune_follows_the_directories_witness:
  "map_of (sm_sessions (tickPruneSessions sampleEnv sampleTable)) 7 = None \<and>
   map_of (sm_sessions (tickPruneSessions sampleEnv sampleTable)) 8 = Some (sampleSession\<lparr>ss_pid := 8\<rparr>)"
proof -
  have parse: "ParseUint ''7'' 10 64 = Some 7"
    by (simp add: ParseUint_def parse_digits_def char_digit_def)
  have "map_of (sm_sessions (tickPruneSessions sampleEnv sampleTable)) 7 = None"
    using prune_follows_the_directories [of sampleEnv 7 sampleTable] parse by (simp add: sampleEnv_def sampleTable_def)
  moreover have "map_of (sm_sessions (tickPruneSessions sampleEnv sampleTable)) 8 = map_of (sm_sessions sampleTable) 8"
    using prune_follows_the_directories [of sampleEnv 8 sampleTable] parse by (simp add: sampleEnv_def sampleTable_def)
  ultimately show ?thesis by (simp add: sampleTable_def)
qed

end
