(* ===== verification/Gitignore.thy ===== *)
theory Gitignore
  imports GoPath
begin

text \<open>
  Translation of ignore rules (\<^verbatim>\<open>pkg/gitignore.go\<close>). The parser of \<^verbatim>\<open>.gitignore\<close> files and the ignorer that
  evaluates a list of patterns belong to other packages and are arguments.
\<close>

subsection \<open>Definitions\<close>

definition gitignorePatternToMutagen :: "string \<Rightarrow> string" where
  "gitignorePatternToMutagen pattern =
     (if HasSuffix pattern ''/**'' then pattern @ ''/*''
      else if HasSuffix pattern ''/**/'' then pattern @ ''*/''
      else pattern)"

text \<open>\<open>file\<close> is the result of reading the file, \<open>parse\<close> the third-party parser; \<open>None\<close> is the nil slice.\<close>

definition parseGitignoreToMutagenIgnores :: "(string \<Rightarrow> string list) \<Rightarrow> string option \<Rightarrow> string list option" where
  "parseGitignoreToMutagenIgnores parse contents =
     map_option (\<lambda>rd. map gitignorePatternToMutagen (parse rd)) contents"

fun includeNegations :: "string list \<Rightarrow> string list" where
  "includeNegations [] = []"
| "includeNegations (inc # incs) =
     (let i = TrimPrefix inc ''!'' in
      if i = '''' then includeNegations incs
      else gitignorePatternToMutagen (CHR ''!'' # i) # includeNegations incs)"

definition applySyncIncludes :: "string list \<Rightarrow> string list \<Rightarrow> string list" where
  "applySyncIncludes ignores includes =
     (if includes = [] then ignores else ignores @ includeNegations includes)"

definition isGlob :: "string \<Rightarrow> bool" where
  "isGlob s \<longleftrightarrow> (\<exists>c \<in> set s. c \<in> {CHR ''*'', CHR ''?'', CHR ''['', CHR ''{''})"

definition staticAncestorDirs :: "string \<Rightarrow> string list" where
  "staticAncestorDirs pattern =
     (let p = TrimSuffix (TrimPrefix (TrimPrefix pattern ''!'') ''/'') ''/'' in
      if p = '''' then []
      else
        let segs = Split slash p;
            limit0 = length (takeWhile (\<lambda>s. \<not> isGlob s) segs);
            limit = (if limit0 = length segs then limit0 - 1 else limit0)
        in map (\<lambda>i. Join [slash] (take i segs)) [1..<limit + 1])"

text \<open>
  \<open>newIgnorer\<close> builds an ignorer from patterns, which tells whether a directory is ignored outright;
  \<open>None\<close> when the patterns are malformed.
\<close>

definition shadowedSyncIncludes ::
    "(string list \<Rightarrow> (string \<Rightarrow> bool) option) \<Rightarrow> string list \<Rightarrow> string list \<Rightarrow> string list" where
  "shadowedSyncIncludes newIgnorer ignores includes =
     (if includes = [] then []
      else
        (case newIgnorer ignores of
           None \<Rightarrow> []
         | Some ignored \<Rightarrow> filter (\<lambda>inc. list_ex ignored (staticAncestorDirs inc)) includes))"

subsection \<open>What the translation gives\<close>

text \<open>No translated pattern ends in a bare double star below a directory.\<close>

lemma translated_suffix:
  "\<not> HasSuffix (gitignorePatternToMutagen p) ''/**''" "\<not> HasSuffix (gitignorePatternToMutagen p) ''/**/''"
  by (auto simp: gitignorePatternToMutagen_def HasSuffix_iff append_eq_append_conv2 append_eq_Cons_conv Cons_eq_append_conv)

lemma translation_extends: "\<exists>suf. gitignorePatternToMutagen p = p @ suf"
  by (simp add: gitignorePatternToMutagen_def)

lemma includeNegations_negate:
  "p \<in> set (includeNegations incs) \<Longrightarrow> \<exists>q. q \<noteq> '''' \<and> (\<exists>suf. p = CHR ''!'' # q @ suf) \<and>
     (q \<in> set incs \<or> CHR ''!'' # q \<in> set incs)"
proof (induction incs)
  case (Cons inc incs)
  let ?i = "TrimPrefix inc ''!''"
  have "?i = inc \<or> CHR ''!'' # ?i = inc"
    by (auto simp: TrimPrefix_def HasPrefix_iff)
  then show ?case
    using Cons translation_extends [of "CHR ''!'' # ?i"] by (auto simp: Let_def split: if_splits)
qed simp

lemma staticAncestorDirs_prefix:
  assumes "d \<in> set (staticAncestorDirs pattern)"
  shows "\<exists>k. d = Join [slash] (take k (Split slash (TrimSuffix (TrimPrefix (TrimPrefix pattern ''!'') ''/'') ''/'')))
             \<and> 1 \<le> k \<and> (\<forall>s \<in> set (take k (Split slash (TrimSuffix (TrimPrefix (TrimPrefix pattern ''!'') ''/'') ''/''))).
                            \<not> isGlob s)"
proof -
  let ?segs = "Split slash (TrimSuffix (TrimPrefix (TrimPrefix pattern ''!'') ''/'') ''/'')"
  obtain k where k: "d = Join [slash] (take k ?segs)" "1 \<le> k" "k \<le> length (takeWhile (\<lambda>s. \<not> isGlob s) ?segs)"
    using assms by (auto simp: staticAncestorDirs_def Let_def split: if_splits)
  have "take k ?segs = take k (takeWhile (\<lambda>s. \<not> isGlob s) ?segs)"
    using k(3) by (metis takeWhile_eq_take take_take min.absorb1)
  then have "\<forall>s \<in> set (take k ?segs). \<not> isGlob s"
    by (metis in_set_takeD set_takeWhileD)
  then show ?thesis
    using k by blast
qed

end
