(* ===== verification/Synchronization.thy ===== *)
theory Synchronization
  imports Connection Gitignore "HOL-Library.Multiset" "HOL-Library.List_Lexorder" "HOL-Library.Char_ord"
begin

text \<open>
  File synchronisation (\<^verbatim>\<open>pkg/synchronization.go\<close> and the synchronisation part of \<^verbatim>\<open>pkg/connection.go\<close>): source
  directories, permission modes, and the reconciliation of an intent with the sessions of the
  synchronisation engine. The engine's table of sessions is explicit state; whether its operations,
  the remote shell and the file system succeed is an argument.
\<close>

unbundle bit_operations_syntax

subsection \<open>Source directories\<close>

datatype sync_error =
    SyncSourceRequired
  | SyncSourceNoRoot string
  | SyncSourceIsRoot string
  | SyncOverlap string string
  | SyncModeEmpty
  | SyncModeInvalid string
  | SyncModeZero
  | SyncModeNotPermission
  | SyncModeExecutable
  | SyncRemoteCommandFailed
  | SyncDestinationConflict string string string
  | SyncNotAvailable
  | SyncLookupFailed
  | SyncAlphaRelative string
  | SyncTerminateFailed
  | SyncResumeFailed
  | SyncCreateFailed
  | SyncConnectionClosed

definition resolveSyncSourceDir :: "string \<Rightarrow> string \<Rightarrow> string" where
  "resolveSyncSourceDir cwd sourceDir =
     (if sourceDir = '''' then cwd
      else if IsAbs sourceDir then Clean sourceDir
      else PathJoin [cwd, sourceDir])"

definition canonicalizeSyncFromLocal :: "string \<Rightarrow> string \<Rightarrow> sync_error + string" where
  "canonicalizeSyncFromLocal localRoot fromLocal =
     (if fromLocal = '''' then Inl SyncSourceRequired
      else if \<not> IsAbs fromLocal \<and> localRoot = '''' then Inl (SyncSourceNoRoot fromLocal)
      else
        let resolved = Clean (if IsAbs fromLocal then fromLocal else PathJoin [localRoot, fromLocal]) in
        if resolved = Dir resolved then Inl (SyncSourceIsRoot fromLocal)
        else Inr resolved)"

fun checkSyncOverlap :: "(string \<times> activeSync) list \<Rightarrow> string \<Rightarrow> sync_error option" where
  "checkSyncOverlap [] fromLocal = None"
| "checkSyncOverlap ((existing, _) # active) fromLocal =
     (if existing = fromLocal then checkSyncOverlap active fromLocal
      else if hasPathPrefix fromLocal existing \<noteq> None then Some (SyncOverlap fromLocal existing)
      else if hasPathPrefix existing fromLocal \<noteq> None then Some (SyncOverlap fromLocal existing)
      else checkSyncOverlap active fromLocal)"

definition canonicalizeSyncIntentConfigs ::
    "string \<Rightarrow> SynchronizationIntent list \<Rightarrow> SynchronizationIntent list" where
  "canonicalizeSyncIntentConfigs localRoot confs =
     map (\<lambda>conf. case canonicalizeSyncFromLocal localRoot (si_FromLocal conf) of
                     Inl _ \<Rightarrow> conf
                   | Inr canonical \<Rightarrow> conf\<lparr>si_FromLocal := canonical\<rparr>) confs"

subsection \<open>Names of sessions\<close>

definition graftSyncNamePrefix :: string where
  "graftSyncNamePrefix = ''graft-''"

text \<open>\<open>sha256\<close> is the hash function.\<close>

definition syncSessionName :: "(string \<Rightarrow> byte list) \<Rightarrow> string \<Rightarrow> SynchronizationIntent \<Rightarrow> string" where
  "syncSessionName sha256 connName intent =
     graftSyncNamePrefix
     @ EncodeToString (take 10 (sha256 (connName @ [CHR 0x00] @ Clean (si_FromLocal intent)
                                        @ [CHR 0x00] @ Clean (si_ToRemote intent))))"

definition isGraftSyncName :: "string \<Rightarrow> bool" where
  "isGraftSyncName name = HasPrefix name graftSyncNamePrefix"

definition gitDirName :: string where
  "gitDirName = ''.git''"

definition gitReplicaIntent :: "SynchronizationIntent \<Rightarrow> SynchronizationIntent" where
  "gitReplicaIntent intent =
     \<lparr>si_FromLocal = PathJoin [si_FromLocal intent, gitDirName],
      si_ToRemote = si_ToRemote intent @ ''/'' @ gitDirName,
      si_SyncGit = False, si_SyncInclude = [], si_DefaultFileMode = '''', si_DefaultDirectoryMode = ''''\<rparr>"

definition gitReplicaIgnores :: "string list" where
  "gitReplicaIgnores = [''*.lock'', ''objects/**/tmp_*'', ''gc.pid'']"

subsection \<open>Permission modes\<close>

definition syncDefaultFileMode :: nat where
  "syncDefaultFileMode = 420"

definition syncDefaultDirectoryMode :: nat where
  "syncDefaultDirectoryMode = 493"

definition parseSyncMode :: "string \<Rightarrow> sync_error + nat" where
  "parseSyncMode s =
     (if s = '''' then Inl SyncModeEmpty
      else
        let digits = TrimPrefix (TrimPrefix s ''0o'') ''0O'' in
        (case ParseUint digits 8 32 of
           None \<Rightarrow> Inl (SyncModeInvalid s)
         | Some parsed \<Rightarrow> Inr parsed))"

text \<open>The checks of the engine's \<^verbatim>\<open>core\<close> package, in its portable permissions mode.\<close>

definition EnsureDefaultFileModeValid :: "nat \<Rightarrow> sync_error option" where
  "EnsureDefaultFileModeValid mode =
     (if mode = 0 then Some SyncModeZero
      else if mode AND 511 \<noteq> mode then Some SyncModeNotPermission
      else if mode AND 73 \<noteq> 0 then Some SyncModeExecutable
      else None)"

definition EnsureDefaultDirectoryModeValid :: "nat \<Rightarrow> sync_error option" where
  "EnsureDefaultDirectoryModeValid mode =
     (if mode = 0 then Some SyncModeZero
      else if mode AND 511 \<noteq> mode then Some SyncModeNotPermission
      else None)"

definition validMode :: "(nat \<Rightarrow> sync_error option) \<Rightarrow> string \<Rightarrow> sync_error + nat" where
  "validMode ensure s =
     (case parseSyncMode s of
        Inl e \<Rightarrow> Inl e
      | Inr mode \<Rightarrow> (case ensure mode of Some e \<Rightarrow> Inl e | None \<Rightarrow> Inr mode))"

definition validateSyncModes :: "string \<Rightarrow> string \<Rightarrow> sync_error option" where
  "validateSyncModes fileMode dirMode =
     (case (if fileMode \<noteq> '''' then validMode EnsureDefaultFileModeValid fileMode else Inr 0) of
        Inl e \<Rightarrow> Some e
      | Inr _ \<Rightarrow>
          (case (if dirMode \<noteq> '''' then validMode EnsureDefaultDirectoryModeValid dirMode else Inr 0) of
             Inl e \<Rightarrow> Some e
           | Inr _ \<Rightarrow> None))"

definition syncModesCompatible :: "string \<Rightarrow> string \<Rightarrow> string \<Rightarrow> string \<Rightarrow> bool" where
  "syncModesCompatible existingFileMode existingDirMode desiredFileMode desiredDirMode \<longleftrightarrow>
     (desiredFileMode = '''' \<or> desiredFileMode = existingFileMode) \<and>
     (desiredDirMode = '''' \<or> desiredDirMode = existingDirMode)"

definition syncIncludesCompatible :: "string list \<Rightarrow> string list \<Rightarrow> bool" where
  "syncIncludesCompatible existing desired =
     (if length desired = 0 then True
      else if length existing \<noteq> length desired then False
      else sort existing = sort desired)"

text \<open>The beta configuration: the file mode and the directory mode.\<close>

definition syncModesConfiguration :: "SynchronizationIntent \<Rightarrow> nat \<Rightarrow> nat \<Rightarrow> sync_error + nat \<times> nat" where
  "syncModesConfiguration intent defaultFile defaultDir =
     (case (if si_DefaultFileMode intent \<noteq> ''''
            then validMode EnsureDefaultFileModeValid (si_DefaultFileMode intent) else Inr defaultFile) of
        Inl e \<Rightarrow> Inl e
      | Inr fileMode \<Rightarrow>
          (case (if si_DefaultDirectoryMode intent \<noteq> ''''
                 then validMode EnsureDefaultDirectoryModeValid (si_DefaultDirectoryMode intent)
                 else Inr defaultDir) of
             Inl e \<Rightarrow> Inl e
           | Inr dirMode \<Rightarrow> Inr (fileMode, dirMode)))"

definition syncBetaConfiguration :: "SynchronizationIntent \<Rightarrow> sync_error + nat \<times> nat" where
  "syncBetaConfiguration intent = syncModesConfiguration intent syncDefaultFileMode syncDefaultDirectoryMode"

definition gitReplicaBetaConfiguration :: "SynchronizationIntent \<Rightarrow> sync_error + nat \<times> nat" where
  "gitReplicaBetaConfiguration intent = syncModesConfiguration intent 0 0"

fun octal :: "nat \<Rightarrow> string" where
  "octal n = (if n < 8 then [digit_char n] else octal (n div 8) @ [digit_char (n mod 8)])"

declare octal.simps [simp del]

definition makeSyncRootCommand :: "string \<Rightarrow> nat \<Rightarrow> string" where
  "makeSyncRootCommand remotePath dirMode =
     ''test -d '' @ remotePath @ '' || (mkdir -p '' @ remotePath @ '' && chmod '' @ octal dirMode @ '' ''
     @ remotePath @ '')''"

subsection \<open>Sessions of the engine\<close>

record sync_session =
  ss_id :: string
  ss_name :: string
  ss_paused :: bool
  ss_ignores :: "string list"
  ss_fileMode :: nat
  ss_dirMode :: nat
  ss_alpha :: string
  ss_host :: string
  ss_beta :: string
  ss_replica :: bool

text \<open>
  What the outside answers: whether the engine lists, terminates, resumes and pauses sessions, the
  identifier it gives a session it creates, what a command on the remote host prints, whether the
  transport is up, the patterns of a directory's ignore file, and whether a path is a directory.
\<close>

record sync_env =
  se_sha256 :: "string \<Rightarrow> byte list"
  se_list :: bool
  se_terminate :: "string \<Rightarrow> bool"
  se_resume :: "string \<Rightarrow> bool"
  se_pause :: "string \<Rightarrow> bool"
  se_create :: "string \<Rightarrow> string option"
  se_exec :: "string \<Rightarrow> string option"
  se_connected :: bool
  se_gitignore :: "string \<Rightarrow> string list option"
  se_newIgnorer :: "string list \<Rightarrow> (string \<Rightarrow> bool) option"
  se_isDir :: "string \<Rightarrow> bool"

definition findExistingSessionByName :: "sync_session list \<Rightarrow> string \<Rightarrow> sync_session option" where
  "findExistingSessionByName sessions name = List.find (\<lambda>s. ss_name s = name) sessions"

definition syncSessionConfigStale :: "sync_session \<Rightarrow> string list \<Rightarrow> nat \<times> nat \<Rightarrow> bool" where
  "syncSessionConfigStale s ignores beta \<longleftrightarrow>
     ss_ignores s \<noteq> ignores \<or> ss_fileMode s \<noteq> fst beta \<or> ss_dirMode s \<noteq> snd beta"

definition set_paused :: "bool \<Rightarrow> string \<Rightarrow> sync_session list \<Rightarrow> sync_session list" where
  "set_paused p i sessions = map (\<lambda>s. if ss_id s = i then s\<lparr>ss_paused := p\<rparr> else s) sessions"

definition pauseSession :: "sync_env \<Rightarrow> pause_func \<Rightarrow> sync_session list \<Rightarrow> sync_session list" where
  "pauseSession env f sessions =
     (case f of
        PauseNothing \<Rightarrow> sessions
      | PauseSession i \<Rightarrow> if se_pause env i then set_paused True i sessions else sessions)"

definition runPauses :: "sync_env \<Rightarrow> pause_func list \<Rightarrow> sync_session list \<Rightarrow> sync_session list" where
  "runPauses env fs sessions = foldl (\<lambda>ss f. pauseSession env f ss) sessions fs"

definition createSession ::
    "sync_env \<Rightarrow> sync_session list \<Rightarrow> string \<Rightarrow> string \<Rightarrow> string \<Rightarrow> string \<Rightarrow> bool \<Rightarrow> string list \<Rightarrow> nat \<times> nat
     \<Rightarrow> (sync_error + string) \<times> sync_session list" where
  "createSession env sessions name alpha host beta replica ignores betaConfig =
     (case se_create env name of
        None \<Rightarrow> (Inl SyncCreateFailed, sessions)
      | Some i \<Rightarrow>
          (Inr i,
           sessions @ [\<lparr>ss_id = i, ss_name = name, ss_paused = False, ss_ignores = ignores,
                        ss_fileMode = fst betaConfig, ss_dirMode = snd betaConfig, ss_alpha = alpha,
                        ss_host = host, ss_beta = beta, ss_replica = replica\<rparr>]))"

definition establishSession ::
    "sync_env \<Rightarrow> sync_session list \<Rightarrow> string \<Rightarrow> string \<Rightarrow> string \<Rightarrow> string \<Rightarrow> bool \<Rightarrow> string list \<Rightarrow> nat \<times> nat
     \<Rightarrow> (sync_error + string) \<times> sync_session list" where
  "establishSession env sessions name alpha host beta replica ignores betaConfig =
     (if \<not> se_list env then (Inl SyncLookupFailed, sessions)
      else if \<not> IsAbs alpha then (Inl (SyncAlphaRelative alpha), sessions)
      else
        (case findExistingSessionByName sessions name of
           None \<Rightarrow> createSession env sessions name alpha host beta replica ignores betaConfig
         | Some s \<Rightarrow>
             if syncSessionConfigStale s ignores betaConfig then
               if \<not> se_terminate env (ss_id s) then (Inl SyncTerminateFailed, sessions)
               else createSession env (filter (\<lambda>t. ss_id t \<noteq> ss_id s) sessions)
                      name alpha host beta replica ignores betaConfig
             else if ss_paused s then
               if \<not> se_resume env (ss_id s) then (Inl SyncResumeFailed, sessions)
               else (Inr (ss_id s), set_paused False (ss_id s) sessions)
             else (Inr (ss_id s), sessions)))"

subsection \<open>Establishing a synchronisation\<close>

text \<open>
  \<^verbatim>\<open>recordSync\<close> is the only write while \<^verbatim>\<open>syncMu\<close> is held. \<open>closes\<close> tells whether the connection was closed
  since its state was read, which does not wait for that lock.
\<close>

definition recordSync ::
    "sync_env \<Rightarrow> bool \<Rightarrow> Connection \<Rightarrow> sync_session list \<Rightarrow> string \<Rightarrow> activeSync
     \<Rightarrow> sync_error option \<times> Connection \<times> sync_session list" where
  "recordSync env closes conn sessions fromLocal entry =
     (let conn1 = (if closes then fst (cn_Close conn) else conn);
          sessions1 = (if closes then runPauses env (snd (cn_Close conn)) sessions else sessions) in
      if cn_closed conn1 then
        (Some SyncConnectionClosed, conn1,
         runPauses env (List.map_filter id [as_closeFunc entry, as_gitCloseFunc entry]) sessions1)
      else
        (None, conn1\<lparr>cn_synchronizations := AList.update fromLocal entry (cn_synchronizations conn1)\<rparr>, sessions1))"

definition establishGitReplica ::
    "sync_env \<Rightarrow> string \<Rightarrow> sync_session list \<Rightarrow> SynchronizationIntent
     \<Rightarrow> (sync_error + pause_func) \<times> sync_session list" where
  "establishGitReplica env connName sessions intent =
     (let gitIntent = gitReplicaIntent intent in
      if \<not> se_isDir env (si_FromLocal gitIntent) then (Inr PauseNothing, sessions)
      else
        (case gitReplicaBetaConfiguration intent of
           Inl e \<Rightarrow> (Inl e, sessions)
         | Inr beta \<Rightarrow>
             let replicaDirMode = (if snd beta = 0 then 448 else snd beta) in
             (case se_exec env (makeSyncRootCommand (si_ToRemote gitIntent) replicaDirMode) of
                None \<Rightarrow> (Inl SyncRemoteCommandFailed, sessions)
              | Some _ \<Rightarrow>
                  (case establishSession env sessions (syncSessionName (se_sha256 env) connName gitIntent)
                          (si_FromLocal gitIntent) connName (si_ToRemote gitIntent) True gitReplicaIgnores beta of
                     (Inl e, ss) \<Rightarrow> (Inl e, ss)
                   | (Inr i, ss) \<Rightarrow> (Inr (PauseSession i), ss)))))"

definition applyGitReplicaFlip ::
    "sync_env \<Rightarrow> bool \<Rightarrow> Connection \<Rightarrow> sync_session list \<Rightarrow> SynchronizationIntent \<Rightarrow> activeSync
     \<Rightarrow> (sync_error + string list) \<times> Connection \<times> sync_session list" where
  "applyGitReplicaFlip env closes conn sessions intent existing =
     (let finish = (\<lambda>entry ss.
        case recordSync env closes conn ss (si_FromLocal intent) (entry\<lparr>as_syncGit := si_SyncGit intent\<rparr>) of
          (Some e, c, ss') \<Rightarrow> (Inl e, c, ss')
        | (None, c, ss') \<Rightarrow> (Inr [], c, ss')) in
      if si_SyncGit intent then
        if \<not> se_connected env then (Inl SyncNotAvailable, conn, sessions)
        else
          (case establishGitReplica env (cn_name conn) sessions intent of
             (Inl e, ss) \<Rightarrow> (Inl e, conn, ss)
           | (Inr f, ss) \<Rightarrow> finish (existing\<lparr>as_gitCloseFunc := Some f\<rparr>) ss)
      else
        finish (existing\<lparr>as_gitCloseFunc := None\<rparr>)
          (case as_gitCloseFunc existing of None \<Rightarrow> sessions | Some f \<Rightarrow> pauseSession env f sessions))"

definition configMatches :: "activeSync \<Rightarrow> SynchronizationIntent \<Rightarrow> bool" where
  "configMatches existing intent \<longleftrightarrow>
     syncModesCompatible (as_defaultFileMode existing) (as_defaultDirectoryMode existing)
       (si_DefaultFileMode intent) (si_DefaultDirectoryMode intent) \<and>
     syncIncludesCompatible (as_syncInclude existing) (si_SyncInclude intent)"

definition inheritIntent :: "(string \<times> activeSync) list \<Rightarrow> SynchronizationIntent \<Rightarrow> SynchronizationIntent" where
  "inheritIntent syncs intent =
     (case map_of syncs (si_FromLocal intent) of
        None \<Rightarrow> intent
      | Some existing \<Rightarrow>
          let i1 = inheritModesInto existing intent in
          if length (si_SyncInclude i1) = 0 then i1\<lparr>si_SyncInclude := as_syncInclude existing\<rparr> else i1)"

text \<open>The part after the checks: the primary session, its record, and the replica.\<close>

definition establishPrimary ::
    "sync_env \<Rightarrow> bool \<Rightarrow> bool \<Rightarrow> Connection \<Rightarrow> sync_session list \<Rightarrow> SynchronizationIntent
     \<Rightarrow> (sync_error + string list) \<times> Connection \<times> sync_session list" where
  "establishPrimary env closes1 closes2 conn sessions intent =
     (let ignores = applySyncIncludes
            (case se_gitignore env (si_FromLocal intent) of None \<Rightarrow> [] | Some ps \<Rightarrow> map gitignorePatternToMutagen ps)
            (si_SyncInclude intent);
          shadowed = shadowedSyncIncludes (se_newIgnorer env) ignores (si_SyncInclude intent) in
      case syncBetaConfiguration intent of
        Inl e \<Rightarrow> (Inl e, conn, sessions)
      | Inr beta \<Rightarrow>
          if se_exec env (makeSyncRootCommand (si_ToRemote intent) (snd beta)) = None
          then (Inl SyncRemoteCommandFailed, conn, sessions)
          else if \<not> se_connected env then (Inl SyncNotAvailable, conn, sessions)
          else
            (case establishSession env sessions (syncSessionName (se_sha256 env) (cn_name conn) intent)
                    (si_FromLocal intent) (cn_name conn) (si_ToRemote intent) False ignores beta of
               (Inl e, ss) \<Rightarrow> (Inl e, conn, ss)
             | (Inr i, ss) \<Rightarrow>
                 let ss1 =
                   (case map_of (cn_synchronizations conn) (si_FromLocal intent) of
                      None \<Rightarrow> ss
                    | Some existing \<Rightarrow>
                        (case as_gitCloseFunc existing of
                           Some f \<Rightarrow> if \<not> si_SyncGit intent then pauseSession env f ss else ss
                         | None \<Rightarrow> ss));
                   entry = \<lparr>as_destination = si_ToRemote intent, as_closeFunc = Some (PauseSession i),
                            as_syncGit = False, as_gitCloseFunc = None,
                            as_defaultFileMode = si_DefaultFileMode intent,
                            as_defaultDirectoryMode = si_DefaultDirectoryMode intent,
                            as_syncInclude = si_SyncInclude intent\<rparr> in
                 (case recordSync env closes1 conn ss1 (si_FromLocal intent) entry of
                    (Some e, c, ss2) \<Rightarrow> (Inl e, c, ss2)
                  | (None, c, ss2) \<Rightarrow>
                      if \<not> si_SyncGit intent then (Inr shadowed, c, ss2)
                      else
                        (case establishGitReplica env (cn_name conn) ss2 intent of
                           (Inl e, ss3) \<Rightarrow> (Inl e, c, ss3)
                         | (Inr f, ss3) \<Rightarrow>
                             (case recordSync env closes2 c ss3 (si_FromLocal intent)
                                     (entry\<lparr>as_syncGit := True, as_gitCloseFunc := Some f\<rparr>) of
                                (Some e, c', ss4) \<Rightarrow> (Inl e, c', ss4)
                              | (None, c', ss4) \<Rightarrow> (Inr shadowed, c', ss4))))))"

definition EstablishSynchronization ::
    "sync_env \<Rightarrow> bool \<Rightarrow> bool \<Rightarrow> Connection \<Rightarrow> sync_session list \<Rightarrow> SynchronizationIntent
     \<Rightarrow> (sync_error + string list) \<times> Connection \<times> sync_session list" where
  "EstablishSynchronization env closes1 closes2 conn sessions syncIntent =
     (case canonicalizeSyncFromLocal (cn_localRoot conn) (si_FromLocal syncIntent) of
        Inl e \<Rightarrow> (Inl e, conn, sessions)
      | Inr canonicalFrom \<Rightarrow>
          (case checkSyncOverlap (cn_synchronizations conn) canonicalFrom of
             Some e \<Rightarrow> (Inl e, conn, sessions)
           | None \<Rightarrow>
               let intent = inheritIntent (cn_synchronizations conn) (syncIntent\<lparr>si_FromLocal := canonicalFrom\<rparr>);
                   active = map_of (cn_synchronizations conn) canonicalFrom in
               if (case active of
                     None \<Rightarrow> False
                   | Some ex \<Rightarrow> as_destination ex = si_ToRemote intent \<and> as_syncGit ex = si_SyncGit intent
                               \<and> configMatches ex intent)
               then (Inr [], conn, sessions)
               else
                 (case se_exec env (''echo '' @ si_ToRemote intent) of
                    None \<Rightarrow> (Inl SyncRemoteCommandFailed, conn, sessions)
                  | Some out \<Rightarrow>
                      let resolved = intent\<lparr>si_ToRemote := TrimSpace (TrimSuffix out [CHR 0x0A])\<rparr> in
                      (case active of
                         None \<Rightarrow> establishPrimary env closes1 closes2 conn sessions resolved
                       | Some ex \<Rightarrow>
                           if as_destination ex \<noteq> si_ToRemote resolved then
                             (Inl (SyncDestinationConflict canonicalFrom (as_destination ex) (si_ToRemote resolved)),
                              conn, sessions)
                           else if configMatches ex resolved then
                             if as_syncGit ex = si_SyncGit resolved then (Inr [], conn, sessions)
                             else applyGitReplicaFlip env closes1 conn sessions resolved ex
                           else establishPrimary env closes1 closes2 conn sessions resolved))))"

subsection \<open>Active synchronisations\<close>

lemma canonicalize_InrD:
  assumes "canonicalizeSyncFromLocal localRoot fromLocal = Inr r"
  shows "Clean r = r" and "r \<noteq> ''/''"
proof -
  have *: "(\<exists>p. r = Clean p) \<and> r \<noteq> Dir r"
    using assms by (auto simp: canonicalizeSyncFromLocal_def Let_def split: if_splits)
  then show "Clean r = r"
    using Clean_idem by auto
  have "Dir ''/'' = ''/''"
    by (simp add: Dir_def Let_def cleanStep_def render_def)
  then show "r \<noteq> ''/''"
    using * by auto
qed

lemma checkSyncOverlap_None:
  "checkSyncOverlap active f = None \<longleftrightarrow> (\<forall>k \<in> fst ` set active. k \<noteq> f \<longrightarrow> \<not> under f k \<and> \<not> under k f)"
  by (induction active f rule: checkSyncOverlap.induct) (auto simp: under_def)

definition sync_ok :: "Connection \<Rightarrow> bool" where
  "sync_ok conn \<longleftrightarrow>
     distinct (map fst (cn_synchronizations conn)) \<and>
     separated (fst ` set (cn_synchronizations conn)) \<and>
     (\<forall>k \<in> fst ` set (cn_synchronizations conn). IsAbs k \<and> Clean k = k \<and> k \<noteq> ''/'')"

lemma sync_ok_Nil: "cn_synchronizations conn = [] \<Longrightarrow> sync_ok conn"
  by (simp add: sync_ok_def separated_def)

lemma sync_ok_update:
  assumes "sync_ok conn" and "checkSyncOverlap (cn_synchronizations conn) f = None"
    and "IsAbs f" and "Clean f = f" and "f \<noteq> ''/''"
  shows "sync_ok (conn\<lparr>cn_synchronizations := AList.update f entry (cn_synchronizations conn)\<rparr>)"
proof -
  have keys: "fst ` set (AList.update f entry (cn_synchronizations conn)) = insert f (fst ` set (cn_synchronizations conn))"
    using dom_update [of f entry "cn_synchronizations conn"] by simp
  have "separated (insert f (fst ` set (cn_synchronizations conn)))"
    using assms(1,2) dirs.apart_insert [of "fst ` set (cn_synchronizations conn)" f]
    unfolding checkSyncOverlap_None sync_ok_def separated_def by metis
  then show ?thesis
    using assms by (auto simp: sync_ok_def keys distinct_update)
qed

lemma recordSync_ok:
  assumes "recordSync env closes conn ss f entry = (r, conn', ss')" and "sync_ok conn"
    and "checkSyncOverlap (cn_synchronizations conn) f = None" and "IsAbs f" and "Clean f = f" and "f \<noteq> ''/''"
  shows "sync_ok conn'"
  using assms sync_ok_update [OF assms(2-6)]
  by (auto simp: recordSync_def cn_Close_def Let_def sync_ok_Nil split: if_splits)

lemma checkSyncOverlap_update:
  "checkSyncOverlap active f = None \<Longrightarrow> checkSyncOverlap (AList.update f entry active) f = None"
  using dom_update [of f entry active] by (auto simp: checkSyncOverlap_None)

lemma recordSync_None:
  "recordSync env closes conn ss f entry = (None, conn', ss') \<Longrightarrow>
     conn' = conn\<lparr>cn_synchronizations := AList.update f entry (cn_synchronizations conn)\<rparr> \<and> ss' = ss"
  by (auto simp: recordSync_def cn_Close_def Let_def split: if_splits)

lemma establishSession_abs: "establishSession env ss n a h b rep ig beta = (Inr i, ss') \<Longrightarrow> IsAbs a"
  by (auto simp: establishSession_def split: if_splits)

text \<open>
  What an operation does to the connection: nothing, closing it, or recording entries for one source
  directory.
\<close>

inductive records :: "string \<Rightarrow> Connection \<Rightarrow> Connection \<Rightarrow> bool" for f where
  keep: "records f c c"
| close: "cn_synchronizations c' = [] \<Longrightarrow> records f c c'"
| entry: "IsAbs f \<Longrightarrow> records f (c\<lparr>cn_synchronizations := AList.update f e (cn_synchronizations c)\<rparr>) c' \<Longrightarrow> records f c c'"

lemma records_ok:
  assumes "records f c c'" and "sync_ok c" and "checkSyncOverlap (cn_synchronizations c) f = None"
    and "Clean f = f" and "f \<noteq> ''/''"
  shows "sync_ok c'"
  using assms
proof (induction rule: records.induct)
  case (entry e c c')
  then show ?case
    using sync_ok_update [of c f e] checkSyncOverlap_update [of "cn_synchronizations c" f e] by simp
qed (auto simp: sync_ok_Nil)

lemma recordSync_records:
  assumes "recordSync env closes c ss f e = (r, c', ss')" and "IsAbs f"
  shows "records f c c'"
proof (cases r)
  case None
  then have "c' = c\<lparr>cn_synchronizations := AList.update f e (cn_synchronizations c)\<rparr>"
    using assms(1) recordSync_None by blast
  then show ?thesis
    using assms(2) by (auto intro: records.intros)
next
  case (Some x)
  then have "c' = c \<or> cn_synchronizations c' = []"
    using assms(1) by (auto simp: recordSync_def cn_Close_def Let_def split: if_splits)
  then show ?thesis
    by (auto intro: records.intros)
qed

lemma establishPrimary_records:
  assumes "establishPrimary env c1 c2 conn ss intent = (r, conn', ss')"
  shows "records (si_FromLocal intent) conn conn'"
proof (cases "conn' = conn")
  case False
  let ?f = "si_FromLocal intent"
  have abs: "IsAbs ?f"
    using assms False by (auto simp: establishPrimary_def Let_def split: sum.splits if_splits prod.splits dest!: establishSession_abs)
  have two: "records ?f conn c2" if "recordSync env a conn x ?f e = (None, c1, y)" "recordSync env b c1 z ?f e' = (q, c2, w)" for a b c1 c2 e e' x y z w q
    using recordSync_records [OF that(2) abs] recordSync_None [OF that(1)] by (auto intro: records.entry [OF abs])
  have one: "records ?f conn c1" if "recordSync env a conn x ?f e = (q, c1, y)" for a c1 e x y q
    by (rule recordSync_records [OF that abs])
  show ?thesis
    using assms False
    by (auto simp: establishPrimary_def Let_def split: sum.splits if_splits prod.splits option.splits intro: one two)
qed (simp add: records.keep)

lemma applyGitReplicaFlip_records:
  assumes "applyGitReplicaFlip env c1 conn ss intent ex = (r, conn', ss')" and "IsAbs (si_FromLocal intent)"
  shows "records (si_FromLocal intent) conn conn'"
  using assms
  by (auto simp: applyGitReplicaFlip_def Let_def split: sum.splits if_splits prod.splits option.splits
      intro: recordSync_records records.keep)

lemma inheritIntent_FromLocal [simp]: "si_FromLocal (inheritIntent syncs intent) = si_FromLocal intent"
  by (simp add: inheritIntent_def inheritModesInto_def Let_def split: option.split)

lemma EstablishSynchronization_ok:
  assumes "EstablishSynchronization env c1 c2 conn ss intent = (r, conn', ss')" and "sync_ok conn"
  shows "sync_ok conn'"
proof (cases "conn' = conn")
  case False
  then obtain f where f: "canonicalizeSyncFromLocal (cn_localRoot conn) (si_FromLocal intent) = Inr f"
      "checkSyncOverlap (cn_synchronizations conn) f = None"
    using assms(1) by (auto simp: EstablishSynchronization_def split: sum.splits option.splits)
  have "records f conn conn'"
    using assms(1) f False
  proof (cases "map_of (cn_synchronizations conn) f")
    case None
    then show ?thesis
      using assms(1) f False
      by (auto simp: EstablishSynchronization_def Let_def split: option.splits if_splits dest!: establishPrimary_records)
  next
    case (Some ex)
    then have "IsAbs f"
      using assms(2) by (force simp: sync_ok_def dest: map_of_SomeD)
    then show ?thesis
      using assms(1) f False Some
      by (auto simp: EstablishSynchronization_def Let_def split: option.splits if_splits
          dest!: establishPrimary_records applyGitReplicaFlip_records)
  qed
  then show ?thesis
    using records_ok assms(2) f(2) canonicalize_InrD [OF f(1)] by blast
qed (use assms(2) in simp)

subsection \<open>Sessions are unique by name\<close>

abbreviation unique_names :: "sync_session list \<Rightarrow> bool" where
  "unique_names ss \<equiv> distinct (map ss_name ss)"

lemma set_paused_names [simp]: "map ss_name (set_paused p i ss) = map ss_name ss"
  by (induction ss) (auto simp: set_paused_def)

lemma pauseSession_names [simp]: "map ss_name (pauseSession env f ss) = map ss_name ss"
  by (auto simp: pauseSession_def split: pause_func.split)

lemma runPauses_names [simp]: "map ss_name (runPauses env fs ss) = map ss_name ss"
  unfolding runPauses_def by (induction fs arbitrary: ss) auto

lemma createSession_names:
  "createSession env ss n a h b rep ig beta = (r, ss') \<Longrightarrow> unique_names ss \<Longrightarrow> n \<notin> ss_name ` set ss \<Longrightarrow> unique_names ss'"
  by (auto simp: createSession_def split: option.splits)

lemma find_name_None: "findExistingSessionByName ss n = None \<longleftrightarrow> n \<notin> ss_name ` set ss"
  by (auto simp: findExistingSessionByName_def find_None_iff)

lemma find_name_Some: "findExistingSessionByName ss n = Some s \<Longrightarrow> s \<in> set ss \<and> ss_name s = n"
  by (auto simp: findExistingSessionByName_def find_Some_iff)

lemma filtered_names:
  assumes "unique_names ss" and "s \<in> set ss"
  shows "unique_names (filter (\<lambda>t. ss_id t \<noteq> ss_id s) ss)"
    and "ss_name s \<notin> ss_name ` set (filter (\<lambda>t. ss_id t \<noteq> ss_id s) ss)"
  using assms by (auto simp: distinct_map inj_on_def distinct_filter)

lemma establishSession_names:
  assumes "establishSession env ss n a h b rep ig beta = (r, ss')" and "unique_names ss"
  shows "unique_names ss'"
proof (cases "findExistingSessionByName ss n")
  case None
  then have "n \<notin> ss_name ` set ss"
    by (simp add: find_name_None)
  then show ?thesis
    using assms None by (auto simp: establishSession_def split: if_splits intro: createSession_names)
next
  case (Some s)
  note s = find_name_Some [OF Some]
  show ?thesis
    using assms Some s filtered_names [OF assms(2), of s]
    by (auto simp: establishSession_def split: if_splits intro: createSession_names)
qed

lemma recordSync_names: "recordSync env closes c ss f e = (r, c', ss') \<Longrightarrow> map ss_name ss' = map ss_name ss"
  by (auto simp: recordSync_def Let_def split: if_splits)

lemma establishGitReplica_names:
  "establishGitReplica env n ss intent = (r, ss') \<Longrightarrow> unique_names ss \<Longrightarrow> unique_names ss'"
  by (auto simp: establishGitReplica_def Let_def dest: establishSession_names
      split: if_splits sum.splits option.splits prod.splits)

lemma establishPrimary_names:
  assumes "establishPrimary env c1 c2 conn ss intent = (r, conn', ss')" and "unique_names ss"
  shows "unique_names ss'"
  using assms
  by (auto simp: establishPrimary_def Let_def dest!: establishSession_names recordSync_names establishGitReplica_names
      split: if_splits sum.splits option.splits prod.splits)

lemma applyGitReplicaFlip_names:
  "applyGitReplicaFlip env c1 conn ss intent ex = (r, conn', ss') \<Longrightarrow> unique_names ss \<Longrightarrow> unique_names ss'"
  by (auto simp: applyGitReplicaFlip_def Let_def dest!: recordSync_names dest: establishGitReplica_names
      split: if_splits sum.splits option.splits prod.splits)

lemma EstablishSynchronization_names:
  "EstablishSynchronization env c1 c2 conn ss intent = (r, conn', ss') \<Longrightarrow> unique_names ss \<Longrightarrow> unique_names ss'"
  by (auto simp: EstablishSynchronization_def Let_def dest: establishPrimary_names applyGitReplicaFlip_names
      split: if_splits sum.splits option.splits)

subsection \<open>Repeating an intent\<close>

lemma configMatches_of_inherit: "configMatches e (inheritIntent S i) \<Longrightarrow> configMatches e i"
  by (auto simp: configMatches_def inheritIntent_def inheritModesInto_def syncModesCompatible_def
      syncIncludesCompatible_def Let_def split: option.splits if_splits)

lemma configMatches_inherit:
  "map_of S (si_FromLocal i) = Some e \<Longrightarrow> configMatches e i \<Longrightarrow> configMatches e (inheritIntent S i)"
  by (auto simp: configMatches_def inheritIntent_def inheritModesInto_def syncModesCompatible_def
      syncIncludesCompatible_def Let_def split: option.splits if_splits)

lemma inheritIntent_simps [simp]:
  "si_ToRemote (inheritIntent S i) = si_ToRemote i" "si_SyncGit (inheritIntent S i) = si_SyncGit i"
  by (simp_all add: inheritIntent_def inheritModesInto_def Let_def split: option.split)

lemma inheritIntent_ToRemote:
  "inheritIntent S (i\<lparr>si_ToRemote := t\<rparr>) = (inheritIntent S i)\<lparr>si_ToRemote := t\<rparr>"
  by (simp add: inheritIntent_def inheritModesInto_def Let_def split: option.split)

lemma configMatches_ToRemote [simp]:
  "configMatches e (i\<lparr>si_ToRemote := t\<rparr>) = configMatches e i"
  "configMatches e (i\<lparr>si_FromLocal := f\<rparr>) = configMatches e i"
  "configMatches (e\<lparr>as_gitCloseFunc := g\<rparr>) i = configMatches e i"
  "configMatches (e\<lparr>as_syncGit := b\<rparr>) i = configMatches e i"
  by (simp_all add: configMatches_def)

definition recorded :: "Connection \<Rightarrow> Connection \<Rightarrow> string \<Rightarrow> SynchronizationIntent \<Rightarrow> bool" where
  "recorded conn conn' f i \<longleftrightarrow>
     (\<exists>e. map_of (cn_synchronizations conn') f = Some e \<and> as_syncGit e = si_SyncGit i \<and> configMatches e i)
     \<and> cn_localRoot conn' = cn_localRoot conn
     \<and> fst ` set (cn_synchronizations conn') = insert f (fst ` set (cn_synchronizations conn))"

lemma recordSync_recorded:
  assumes "recordSync env cl c ss f e = (None, c', ss')"
    and "cn_localRoot c = cn_localRoot conn" and "insert f (fst ` set (cn_synchronizations c)) = insert f (fst ` set (cn_synchronizations conn))"
    and "as_syncGit e = si_SyncGit i" and "configMatches e i"
  shows "recorded conn c' f i"
  using recordSync_None [OF assms(1)] assms(2-5) dom_update [of f e "cn_synchronizations c"]
  by (simp add: recorded_def AList.update_conv')

lemma configMatches_self:
  "as_defaultFileMode e = si_DefaultFileMode i \<Longrightarrow> as_defaultDirectoryMode e = si_DefaultDirectoryMode i \<Longrightarrow>
   as_syncInclude e = si_SyncInclude i \<Longrightarrow> configMatches e i"
  by (simp add: configMatches_def syncModesCompatible_def syncIncludesCompatible_def)

lemma establishPrimary_recorded:
  assumes "establishPrimary env c1 c2 conn ss i = (Inr sh, conn', ss')"
  shows "recorded conn conn' (si_FromLocal i) i"
proof -
  have one: "recorded conn c (si_FromLocal i) i" if "recordSync env a conn x (si_FromLocal i) e = (None, c, y)"
    "as_syncGit e = si_SyncGit i" "configMatches e i" for a x e c y
    using recordSync_recorded [OF that(1)] that(2,3) by simp
  have two: "recorded conn c' (si_FromLocal i) i" if "recordSync env a conn x (si_FromLocal i) e = (None, c, y)"
      "recordSync env b c z (si_FromLocal i) e' = (None, c', w)" "as_syncGit e' = si_SyncGit i" "configMatches e' i"
    for a b x e e' c c' y z w
    using recordSync_recorded [OF that(2)] recordSync_None [OF that(1)] that(3,4) by (simp add: dom_update)
  show ?thesis
    using assms
    by (auto simp: establishPrimary_def Let_def split: if_splits sum.splits option.splits prod.splits
        elim!: one two intro!: configMatches_self)
qed

lemma applyGitReplicaFlip_recorded:
  assumes "applyGitReplicaFlip env c1 conn ss i ex = (Inr sh, conn', ss')" and "configMatches ex i"
  shows "recorded conn conn' (si_FromLocal i) i"
  using assms
  by (auto simp: applyGitReplicaFlip_def Let_def split: if_splits sum.splits option.splits prod.splits
      elim!: recordSync_recorded)

lemma EstablishSynchronization_recorded:
  assumes "EstablishSynchronization env c1 c2 conn ss i = (Inr sh, conn', ss')"
  shows "\<exists>f. canonicalizeSyncFromLocal (cn_localRoot conn) (si_FromLocal i) = Inr f \<and>
             checkSyncOverlap (cn_synchronizations conn) f = None \<and> recorded conn conn' f i"
proof -
  obtain f where f: "canonicalizeSyncFromLocal (cn_localRoot conn) (si_FromLocal i) = Inr f"
      "checkSyncOverlap (cn_synchronizations conn) f = None"
    using assms by (auto simp: EstablishSynchronization_def split: sum.splits option.splits)
  let ?i = "inheritIntent (cn_synchronizations conn) (i\<lparr>si_FromLocal := f\<rparr>)"
  have up: "recorded conn conn' f i" if "recorded conn conn' f (?i\<lparr>si_ToRemote := t\<rparr>)" for t
    using that configMatches_of_inherit [of _ "cn_synchronizations conn" "i\<lparr>si_FromLocal := f\<rparr>"]
    by (auto simp: recorded_def)
  have "(conn' = conn \<and> (\<exists>ex. map_of (cn_synchronizations conn) f = Some ex \<and> as_syncGit ex = si_SyncGit i \<and>
      configMatches ex ?i)) \<or> recorded conn conn' f i"
    using assms f
    by (auto simp: EstablishSynchronization_def Let_def split: if_splits option.splits
        dest!: establishPrimary_recorded applyGitReplicaFlip_recorded intro: up)
  then have "recorded conn conn' f i"
    using configMatches_of_inherit [of _ "cn_synchronizations conn" "i\<lparr>si_FromLocal := f\<rparr>"]
    by (force simp: recorded_def dest: map_of_SomeD)
  then show ?thesis
    using f by blast
qed

subsection \<open>The life of a connection's synchronisations\<close>

inductive sync_step :: "Connection \<times> sync_session list \<Rightarrow> Connection \<times> sync_session list \<Rightarrow> bool" where
  establish: "EstablishSynchronization env c1 c2 conn ss intent = (r, conn', ss') \<Longrightarrow> sync_step (conn, ss) (conn', ss')"
| close: "sync_step (conn, ss) (fst (cn_Close conn), runPauses env (snd (cn_Close conn)) ss)"
| roots: "SetRoots conn l r = Inr conn' \<Longrightarrow> sync_step (conn, ss) (conn', ss)"
| daemon: "sync_step (conn, ss) (updateDaemon conn d, ss)"
| forward: "sync_step (conn, ss) (cn_UpdateForwardCommands conn cmds, ss)"
| unforward: "sync_step (conn, ss) (cn_RemoveForwardCommands conn names, ss)"

inductive_cases sync_stepE: "sync_step s t"

lemma sync_ok_cong: "sync_ok conn \<Longrightarrow> cn_synchronizations conn' = cn_synchronizations conn \<Longrightarrow> sync_ok conn'"
  by (simp add: sync_ok_def)

lemma SetRoots_syncs: "SetRoots conn l r = Inr conn' \<Longrightarrow> cn_synchronizations conn' = cn_synchronizations conn"
  by (auto simp: SetRoots_def Let_def split: if_splits)

lemma sync_step_ok: "sync_step (conn, ss) (conn', ss') \<Longrightarrow> sync_ok conn \<Longrightarrow> sync_ok conn'"
  by (erule sync_stepE)
    (auto simp: cn_Close_def updateDaemon_def cn_UpdateForwardCommands_def cn_RemoveForwardCommands_def
      intro: EstablishSynchronization_ok sync_ok_Nil sync_ok_cong SetRoots_syncs)

lemma sync_step_names: "sync_step (conn, ss) (conn', ss') \<Longrightarrow> unique_names ss \<Longrightarrow> unique_names ss'"
  by (erule sync_stepE) (auto dest: EstablishSynchronization_names)

lemma sync_steps_ok:
  "sync_step\<^sup>*\<^sup>* (conn, ss) (conn', ss') \<Longrightarrow> sync_ok conn \<Longrightarrow> unique_names ss \<Longrightarrow> sync_ok conn' \<and> unique_names ss'"
  by (induction rule: rtranclp_induct2) (auto dest: sync_step_ok sync_step_names)

subsection \<open>Properties\<close>

text \<open>
  C4. Whatever synchronisations are established, refused, closed or re-rooted on a connection, its
  active sources are always absolute clean paths other than the root of the file system, none of them
  contains another, and the engine never holds two sessions with one name. So the remote directory
  found for a local one does not depend on the order in which the map of synchronisations is read.
\<close>

theorem active_syncs_never_overlap:
  assumes "sync_step\<^sup>*\<^sup>* (newConnection d name localRoot remoteRoot background, ss0) (conn, ss)"
    and "unique_names ss0"
  shows "(\<forall>a \<in> fst ` set (cn_synchronizations conn). IsAbs a \<and> Clean a = a \<and> a \<noteq> ''/'' \<and>
            (\<forall>b \<in> fst ` set (cn_synchronizations conn). a \<noteq> b \<longrightarrow> hasPathPrefix a b = None))
    \<and> unique_names ss
    \<and> (\<forall>ts. set ts = set (cn_synchronizations conn) \<longrightarrow>
          MatchCWD (conn\<lparr>cn_synchronizations := ts\<rparr>) dir = MatchCWD conn dir)"
proof -
  have ok: "sync_ok conn" "unique_names ss"
    using sync_steps_ok [OF assms(1) sync_ok_Nil assms(2)] by simp_all
  have match: "matchSyncs dir ts = matchSyncs dir (cn_synchronizations conn)"
    if "set ts = set (cn_synchronizations conn)" for ts
    using matchSyncs_order [of "cn_synchronizations conn" ts dir] ok(1) that unfolding sync_ok_def by argo
  have order: "MatchCWD (conn\<lparr>cn_synchronizations := ts\<rparr>) dir = MatchCWD conn dir"
    if "set ts = set (cn_synchronizations conn)" for ts
    using match [OF that] by (simp add: MatchCWD_def split: option.split)
  have apart: "hasPathPrefix a b = None"
    if "a \<in> fst ` set (cn_synchronizations conn)" "b \<in> fst ` set (cn_synchronizations conn)" "a \<noteq> b" for a b
    using ok(1) that unfolding sync_ok_def separated_def under_def by blast
  have keys: "IsAbs a" "Clean a = a" "a \<noteq> ''/''" if "a \<in> fst ` set (cn_synchronizations conn)" for a
    using ok(1) that unfolding sync_ok_def by blast+
  show ?thesis
    by (intro conjI ballI allI impI keys apart ok(2) order) assumption+
qed

definition sample_env :: sync_env where
  "sample_env =
     \<lparr>se_sha256 = (\<lambda>_. []), se_list = True, se_terminate = (\<lambda>_. True), se_resume = (\<lambda>_. True),
      se_pause = (\<lambda>_. True), se_create = (\<lambda>_. Some ''s1''), se_exec = (\<lambda>_. Some ''/home/p''),
      se_connected = True, se_gitignore = (\<lambda>_. None), se_newIgnorer = (\<lambda>_. None), se_isDir = (\<lambda>_. False)\<rparr>"

definition sample_intent :: SynchronizationIntent where
  "sample_intent =
     \<lparr>si_FromLocal = ''.'', si_ToRemote = ''~/p'', si_SyncGit = False, si_SyncInclude = [],
      si_DefaultFileMode = '''', si_DefaultDirectoryMode = ''''\<rparr>"

definition sample_conn :: Connection where
  "sample_conn = newConnection 0 ''c'' ''/w'' ''/r'' False"

lemma sample_establish:
  "\<exists>conn ss. EstablishSynchronization sample_env False False sample_conn [] sample_intent = (Inr [], conn, ss)
     \<and> map fst (cn_synchronizations conn) = [''/w'']"
  by (simp add: EstablishSynchronization_def sample_env_def sample_intent_def sample_conn_def canonicalizeSyncFromLocal_def
      IsAbs_def PathJoin_def cleanStep_def render_def Dir_def inheritIntent_def establishPrimary_def Let_def
      syncBetaConfiguration_def syncModesConfiguration_def establishSession_def findExistingSessionByName_def
      createSession_def recordSync_def applySyncIncludes_def shadowedSyncIncludes_def
      TrimSuffix_def HasSuffix_def TrimSpace_def IsSpace_def)

theorem active_syncs_never_overlap_witness:
  "\<exists>conn ss. sync_step\<^sup>*\<^sup>* (newConnection 0 ''c'' ''/w'' ''/r'' False, []) (conn, ss)
     \<and> map fst (cn_synchronizations conn) = [''/w''] \<and> unique_names ss \<and>
     MatchCWD (conn\<lparr>cn_synchronizations := rev (cn_synchronizations conn)\<rparr>) ''/w/x'' = MatchCWD conn ''/w/x''"
proof -
  obtain conn ss where e: "EstablishSynchronization sample_env False False sample_conn [] sample_intent = (Inr [], conn, ss)"
      "map fst (cn_synchronizations conn) = [''/w'']"
    using sample_establish by (elim exE conjE)
  have steps: "sync_step\<^sup>*\<^sup>* (newConnection 0 ''c'' ''/w'' ''/r'' False, []) (conn, ss)"
    using sync_step.establish [OF e(1)] by (simp add: sample_conn_def r_into_rtranclp)
  show ?thesis
    using steps e(2) active_syncs_never_overlap [OF steps, of "''/w/x''"]
    by (intro exI [of _ conn] exI [of _ ss]) simp
qed



end
