(* ===== verification/Config.thy ===== *)
theory Config
  imports Synchronization
begin

text \<open>
  The configuration of a local daemon (\<^verbatim>\<open>pkg/config.go\<close>): its validation, its file, and the look-ups of what a
  synchronisation inherits from it. The YAML library is a parameter: \<open>marshal\<close> and \<open>unmarshal\<close> give \<^const>\<open>None\<close>
  when they fail.
\<close>

subsection \<open>Data\<close>

record ConnectionConfig =
  cc_Name :: string
  cc_Destination :: string
  cc_LocalRoot :: string
  cc_RemoteRoot :: string
  cc_Forward :: "string list"
  cc_PrefixForward :: "string list"
  cc_Synchronizations :: "SynchronizationIntent list"
  cc_Background :: bool
  cc_Ports :: "string list"
  cc_ForwardAgent :: bool
  cc_EnvForward :: "string list"

text \<open>\<^verbatim>\<open>RootConfig\<close> is the list of its connections.\<close>

type_synonym root_config = "ConnectionConfig list"

datatype config_error =
    NoName
  | NoDestination
  | DuplicateForwarding string string
  | DuplicatePrefixForwarding string string
  | DuplicateEnvForwarding string string
  | InvalidSynchronization nat sync_error
  | DuplicateConnection string
  | InvalidConnection nat config_error

subsection \<open>Validation\<close>

text \<open>The loops with a map of what was seen: the first entry that occurs again.\<close>

fun repeated :: "string list \<Rightarrow> string list \<Rightarrow> string option" where
  "repeated seen [] = None"
| "repeated seen (x # xs) = (if x \<in> set seen then Some x else repeated (x # seen) xs)"

fun invalidSync :: "nat \<Rightarrow> SynchronizationIntent list \<Rightarrow> config_error option" where
  "invalidSync idx [] = None"
| "invalidSync idx (s # ss) =
     (case validateSyncModes (si_DefaultFileMode s) (si_DefaultDirectoryMode s) of
        Some e \<Rightarrow> Some (InvalidSynchronization idx e)
      | None \<Rightarrow> invalidSync (idx + 1) ss)"

definition Validate :: "ConnectionConfig \<Rightarrow> config_error option" where
  "Validate conf =
     (if cc_Name conf = '''' then Some NoName
      else if cc_Destination conf = '''' then Some NoDestination
      else
        (case repeated [] (cc_Forward conf) of
           Some fwd \<Rightarrow> Some (DuplicateForwarding (cc_Name conf) fwd)
         | None \<Rightarrow>
             (case repeated [] (cc_PrefixForward conf) of
                Some fwd \<Rightarrow> Some (DuplicatePrefixForwarding (cc_Name conf) fwd)
              | None \<Rightarrow>
                  (case invalidSync 0 (cc_Synchronizations conf) of
                     Some e \<Rightarrow> Some e
                   | None \<Rightarrow>
                       map_option (DuplicateEnvForwarding (cc_Name conf)) (repeated [] (cc_EnvForward conf))))))"

fun validateFrom :: "nat \<Rightarrow> string list \<Rightarrow> root_config \<Rightarrow> config_error option" where
  "validateFrom idx seenConn [] = None"
| "validateFrom idx seenConn (conn # conns) =
     (if cc_Name conn \<in> set seenConn then Some (DuplicateConnection (cc_Name conn))
      else
        (case Validate conn of
           Some e \<Rightarrow> Some (InvalidConnection idx e)
         | None \<Rightarrow> validateFrom (idx + 1) (cc_Name conn # seenConn) conns))"

definition validate :: "root_config \<Rightarrow> config_error option" where
  "validate conf = validateFrom 0 [] conf"

subsection \<open>The file\<close>

text \<open>
  What becomes of a write: the file cannot be opened and stays as it was, it is cut short after it was truncated,
  it is written and its permissions cannot be set, or all of it works.
\<close>

datatype write_outcome = NotOpened | CutShort string | ChmodFailed | Written

datatype file_error =
    CannotPersist config_error
  | MarshalFailed
  | WriteFailed
  | ReadFailed
  | UnmarshalFailed
  | InvalidConfig config_error

definition Persist ::
    "(root_config \<Rightarrow> string option) \<Rightarrow> write_outcome \<Rightarrow> root_config \<Rightarrow> string option \<Rightarrow> file_error option \<times> string option" where
  "Persist marshal outcome conf file =
     (case validate conf of
        Some e \<Rightarrow> (Some (CannotPersist e), file)
      | None \<Rightarrow>
          (case marshal conf of
             None \<Rightarrow> (Some MarshalFailed, file)
           | Some md \<Rightarrow>
               (case outcome of
                  NotOpened \<Rightarrow> (Some WriteFailed, file)
                | CutShort t \<Rightarrow> (Some WriteFailed, Some t)
                | ChmodFailed \<Rightarrow> (Some WriteFailed, Some md)
                | Written \<Rightarrow> (None, Some md))))"

text \<open>\<^verbatim>\<open>Reload\<close> takes over what it has read before it validates it.\<close>

definition Reload ::
    "(string \<Rightarrow> root_config option) \<Rightarrow> string option \<Rightarrow> root_config \<Rightarrow> file_error option \<times> root_config" where
  "Reload unmarshal file conf =
     (case file of
        None \<Rightarrow> (Some ReadFailed, conf)
      | Some rd \<Rightarrow>
          (case unmarshal rd of
             None \<Rightarrow> (Some UnmarshalFailed, conf)
           | Some newConfig \<Rightarrow> (map_option InvalidConfig (validate newConfig), newConfig)))"

subsection \<open>Look-ups\<close>

definition canonicalFromLocal :: "string \<Rightarrow> string \<Rightarrow> string" where
  "canonicalFromLocal localRoot fromLocal =
     (case canonicalizeSyncFromLocal localRoot fromLocal of Inl _ \<Rightarrow> fromLocal | Inr canonical \<Rightarrow> canonical)"

definition syncFor :: "root_config \<Rightarrow> string \<Rightarrow> string \<Rightarrow> SynchronizationIntent option" where
  "syncFor conf connName fromLocal =
     (case concat (map (\<lambda>conn. filter (\<lambda>s. canonicalFromLocal (cc_LocalRoot conn) (si_FromLocal s) = fromLocal)
                                  (cc_Synchronizations conn))
             (filter (\<lambda>conn. cc_Name conn = connName) conf)) of
        [] \<Rightarrow> None
      | s # _ \<Rightarrow> Some s)"

definition SyncModesFor :: "root_config \<Rightarrow> string \<Rightarrow> string \<Rightarrow> string \<times> string" where
  "SyncModesFor conf connName fromLocal =
     (case syncFor conf connName fromLocal of
        None \<Rightarrow> ('''', '''')
      | Some s \<Rightarrow> (si_DefaultFileMode s, si_DefaultDirectoryMode s))"

definition SyncIncludesFor :: "root_config \<Rightarrow> string \<Rightarrow> string \<Rightarrow> string list" where
  "SyncIncludesFor conf connName fromLocal =
     (case syncFor conf connName fromLocal of None \<Rightarrow> [] | Some s \<Rightarrow> si_SyncInclude s)"

subsection \<open>What validation accepts\<close>

lemma repeated_None: "repeated seen xs = None \<longleftrightarrow> distinct xs \<and> set xs \<inter> set seen = {}"
  by (induction seen xs rule: repeated.induct) auto

lemma invalidSync_None:
  "invalidSync idx ss = None \<longleftrightarrow> (\<forall>s \<in> set ss. validateSyncModes (si_DefaultFileMode s) (si_DefaultDirectoryMode s) = None)"
  by (induction idx ss rule: invalidSync.induct) (auto split: option.split)

text \<open>A configuration of a connection is in order.\<close>

definition conn_valid :: "ConnectionConfig \<Rightarrow> bool" where
  "conn_valid conf \<longleftrightarrow>
     cc_Name conf \<noteq> '''' \<and> cc_Destination conf \<noteq> '''' \<and>
     distinct (cc_Forward conf) \<and> distinct (cc_PrefixForward conf) \<and> distinct (cc_EnvForward conf) \<and>
     (\<forall>s \<in> set (cc_Synchronizations conf). validateSyncModes (si_DefaultFileMode s) (si_DefaultDirectoryMode s) = None)"

lemma distinct_repeated: "distinct xs \<longleftrightarrow> repeated [] xs = None"
  by (simp add: repeated_None)

lemma Validate_None: "Validate conf = None \<longleftrightarrow> conn_valid conf"
  by (auto simp: Validate_def conn_valid_def distinct_repeated invalidSync_None [of 0, symmetric] split: option.split)

lemma validateFrom_None:
  "validateFrom idx seen conf = None \<longleftrightarrow>
     distinct (map cc_Name conf) \<and> cc_Name ` set conf \<inter> set seen = {} \<and> (\<forall>c \<in> set conf. conn_valid c)"
  by (induction idx seen conf rule: validateFrom.induct) (auto simp: Validate_None [symmetric] split: option.split)

lemma validate_None: "validate conf = None \<longleftrightarrow> distinct (map cc_Name conf) \<and> (\<forall>c \<in> set conf. conn_valid c)"
  by (simp add: validate_def validateFrom_None)

lemma persist_file:
  "snd (Persist marshal outcome conf file) = file \<or>
   (\<exists>t. outcome = CutShort t \<and> snd (Persist marshal outcome conf file) = Some t) \<or>
   (\<exists>md. validate conf = None \<and> marshal conf = Some md \<and> snd (Persist marshal outcome conf file) = Some md)"
  by (auto simp: Persist_def split: option.splits write_outcome.splits)

lemma persist_invalid: "validate conf \<noteq> None \<Longrightarrow> snd (Persist marshal outcome conf file) = file"
  by (auto simp: Persist_def)

end
