(* ===== verification/EnvForward.thy ===== *)
theory EnvForward
  imports GoStrings
begin

text \<open>
  The environment variables a command takes along (\<^verbatim>\<open>pkg/local_client_commands.go\<close>, \<^verbatim>\<open>pkg/server.go\<close>): the names
  and patterns a connection forwards, their resolution against the environment of the caller, and the merge with
  the variables given on the command line. A variable is a string \<^verbatim>\<open>KEY=value\<close>. Go's \<^verbatim>\<open>path.Match\<close> is written
  out first.
\<close>

subsection \<open>Patterns\<close>

text \<open>The first rune of a string and its width; an invalid one is \<^verbatim>\<open>RuneError\<close> of width 1.\<close>

definition DecodeRune :: "string \<Rightarrow> nat \<times> nat" where
  "DecodeRune s =
     (case map of_char s of
        [] \<Rightarrow> (65533, 0)
      | b0 # bs \<Rightarrow>
          let lo = (if b0 = 224 then 160 else if b0 = 240 then 144 else 128);
              hi = (if b0 = 237 then 159 else if b0 = 244 then 143 else 191);
              n = (if b0 < 194 \<or> b0 > 244 then 0 else if b0 < 224 then 1 else if b0 < 240 then 2 else 3);
              more = take n bs in
          if b0 < 128 then (b0, 1)
          else if n = 0 \<or> length more < n \<or> hd more < lo \<or> hi < hd more
                  \<or> \<not> list_all (\<lambda>b. 128 \<le> b \<and> b \<le> 191) (tl more)
          then (65533, 1)
          else (foldl (\<lambda>r b. r * 64 + (b - 128)) (b0 mod 2 ^ (6 - n)) more, n + 1))"

text \<open>A chunk of a pattern: its leading stars are taken off, and it ends before the next star outside of brackets.\<close>

fun splitChunk :: "bool \<Rightarrow> string \<Rightarrow> string \<times> string" where
  "splitChunk inrange [] = ([], [])"
| "splitChunk inrange (c # cs) =
     (if c = CHR 0x5C then
        (case cs of
           [] \<Rightarrow> ([c], [])
         | d # ds \<Rightarrow> let (a, b) = splitChunk inrange ds in (c # d # a, b))
      else if c = CHR ''*'' \<and> \<not> inrange then ([], c # cs)
      else
        let (a, b) = splitChunk (if c = CHR ''['' then True else if c = CHR '']'' then False else inrange) cs
        in (c # a, b))"

definition scanChunk :: "string \<Rightarrow> bool \<times> string \<times> string" where
  "scanChunk pattern =
     (HasPrefix pattern ''*'', splitChunk False (dropWhile (\<lambda>c. c = CHR ''*'') pattern))"

text \<open>A possibly escaped character of a class; \<^const>\<open>None\<close> is \<^verbatim>\<open>ErrBadPattern\<close>.\<close>

definition getEsc :: "string \<Rightarrow> (nat \<times> string) option" where
  "getEsc chunk =
     (if chunk = [] \<or> hd chunk = CHR ''-'' \<or> hd chunk = CHR '']'' then None
      else
        let chunk = (if hd chunk = CHR 0x5C then tl chunk else chunk) in
        if chunk = [] then None
        else
          let (r, n) = DecodeRune chunk; rest = drop n chunk in
          if (r = 65533 \<and> n = 1) \<or> rest = [] then None else Some (r, rest))"

lemma DecodeRune_width: "s \<noteq> [] \<Longrightarrow> 0 < snd (DecodeRune s)"
  by (cases s) (auto simp: DecodeRune_def Let_def)

lemma getEsc_shorter: "getEsc chunk = Some (r, rest) \<Longrightarrow> rest \<noteq> [] \<and> length rest < length chunk"
  using DecodeRune_width [of chunk] DecodeRune_width [of "tl chunk"]
  by (cases chunk) (auto simp: getEsc_def Let_def split: if_splits prod.splits)

function parseClass :: "nat \<Rightarrow> bool \<Rightarrow> nat \<Rightarrow> string \<Rightarrow> (bool \<times> string) option" where
  "parseClass nrange m r chunk =
     (if chunk \<noteq> [] \<and> hd chunk = CHR '']'' \<and> nrange > 0 then Some (m, tl chunk)
      else
        (case getEsc chunk of
           None \<Rightarrow> None
         | Some (lo, c1) \<Rightarrow>
             if hd c1 = CHR ''-'' then
               (case getEsc (tl c1) of
                  None \<Rightarrow> None
                | Some (hi, c2) \<Rightarrow> parseClass (nrange + 1) (m \<or> (lo \<le> r \<and> r \<le> hi)) r c2)
             else parseClass (nrange + 1) (m \<or> lo = r) r c1))"
  by pat_completeness auto
termination
  by (relation "measure (\<lambda>(_, _, _, chunk). length chunk)") (auto dest!: getEsc_shorter)

declare parseClass.simps [simp del]

lemma parseClass_shorter: "parseClass n m r chunk = Some (m', rest) \<Longrightarrow> length rest < length chunk"
proof (induction chunk arbitrary: n m rule: length_induct)
  case (1 chunk)
  have step: "length rest < length chunk" if "parseClass n' b r c = Some (m', rest)" "length c < length chunk" for n' b c
    using "1.IH" that by fastforce
  show ?case
    using "1.prems"
    by (subst (asm) parseClass.simps) (auto split: if_splits option.splits dest!: getEsc_shorter elim!: step)
qed

text \<open>
  \<^verbatim>\<open>matchChunk\<close>: the rest of the string, or that it does not match. After a failure the chunk is still read to
  its end, for its syntax.
\<close>

function matchChunk :: "bool \<Rightarrow> string \<Rightarrow> string \<Rightarrow> string option option" where
  "matchChunk failed [] s = Some (if failed then None else Some s)"
| "matchChunk failed (c # cs) s =
     (let failed = (failed \<or> s = []);
          next = (if failed then s else tl s);
          rune = (if failed then (0, 0) else DecodeRune s) in
      if c = CHR ''['' then
        let negated = HasPrefix cs ''^''; cs1 = (if negated then tl cs else cs) in
        (case parseClass 0 False (fst rune) cs1 of
           None \<Rightarrow> None
         | Some (m, cs2) \<Rightarrow> matchChunk (failed \<or> m = negated) cs2 (drop (snd rune) s))
      else if c = CHR ''?'' then matchChunk (failed \<or> hd s = CHR ''/'') cs (drop (snd rune) s)
      else if c = CHR 0x5C then
        (case cs of [] \<Rightarrow> None | d # ds \<Rightarrow> matchChunk (failed \<or> hd s \<noteq> d) ds next)
      else matchChunk (failed \<or> hd s \<noteq> c) cs next)"
  by pat_completeness auto
termination
  by (relation "measure (\<lambda>(_, chunk, _). length chunk)") (auto dest!: parseClass_shorter split: if_splits)

text \<open>The search behind a star: it skips characters other than a slash.\<close>

fun skipMatch :: "string \<Rightarrow> bool \<Rightarrow> string \<Rightarrow> string option option" where
  "skipMatch chunk isLast [] = Some None"
| "skipMatch chunk isLast (c # cs) =
     (if c = CHR ''/'' then Some None
      else
        (case matchChunk False chunk cs of
           None \<Rightarrow> None
         | Some None \<Rightarrow> skipMatch chunk isLast cs
         | Some (Some t) \<Rightarrow> if isLast \<and> t \<noteq> [] then skipMatch chunk isLast cs else Some (Some t)))"

lemma splitChunk_length: "splitChunk b p = (x, y) \<Longrightarrow> length y \<le> length p"
proof (induction b p arbitrary: x y rule: splitChunk.induct)
  case (2 inrange c cs)
  then show ?case
    by (auto split: if_splits list.splits prod.splits simp: le_Suc_eq Let_def)
qed simp

lemma scanChunk_shorter: "scanChunk p = (star, chunk, rest) \<Longrightarrow> p \<noteq> [] \<Longrightarrow> length rest < length p"
proof (cases "HasPrefix p ''*''")
  case True
  moreover assume "scanChunk p = (star, chunk, rest)" "p \<noteq> []"
  ultimately show ?thesis
    using splitChunk_length [of False "dropWhile (\<lambda>c. c = CHR ''*'') p" chunk rest]
      length_dropWhile_le [of "\<lambda>c. c = CHR ''*''" "tl p"]
    by (cases p) (auto simp: scanChunk_def HasPrefix_def)
next
  case False
  moreover assume "scanChunk p = (star, chunk, rest)" "p \<noteq> []"
  ultimately show ?thesis
    by (cases p)
      (auto simp: scanChunk_def HasPrefix_def Let_def less_Suc_eq_le split: if_splits list.splits prod.splits
        dest!: splitChunk_length)
qed

text \<open>Before it says that nothing matches, \<^verbatim>\<open>Match\<close> looks at the syntax of the rest of the pattern.\<close>

function checkRest :: "string \<Rightarrow> bool option" where
  "checkRest pattern =
     (if pattern = [] then Some False
      else
        (case scanChunk pattern of
           (_, chunk, rest) \<Rightarrow>
             (case matchChunk False chunk [] of None \<Rightarrow> None | Some _ \<Rightarrow> checkRest rest)))"
  by pat_completeness auto
termination
  by (relation "measure length") (auto dest: scanChunk_shorter [OF sym])

function PathMatch :: "string \<Rightarrow> string \<Rightarrow> bool option" where
  "PathMatch pattern name =
     (if pattern = [] then Some (name = [])
      else
        (case scanChunk pattern of
           (star, chunk, rest) \<Rightarrow>
             if star \<and> chunk = [] then Some (CHR ''/'' \<notin> set name)
             else
               (case matchChunk False chunk name of
                  None \<Rightarrow> None
                | Some r \<Rightarrow>
                    if r \<noteq> None \<and> (r = Some [] \<or> rest \<noteq> []) then PathMatch rest (the r)
                    else if star then
                      (case skipMatch chunk (rest = []) name of
                         None \<Rightarrow> None
                       | Some None \<Rightarrow> checkRest rest
                       | Some (Some t) \<Rightarrow> PathMatch rest t)
                    else checkRest rest)))"
  by pat_completeness auto
termination
  by (relation "measure (\<lambda>(pattern, _). length pattern)") (auto dest: scanChunk_shorter [OF sym])

declare checkRest.simps [simp del] PathMatch.simps [simp del] matchChunk.simps(2) [simp del]

subsection \<open>Names that are forwarded\<close>

datatype env_error = EnvForwardTooBroad string | BadPattern string

fun validateEnvForwardNames :: "string list \<Rightarrow> env_error option" where
  "validateEnvForwardNames [] = None"
| "validateEnvForwardNames (name # names) =
     (if name = ''*'' then Some (EnvForwardTooBroad name)
      else if PathMatch name '''' = None then Some (BadPattern name)
      else validateEnvForwardNames names)"

definition keyOf :: "string \<Rightarrow> string option" where
  "keyOf keyVal = map_option fst (Cut (CHR ''='') keyVal)"

definition resolveEnvForwardNames :: "string list \<Rightarrow> string list \<Rightarrow> string list" where
  "resolveEnvForwardNames patterns environ =
     filter (\<lambda>keyVal. case keyOf keyVal of
                        None \<Rightarrow> False
                      | Some key \<Rightarrow> list_ex (\<lambda>pattern. PathMatch pattern key = Some True) patterns) environ"

fun mergeLoop :: "string list \<Rightarrow> string list \<Rightarrow> string list \<Rightarrow> string list" where
  "mergeLoop seen base [] = base"
| "mergeLoop seen base (kv # add) =
     (case keyOf kv of
        None \<Rightarrow> mergeLoop seen base add
      | Some key \<Rightarrow>
          if key \<in> set seen then mergeLoop seen base add
          else mergeLoop (key # seen) (base @ [kv]) add)"

primrec keysOf :: "string list \<Rightarrow> string list" where
  "keysOf [] = []"
| "keysOf (kv # kvs) = (case keyOf kv of None \<Rightarrow> keysOf kvs | Some key \<Rightarrow> key # keysOf kvs)"

definition mergeEnvKeepFirst :: "string list \<Rightarrow> string list \<Rightarrow> string list" where
  "mergeEnvKeepFirst base add = mergeLoop (keysOf base) base add"

text \<open>
  The environment part of \<^verbatim>\<open>runCommand\<close>: the variables named by \<^verbatim>\<open>__INLINE_VARS\<close>, and then those the
  connection forwards. \<open>forwarded\<close> is what the daemon answers for the connection the command goes to, \<^const>\<open>None\<close>
  when there is no connection or no answer.
\<close>

definition inlineEnv :: "string \<Rightarrow> string list \<Rightarrow> string list" where
  "inlineEnv inlineVars environ =
     (if inlineVars = '''' then []
      else filter (\<lambda>keyVal. case keyOf keyVal of
                              None \<Rightarrow> False
                            | Some key \<Rightarrow> key \<in> set (Split (CHR '','') inlineVars)) environ)"

definition envToPass :: "string \<Rightarrow> string list option \<Rightarrow> string list \<Rightarrow> string list" where
  "envToPass inlineVars forwarded environ =
     (case forwarded of
        None \<Rightarrow> inlineEnv inlineVars environ
      | Some names \<Rightarrow>
          if length names > 0
          then mergeEnvKeepFirst (inlineEnv inlineVars environ) (resolveEnvForwardNames names environ)
          else inlineEnv inlineVars environ)"

subsection \<open>What patterns select\<close>

definition plain :: "string \<Rightarrow> bool" where
  "plain p \<longleftrightarrow> set p \<inter> set [CHR ''*'', CHR ''?'', CHR ''['', CHR 0x5C] = {}"

lemma plain_Cons [simp]:
  "plain (c # p) \<longleftrightarrow> c \<noteq> CHR ''*'' \<and> c \<noteq> CHR ''?'' \<and> c \<noteq> CHR ''['' \<and> c \<noteq> CHR 0x5C \<and> plain p"
  by (auto simp: plain_def)

lemma matchChunk_failed: "plain chunk \<Longrightarrow> matchChunk True chunk s = Some None"
  by (induction chunk arbitrary: s) (simp_all add: matchChunk.simps(2) Let_def)

lemma matchChunk_plain:
  "plain chunk \<Longrightarrow> matchChunk False chunk s = Some (if take (length chunk) s = chunk then Some (drop (length chunk) s) else None)"
proof (induction chunk arbitrary: s)
  case (Cons c chunk)
  then show ?case
    by (cases s; cases "hd s = c") (simp_all add: matchChunk.simps(2) Let_def matchChunk_failed)
qed simp

lemma splitChunk_plain: "plain p \<Longrightarrow> rest = [] \<or> hd rest = CHR ''*'' \<Longrightarrow> splitChunk False (p @ rest) = (p, rest)"
  by (induction p) (cases rest; simp)+

lemma dropWhile_plain: "plain p \<Longrightarrow> p \<noteq> [] \<Longrightarrow> dropWhile (\<lambda>c. c = CHR ''*'') (p @ rest) = p @ rest"
  by (cases p) simp_all

lemma scanChunk_plain:
  "plain p \<Longrightarrow> p \<noteq> [] \<Longrightarrow> rest = [] \<or> hd rest = CHR ''*'' \<Longrightarrow> scanChunk (p @ rest) = (False, p, rest)"
  using splitChunk_plain [of p rest] by (cases p) (auto simp: scanChunk_def HasPrefix_def)

text \<open>A name without special characters selects that variable, and a name before a star those it begins.\<close>

lemma PathMatch_plain: "plain p \<Longrightarrow> PathMatch p name = Some (p = name)"
proof (cases "p = []")
  case False
  moreover assume "plain p"
  ultimately show ?thesis
    using scanChunk_plain [of p "[]"] False
    by (auto simp: PathMatch.simps [of p] PathMatch.simps [of "[]"] checkRest.simps [of "[]"] matchChunk_plain)
qed (auto simp: PathMatch.simps)

lemma PathMatch_star: "PathMatch ''*'' name = Some (CHR ''/'' \<notin> set name)"
  by (subst PathMatch.simps) (simp add: scanChunk_def HasPrefix_def)

lemma checkRest_star: "checkRest ''*'' = Some False"
  by (simp add: checkRest.simps [of "''*''"] checkRest.simps [of "[]"] scanChunk_def HasPrefix_def)

lemma PathMatch_prefix:
  assumes "plain p"
  shows "PathMatch (p @ ''*'') name = Some (\<exists>t. name = p @ t \<and> CHR ''/'' \<notin> set t)"
proof (cases "p = []")
  case False
  then show ?thesis
    using assms scanChunk_plain [of p "''*''"]
    by (subst PathMatch.simps)
      (auto simp: matchChunk_plain PathMatch_star checkRest_star, metis append_take_drop_id)
qed (simp add: PathMatch_star)

subsection \<open>What is passed on\<close>

lemma set_keysOf: "set (keysOf kvs) = {key. \<exists>kv \<in> set kvs. keyOf kv = Some key}"
  by (induction kvs) (auto split: option.splits)

lemma keysOf_append [simp]: "keysOf (xs @ ys) = keysOf xs @ keysOf ys"
  by (induction xs) (auto split: option.splits)

lemma mergeLoop_added:
  "\<exists>added. mergeLoop seen base add = base @ added \<and> set added \<subseteq> set add \<and> distinct (keysOf added) \<and>
     (\<forall>kv \<in> set added. keyOf kv \<noteq> None) \<and>
     set (keysOf added) = set (keysOf add) - set seen"
proof (induction seen base add rule: mergeLoop.induct)
  case (2 seen base kv add)
  show ?case
  proof (cases "keyOf kv")
    case None
    with "2.IH"(1) show ?thesis
      by auto
  next
    case (Some key)
    show ?thesis
    proof (cases "key \<in> set seen")
      case True
      with Some "2.IH"(2) show ?thesis
        by (auto simp: insert_Diff_if)
    next
      case False
      with Some "2.IH"(3) obtain added where "mergeLoop (key # seen) (base @ [kv]) add = (base @ [kv]) @ added"
          "set added \<subseteq> set add" "distinct (keysOf added)" "\<forall>kv \<in> set added. keyOf kv \<noteq> None"
          "set (keysOf added) = set (keysOf add) - set (key # seen)"
        by blast
      then show ?thesis
        using Some False by (intro exI [of _ "kv # added"]) auto
    qed
  qed
qed simp

definition asked_for :: "string \<Rightarrow> string list option \<Rightarrow> string \<Rightarrow> bool" where
  "asked_for inlineVars forwarded key \<longleftrightarrow>
     (inlineVars \<noteq> '''' \<and> key \<in> set (Split (CHR '','') inlineVars)) \<or>
     (\<exists>names. forwarded = Some names \<and> (\<exists>pattern \<in> set names. PathMatch pattern key = Some True))"

lemma inlineEnv_set:
  "set (inlineEnv inlineVars environ) = {kv \<in> set environ. \<exists>key. keyOf kv = Some key \<and> asked_for inlineVars None key}"
  by (auto simp: inlineEnv_def asked_for_def split: option.splits)

lemma resolve_set:
  "set (resolveEnvForwardNames names environ) =
     {kv \<in> set environ. \<exists>key. keyOf kv = Some key \<and> asked_for '''' (Some names) key}"
  by (auto simp: resolveEnvForwardNames_def asked_for_def list_ex_iff split: option.splits)

lemma distinct_keysOf_filter: "distinct (keysOf kvs) \<Longrightarrow> distinct (keysOf (filter P kvs))"
  by (induction kvs) (auto simp: set_keysOf split: option.splits)

lemma distinct_inlineEnv: "distinct (keysOf environ) \<Longrightarrow> distinct (keysOf (inlineEnv inlineVars environ))"
  by (simp add: inlineEnv_def distinct_keysOf_filter)

subsection \<open>Properties\<close>

text \<open>
  C17. A command takes along exactly the variables that were asked for: every variable that is passed is one of the
  environment, under a key that is named on the command line or matches a pattern the connection forwards, and
  every set variable with such a key is passed. Those of the command line come first, and no key is passed twice
  when the environment has none twice, so a pattern never overrides a variable of the command line.
\<close>

theorem environment_is_an_allowlist:
  "set (envToPass inlineVars forwarded environ) \<subseteq> set environ
   \<and> set (keysOf (envToPass inlineVars forwarded environ)) = {key \<in> set (keysOf environ). asked_for inlineVars forwarded key}
   \<and> (\<forall>kv \<in> set (envToPass inlineVars forwarded environ). keyOf kv \<noteq> None)
   \<and> take (length (inlineEnv inlineVars environ)) (envToPass inlineVars forwarded environ) = inlineEnv inlineVars environ
   \<and> (distinct (keysOf environ) \<longrightarrow> distinct (keysOf (envToPass inlineVars forwarded environ)))"
proof -
  let ?inline = "inlineEnv inlineVars environ"
  show ?thesis
  proof (cases "forwarded = None \<or> forwarded = Some []")
    case True
    then have pass: "envToPass inlineVars forwarded environ = ?inline"
      by (auto simp: envToPass_def)
    have "asked_for inlineVars forwarded = asked_for inlineVars None"
      using True by (auto simp: asked_for_def)
    then show ?thesis
      unfolding pass set_keysOf by (auto simp: inlineEnv_set distinct_inlineEnv)
  next
    case False
    then obtain names where names: "forwarded = Some names" "names \<noteq> []"
      by auto
    have ask: "asked_for inlineVars forwarded key \<longleftrightarrow> asked_for inlineVars None key \<or> asked_for '''' (Some names) key" for key
      by (auto simp: asked_for_def names)
    obtain added where added: "envToPass inlineVars forwarded environ = ?inline @ added"
        "set added \<subseteq> set (resolveEnvForwardNames names environ)" "distinct (keysOf added)" "\<forall>kv \<in> set added. keyOf kv \<noteq> None"
        "set (keysOf added) = set (keysOf (resolveEnvForwardNames names environ)) - set (keysOf ?inline)"
      using mergeLoop_added [of "keysOf ?inline" ?inline "resolveEnvForwardNames names environ"] names
      by (auto simp: envToPass_def mergeEnvKeepFirst_def)
    have "set (keysOf (?inline @ added)) = set (keysOf ?inline) \<union> set (keysOf (resolveEnvForwardNames names environ))"
      using added(5) by auto
    then have keys: "set (keysOf (?inline @ added)) = {key \<in> set (keysOf environ). asked_for inlineVars forwarded key}"
      by (auto simp: ask set_keysOf inlineEnv_set resolve_set)
    have "distinct (keysOf environ) \<longrightarrow> distinct (keysOf (?inline @ added))"
      using added(3,5) by (auto simp: distinct_inlineEnv)
    then show ?thesis
      using added(2,4) keys by (auto simp: added(1) inlineEnv_set resolve_set)
  qed
qed

theorem environment_is_an_allowlist_witness:
  "set (keysOf (envToPass ''A'' (Some [''FOO_*'', ''A'']) [''A=1'', ''PATH=/bin'', ''FOO_X=2''])) = {''A'', ''FOO_X''}
   \<and> distinct (keysOf (envToPass ''A'' (Some [''FOO_*'', ''A'']) [''A=1'', ''PATH=/bin'', ''FOO_X=2'']))"
proof -
  let ?env = "[''A=1'', ''PATH=/bin'', ''FOO_X=2'']"
  have keys: "keysOf ?env = [''A'', ''PATH'', ''FOO_X'']"
    by (simp add: keyOf_def)
  have glob: "PathMatch ''FOO_*'' key = Some (\<exists>t. key = ''FOO_'' @ t \<and> CHR ''/'' \<notin> set t)" for key
    using PathMatch_prefix [of "''FOO_''" key] by (simp add: plain_def)
  have name: "PathMatch ''A'' key = Some (key = ''A'')" for key
    using PathMatch_plain [of "''A''" key] by (auto simp: plain_def)
  have "{key \<in> {''A'', ''PATH'', ''FOO_X''}. asked_for ''A'' (Some [''FOO_*'', ''A'']) key} = {''A'', ''FOO_X''}"
    by (auto simp: asked_for_def glob name)
  then show ?thesis
    using environment_is_an_allowlist [of "''A''" "Some [''FOO_*'', ''A'']" ?env, unfolded keys] by simp
qed

text \<open>
  The single star is refused because it would forward the whole environment, but the same pattern written
  with two stars is accepted, and forwards every variable whose name has no slash.
\<close>

theorem double_star_forwards_everything:
  "validateEnvForwardNames [''*''] = Some (EnvForwardTooBroad ''*'')
   \<and> validateEnvForwardNames [''**''] = None
   \<and> resolveEnvForwardNames [''**''] environ =
       filter (\<lambda>kv. case keyOf kv of None \<Rightarrow> False | Some key \<Rightarrow> CHR ''/'' \<notin> set key) environ"
proof -
  have "PathMatch ''**'' name = Some (CHR ''/'' \<notin> set name)" for name
    by (subst PathMatch.simps) (simp add: scanChunk_def HasPrefix_def)
  then show ?thesis
    by (simp add: resolveEnvForwardNames_def cong: option.case_cong)
qed

end
