(* ===== verification/ServerConfig.thy ===== *)
theory ServerConfig
  imports Config EnvForward ConnectionManager PortForward AgentForward
begin

text \<open>
  The local server between its configuration and its connections (\<^verbatim>\<open>pkg/server.go\<close>,
  \<^verbatim>\<open>pkg/server_grpc_connection.go\<close>, \<^verbatim>\<open>pkg/server_grpc_port_forward.go\<close>): the requests that change a connection
  and record the change in the configuration, and the loop that brings every connection back to what the
  configuration says. The manager, the ports and agents of each daemon, and the sync engine's sessions are those
  of the other theories; a daemon has one number in all of them. A handler that holds the server's mutex is one
  function.
\<close>

subsection \<open>Data\<close>

record server =
  srv_config :: root_config
  srv_file :: "string option"
  srv_mgr :: ConnectionManager
  srv_ports :: "nat \<Rightarrow> port_daemon"
  srv_agents :: "nat \<Rightarrow> agent_sys"
  srv_sessions :: "sync_session list"

text \<open>
  What the outside answers: the YAML library, the file system, the network and the sync engine, and whether the
  connection is closed while a session is established.
\<close>

record server_env =
  ev_marshal :: "root_config \<Rightarrow> string option"
  ev_write :: write_outcome
  ev_path :: path_env
  ev_foreign :: "net_query \<Rightarrow> 32 word \<Rightarrow> bool"
  ev_sync :: sync_env
  ev_closes :: "bool \<times> bool"

datatype server_error =
    MgrFailed mgr_error
  | EnvRefused env_error
  | RootsRefused roots_error
  | PortRefused add_error
  | SyncFailed sync_error

abbreviation srv_conn :: "server \<Rightarrow> nat \<Rightarrow> Connection" where
  "srv_conn s c \<equiv> cm_conn (srv_mgr s) c"

subsection \<open>Recording a change\<close>

definition persistConfig :: "server_env \<Rightarrow> server \<Rightarrow> server" where
  "persistConfig ev s = s\<lparr>srv_file := snd (Persist (ev_marshal ev) (ev_write ev) (srv_config s) (srv_file s))\<rparr>"

text \<open>The loop that changes the first entry of a name.\<close>

fun updateEntry :: "string \<Rightarrow> (ConnectionConfig \<Rightarrow> ConnectionConfig) \<Rightarrow> root_config \<Rightarrow> root_config" where
  "updateEntry name f [] = []"
| "updateEntry name f (conf # confs) = (if cc_Name conf = name then f conf # confs else conf # updateEntry name f confs)"

definition recordChange :: "server_env \<Rightarrow> string \<Rightarrow> (ConnectionConfig \<Rightarrow> ConnectionConfig) \<Rightarrow> server \<Rightarrow> server" where
  "recordChange ev name f s = persistConfig ev (s\<lparr>srv_config := updateEntry name f (srv_config s)\<rparr>)"

subsection \<open>Requests\<close>

definition addForwards :: "ForwardCommandIntent list \<Rightarrow> ConnectionConfig \<Rightarrow> ConnectionConfig" where
  "addForwards commands conf =
     conf\<lparr>cc_Forward := cc_Forward conf @ map fi_Name (filter (\<lambda>cmd. \<not> fi_Prefix cmd) commands),
          cc_PrefixForward := cc_PrefixForward conf @ map fi_Name (filter fi_Prefix commands)\<rparr>"

definition UpdateForwardCommands ::
    "server_env \<Rightarrow> ForwardCommandIntent list \<Rightarrow> string \<Rightarrow> server \<Rightarrow> server_error option \<times> server" where
  "UpdateForwardCommands ev commands toDestination s =
     (case connection (srv_mgr s) toDestination True of
        Inl e \<Rightarrow> (Some (MgrFailed e), s)
      | Inr c \<Rightarrow>
          let name = cn_name (srv_conn s c) in
          (case cm_UpdateForwardCommands name commands (srv_mgr s) of
             Inl e \<Rightarrow> (Some (MgrFailed e), s)
           | Inr m \<Rightarrow> (None, recordChange ev name (addForwards commands) (s\<lparr>srv_mgr := m\<rparr>))))"

definition dropForwards :: "string list \<Rightarrow> ConnectionConfig \<Rightarrow> ConnectionConfig" where
  "dropForwards commands conf =
     conf\<lparr>cc_Forward := filter (\<lambda>name. name \<notin> set commands) (cc_Forward conf),
          cc_PrefixForward := filter (\<lambda>name. name \<notin> set commands) (cc_PrefixForward conf)\<rparr>"

definition RemoveForwardCommands ::
    "server_env \<Rightarrow> string list \<Rightarrow> string \<Rightarrow> server \<Rightarrow> server_error option \<times> server" where
  "RemoveForwardCommands ev commands fromDestination s =
     (case connection (srv_mgr s) fromDestination True of
        Inl e \<Rightarrow> (Some (MgrFailed e), s)
      | Inr c \<Rightarrow>
          let name = cn_name (srv_conn s c) in
          (case cm_RemoveForwardCommands name commands (srv_mgr s) of
             Inl e \<Rightarrow> (Some (MgrFailed e), s)
           | Inr m \<Rightarrow> (None, recordChange ev name (dropForwards commands) (s\<lparr>srv_mgr := m\<rparr>))))"

definition computeMissingEnvForward :: "string list \<Rightarrow> string list \<Rightarrow> string list" where
  "computeMissingEnvForward desired active = filter (\<lambda>d. d \<notin> set active) desired"

definition UpdateEnvForward :: "server_env \<Rightarrow> string list \<Rightarrow> string \<Rightarrow> server \<Rightarrow> server_error option \<times> server" where
  "UpdateEnvForward ev names toDestination s =
     (case validateEnvForwardNames names of
        Some e \<Rightarrow> (Some (EnvRefused e), s)
      | None \<Rightarrow>
          (case connection (srv_mgr s) toDestination True of
             Inl e \<Rightarrow> (Some (MgrFailed e), s)
           | Inr c \<Rightarrow>
               let name = cn_name (srv_conn s c);
                   missing = computeMissingEnvForward names (cn_envFwdList (srv_conn s c)) in
               if length missing = 0 then (None, s)
               else
                 (case cm_UpdateEnvForward name missing (srv_mgr s) of
                    Inl e \<Rightarrow> (Some (MgrFailed e), s)
                  | Inr m \<Rightarrow>
                      (None, recordChange ev name (\<lambda>conf. conf\<lparr>cc_EnvForward := cc_EnvForward conf @ missing\<rparr>)
                               (s\<lparr>srv_mgr := m\<rparr>)))))"

definition RemoveEnvForward :: "server_env \<Rightarrow> string list \<Rightarrow> string \<Rightarrow> server \<Rightarrow> server_error option \<times> server" where
  "RemoveEnvForward ev names fromDestination s =
     (case connection (srv_mgr s) fromDestination True of
        Inl e \<Rightarrow> (Some (MgrFailed e), s)
      | Inr c \<Rightarrow>
          let name = cn_name (srv_conn s c) in
          (case cm_RemoveEnvForward name names (srv_mgr s) of
             Inl e \<Rightarrow> (Some (MgrFailed e), s)
           | Inr m \<Rightarrow>
               (None, recordChange ev name
                        (\<lambda>conf. conf\<lparr>cc_EnvForward := filter (\<lambda>n. n \<notin> set names) (cc_EnvForward conf)\<rparr>)
                        (s\<lparr>srv_mgr := m\<rparr>))))"

definition SetForwardAgent :: "server_env \<Rightarrow> bool \<Rightarrow> string \<Rightarrow> server \<Rightarrow> server_error option \<times> server" where
  "SetForwardAgent ev enabled toDestination s =
     (case connection (srv_mgr s) toDestination True of
        Inl e \<Rightarrow> (Some (MgrFailed e), s)
      | Inr c \<Rightarrow> (None, recordChange ev (cn_name (srv_conn s c)) (\<lambda>conf. conf\<lparr>cc_ForwardAgent := enabled\<rparr>) s))"

definition UpdateSynchronizations :: "server_env \<Rightarrow> string \<Rightarrow> server \<Rightarrow> server_error option \<times> server" where
  "UpdateSynchronizations ev forConn s =
     (case connection (srv_mgr s) forConn True of
        Inl e \<Rightarrow> (Some (MgrFailed e), s)
      | Inr c \<Rightarrow>
          (None, recordChange ev (cn_name (srv_conn s c))
                   (\<lambda>conf. conf\<lparr>cc_Synchronizations := Synchronizations (srv_conn s c)\<rparr>) s))"

text \<open>
  The end of \<^verbatim>\<open>InitializeSSHConnection\<close> and \<^verbatim>\<open>InitializeContainerConnection\<close>, once the manager has given
  connection \<open>c\<close>.
\<close>

definition recordConnection :: "server_env \<Rightarrow> nat \<Rightarrow> string \<Rightarrow> bool \<Rightarrow> server \<Rightarrow> server" where
  "recordConnection ev c localRoot background s =
     persistConfig ev (s\<lparr>srv_config := srv_config s @
       [\<lparr>cc_Name = cn_name (srv_conn s c),
         cc_Destination = dm_destination (cm_daemon (srv_mgr s) (cn_daemon (srv_conn s c))),
         cc_LocalRoot = localRoot, cc_RemoteRoot = cn_remoteRoot (srv_conn s c), cc_Forward = [],
         cc_PrefixForward = [], cc_Synchronizations = [], cc_Background = background, cc_Ports = [],
         cc_ForwardAgent = False, cc_EnvForward = []\<rparr>]\<rparr>)"

definition RemoveConnection :: "server_env \<Rightarrow> string \<Rightarrow> server \<Rightarrow> server_error option \<times> server" where
  "RemoveConnection ev name s =
     (case cm_remove (ev_path ev) name False (srv_mgr s) of
        Inl e \<Rightarrow> (Some (MgrFailed e), s)
      | Inr m \<Rightarrow>
          (None, persistConfig ev (s\<lparr>srv_mgr := m, srv_config := filter (\<lambda>cc. cc_Name cc \<noteq> name) (srv_config s)\<rparr>)))"

definition UpdateConnectionRoots ::
    "server_env \<Rightarrow> string \<Rightarrow> string \<Rightarrow> string \<Rightarrow> server \<Rightarrow> server_error option \<times> server" where
  "UpdateConnectionRoots ev connName localRoot remoteRoot s =
     (case connection (srv_mgr s) connName True of
        Inl e \<Rightarrow> (Some (MgrFailed e), s)
      | Inr c \<Rightarrow>
          (case SetRoots (srv_conn s c) localRoot remoteRoot of
             Inl e \<Rightarrow> (Some (RootsRefused e), s)
           | Inr conn \<Rightarrow>
               let m = writeConnectionRootsFile (ev_path ev) (set_conn c conn (srv_mgr s)) in
               (None, recordChange ev (cn_name conn)
                        (\<lambda>conf. let c1 = (if localRoot \<noteq> '''' then conf\<lparr>cc_LocalRoot := localRoot\<rparr> else conf)
                                in if remoteRoot \<noteq> '''' then c1\<lparr>cc_RemoteRoot := remoteRoot\<rparr> else c1)
                        (s\<lparr>srv_mgr := m\<rparr>))))"

text \<open>\<^verbatim>\<open>AddPortForwards\<close> stops at the first port that cannot be forwarded; the ports before it stay forwarded.\<close>

fun addPorts ::
    "(net_query \<Rightarrow> 32 word \<Rightarrow> bool) \<Rightarrow> PortForwardSpec list \<Rightarrow> port_daemon \<Rightarrow> add_error option \<times> port_daemon" where
  "addPorts foreign [] d = (None, d)"
| "addPorts foreign (spec # specs) d =
     (case AddExplicitPortForward foreign spec d of
        (Some e, d1) \<Rightarrow> (Some e, d1)
      | (None, d1) \<Rightarrow> addPorts foreign specs d1)"

definition addPortSpecs :: "string list \<Rightarrow> ConnectionConfig \<Rightarrow> ConnectionConfig" where
  "addPortSpecs specStrs conf =
     conf\<lparr>cc_Ports := foldl (\<lambda>ports p. if p \<in> set ports then ports else ports @ [p]) (cc_Ports conf) specStrs\<rparr>"

abbreviation set_ports :: "nat \<Rightarrow> port_daemon \<Rightarrow> server \<Rightarrow> server" where
  "set_ports d v s \<equiv> s\<lparr>srv_ports := (srv_ports s)(d := v)\<rparr>"

definition AddPortForwards ::
    "server_env \<Rightarrow> string \<Rightarrow> ExplicitPortForwardSpec option list \<Rightarrow> server \<Rightarrow> server_error option \<times> server" where
  "AddPortForwards ev connName ports s =
     (case connection (srv_mgr s) connName True of
        Inl e \<Rightarrow> (Some (MgrFailed e), s)
      | Inr c \<Rightarrow>
          let d = cn_daemon (srv_conn s c); specs = map PortForwardSpecFromProto ports in
          (case addPorts (ev_foreign ev) specs (srv_ports s d) of
             (Some e, pd) \<Rightarrow> (Some (PortRefused e), set_ports d pd s)
           | (None, pd) \<Rightarrow>
               (None, recordChange ev (cn_name (srv_conn s c)) (addPortSpecs (map PortForwardSpec_String specs))
                        (set_ports d pd s))))"

text \<open>The answer lists the ports that were not asked for explicitly.\<close>

fun removePorts :: "PortForwardSpec list \<Rightarrow> port_daemon \<Rightarrow> bool list \<times> port_daemon" where
  "removePorts [] d = ([], d)"
| "removePorts (spec # specs) d =
     (let (ok, d1) = RemoveExplicitPortForward spec d; (oks, d2) = removePorts specs d1 in (ok # oks, d2))"

definition RemovePortForwards ::
    "server_env \<Rightarrow> string \<Rightarrow> ExplicitPortForwardSpec option list \<Rightarrow> server
     \<Rightarrow> (server_error + ExplicitPortForwardSpec option list) \<times> server" where
  "RemovePortForwards ev connName ports s =
     (case connection (srv_mgr s) connName True of
        Inl e \<Rightarrow> (Inl (MgrFailed e), s)
      | Inr c \<Rightarrow>
          let d = cn_daemon (srv_conn s c); specs = map PortForwardSpecFromProto ports;
              (oks, pd) = removePorts specs (srv_ports s d);
              toRemove = map PortForwardSpec_String specs in
          (Inr (map fst (filter (\<lambda>(_, ok). \<not> ok) (zip ports oks))),
           recordChange ev (cn_name (srv_conn s c))
             (\<lambda>conf. conf\<lparr>cc_Ports := filter (\<lambda>p. p \<notin> set toRemove) (cc_Ports conf)\<rparr>)
             (set_ports d pd s)))"

subsection \<open>Synchronisations\<close>

definition cm_EstablishSynchronization ::
    "server_env \<Rightarrow> string \<Rightarrow> SynchronizationIntent \<Rightarrow> server \<Rightarrow> (server_error + string list) \<times> server" where
  "cm_EstablishSynchronization ev name intent s =
     (case connection (srv_mgr s) name True of
        Inl e \<Rightarrow> (Inl (MgrFailed e), s)
      | Inr c \<Rightarrow>
          (case EstablishSynchronization (ev_sync ev) (fst (ev_closes ev)) (snd (ev_closes ev)) (srv_conn s c)
                  (srv_sessions s) intent of
             (r, conn, sessions) \<Rightarrow>
               ((case r of Inl e \<Rightarrow> Inl (SyncFailed e) | Inr shadowed \<Rightarrow> Inr shadowed),
                s\<lparr>srv_mgr := set_conn c conn (srv_mgr s), srv_sessions := sessions\<rparr>)))"

text \<open>The part of \<^verbatim>\<open>SyncFilesToConnection\<close> that completes a request: \<open>identity\<close> is the server's.\<close>

definition syncRequestIntent ::
    "server_env \<Rightarrow> string \<Rightarrow> string \<Rightarrow> SynchronizationIntent \<Rightarrow> server \<Rightarrow> server_error + SynchronizationIntent" where
  "syncRequestIntent ev identity connName req s =
     (case connection (srv_mgr s) connName True of
        Inl e \<Rightarrow> Inl (MgrFailed e)
      | Inr c \<Rightarrow>
          (case canonicalizeSyncFromLocal (cn_localRoot (srv_conn s c)) (si_FromLocal req) of
             Inl e \<Rightarrow> Inl (SyncFailed e)
           | Inr sourceDir \<Rightarrow>
               (case validateSyncModes (si_DefaultFileMode req) (si_DefaultDirectoryMode req) of
                  Some e \<Rightarrow> Inl (SyncFailed e)
                | None \<Rightarrow>
                    let modes = SyncModesFor (srv_config s) connName sourceDir in
                    Inr \<lparr>si_FromLocal = sourceDir,
                         si_ToRemote =
                           (if si_ToRemote req = '''' then
                              defaultSyncRemotePath (se_sha256 (ev_sync ev))
                                (dm_homeDir (cm_daemon (srv_mgr s) (cn_daemon (srv_conn s c)))) identity sourceDir
                            else si_ToRemote req),
                         si_SyncGit = si_SyncGit req,
                         si_SyncInclude =
                           (if length (si_SyncInclude req) = 0 then SyncIncludesFor (srv_config s) connName sourceDir
                            else si_SyncInclude req),
                         si_DefaultFileMode =
                           (if si_DefaultFileMode req = '''' then fst modes else si_DefaultFileMode req),
                         si_DefaultDirectoryMode =
                           (if si_DefaultDirectoryMode req = '''' then snd modes else si_DefaultDirectoryMode req)\<rparr>)))"

definition SyncFilesToConnection ::
    "server_env \<Rightarrow> string \<Rightarrow> string \<Rightarrow> SynchronizationIntent \<Rightarrow> server \<Rightarrow> (server_error + string list) \<times> server" where
  "SyncFilesToConnection ev identity connName req s =
     (case syncRequestIntent ev identity connName req s of
        Inl e \<Rightarrow> (Inl e, s)
      | Inr intent \<Rightarrow>
          (case cm_EstablishSynchronization ev connName intent s of
             (Inl e, s1) \<Rightarrow> (Inl e, s1)
           | (Inr shadowed, s1) \<Rightarrow>
               (case UpdateSynchronizations ev connName s1 of
                  (Some e, s2) \<Rightarrow> (Inl e, s2)
                | (None, s2) \<Rightarrow> (Inr shadowed, s2))))"

subsection \<open>Reconciliation\<close>

text \<open>The intents that are active under a source directory; of several with one source the last one counts.\<close>

definition computeMissingSyncs :: "SynchronizationIntent list \<Rightarrow> SynchronizationIntent list \<Rightarrow> SynchronizationIntent list" where
  "computeMissingSyncs desired active =
     filter (\<lambda>intent.
       \<not> (case map_of (rev (map (\<lambda>a. (si_FromLocal a, a)) active)) (si_FromLocal intent) of
            None \<Rightarrow> False
          | Some existing \<Rightarrow>
              si_ToRemote existing = si_ToRemote intent \<and> si_SyncGit existing = si_SyncGit intent \<and>
              syncModesCompatible (si_DefaultFileMode existing) (si_DefaultDirectoryMode existing)
                (si_DefaultFileMode intent) (si_DefaultDirectoryMode intent) \<and>
              syncIncludesCompatible (si_SyncInclude existing) (si_SyncInclude intent))) desired"

definition computeMissingForwardCommands ::
    "ForwardCommandIntent list \<Rightarrow> ForwardCommandIntent list \<Rightarrow> ForwardCommandIntent list" where
  "computeMissingForwardCommands desired active = filter (\<lambda>d. d \<notin> set active) desired"

definition expectedSyncSessionNames :: "(string \<Rightarrow> byte list) \<Rightarrow> root_config \<Rightarrow> string list" where
  "expectedSyncSessionNames sha256 pending =
     concat (map (\<lambda>conf.
       concat (map (\<lambda>intent.
         syncSessionName sha256 (cc_Name conf) intent
         # (if si_SyncGit intent then [syncSessionName sha256 (cc_Name conf) (gitReplicaIntent intent)] else []))
         (canonicalizeSyncIntentConfigs (cc_LocalRoot conf) (cc_Synchronizations conf)))) pending)"

definition reapOrphanSyncs :: "server_env \<Rightarrow> root_config \<Rightarrow> server \<Rightarrow> server" where
  "reapOrphanSyncs ev pending s =
     (if \<not> se_list (ev_sync ev) then s
      else
        let expected = expectedSyncSessionNames (se_sha256 (ev_sync ev)) pending in
        s\<lparr>srv_sessions := filter (\<lambda>ss. \<not> (isGraftSyncName (ss_name ss) \<and> ss_name ss \<notin> set expected \<and>
                                           se_terminate (ev_sync ev) (ss_id ss))) (srv_sessions s)\<rparr>)"

definition reconcileSyncs :: "server_env \<Rightarrow> nat \<Rightarrow> ConnectionConfig \<Rightarrow> server \<Rightarrow> server" where
  "reconcileSyncs ev c conf s =
     foldl (\<lambda>s intent. snd (cm_EstablishSynchronization ev (cc_Name conf) intent s)) s
       (computeMissingSyncs (canonicalizeSyncIntentConfigs (cc_LocalRoot conf) (cc_Synchronizations conf))
         (Synchronizations (srv_conn s c)))"

definition desiredForwards :: "ConnectionConfig \<Rightarrow> ForwardCommandIntent list" where
  "desiredForwards conf =
     map (\<lambda>name. \<lparr>fi_Name = name, fi_Prefix = False, fi_Global = False\<rparr>) (cc_Forward conf)
     @ map (\<lambda>name. \<lparr>fi_Name = name, fi_Prefix = True, fi_Global = False\<rparr>) (cc_PrefixForward conf)"

abbreviation upd_conn :: "nat \<Rightarrow> (Connection \<Rightarrow> Connection) \<Rightarrow> server \<Rightarrow> server" where
  "upd_conn c f s \<equiv> s\<lparr>srv_mgr := set_conn c (f (srv_conn s c)) (srv_mgr s)\<rparr>"

definition reconcileForwardCommands :: "nat \<Rightarrow> ConnectionConfig \<Rightarrow> server \<Rightarrow> server" where
  "reconcileForwardCommands c conf s =
     (let missing = computeMissingForwardCommands (desiredForwards conf) (cn_fwdList (srv_conn s c)) in
      if length missing = 0 then s else upd_conn c (\<lambda>conn. cn_UpdateForwardCommands conn missing) s)"

definition reconcileEnvForward :: "nat \<Rightarrow> ConnectionConfig \<Rightarrow> server \<Rightarrow> server" where
  "reconcileEnvForward c conf s =
     (let missing = computeMissingEnvForward (cc_EnvForward conf) (cn_envFwdList (srv_conn s c)) in
      if length missing = 0 then s else upd_conn c (\<lambda>conn. cn_UpdateEnvForward conn missing) s)"

definition addPortText :: "(net_query \<Rightarrow> 32 word \<Rightarrow> bool) \<Rightarrow> port_daemon \<Rightarrow> string \<Rightarrow> port_daemon" where
  "addPortText foreign pd portSpec =
     (case ParsePortSpec portSpec of Inl _ \<Rightarrow> pd | Inr spec \<Rightarrow> snd (AddExplicitPortForward foreign spec pd))"

definition srv_reconcilePortForwards :: "server_env \<Rightarrow> nat \<Rightarrow> ConnectionConfig \<Rightarrow> server \<Rightarrow> server" where
  "srv_reconcilePortForwards ev c conf s =
     (let d = cn_daemon (srv_conn s c) in
      set_ports d (foldl (addPortText (ev_foreign ev)) (srv_ports s d) (cc_Ports conf)) s)"

definition reconcileAgentForward :: "nat \<Rightarrow> ConnectionConfig \<Rightarrow> server \<Rightarrow> server" where
  "reconcileAgentForward c conf s =
     (let d = cn_daemon (srv_conn s c); name = cn_name (srv_conn s c); a = srv_agents s d in
      s\<lparr>srv_agents := (srv_agents s)(d :=
          if cc_ForwardAgent conf then startAgentForward name a
          else a\<lparr>as_daemon := stopAgentForward name (as_daemon a)\<rparr>)\<rparr>)"

definition applyConnectionSpec :: "server_env \<Rightarrow> nat \<Rightarrow> ConnectionConfig \<Rightarrow> server \<Rightarrow> server" where
  "applyConnectionSpec ev c conf s =
     reconcileAgentForward c conf (srv_reconcilePortForwards ev c conf (reconcileSyncs ev c conf
       (reconcileEnvForward c conf (reconcileForwardCommands c conf s))))"

definition reconcileOne :: "server_env \<Rightarrow> bool \<times> server \<Rightarrow> ConnectionConfig \<Rightarrow> bool \<times> server" where
  "reconcileOne ev acc conf =
     (case acc of
        (anyConnected, s) \<Rightarrow>
          (case connection (srv_mgr s) (cc_Name conf) False of
             Inl _ \<Rightarrow> (anyConnected, s)
           | Inr c \<Rightarrow>
               if fst (cn_State (\<lambda>d. (dm_state (cm_daemon (srv_mgr s) d), '''')) (srv_conn s c)) \<noteq> ConnectionStateConnected
               then (anyConnected, s)
               else (True, applyConnectionSpec ev c conf s)))"

text \<open>\<open>due\<close>: enough time has passed since orphans were last reaped.\<close>

definition reconcileConnections :: "server_env \<Rightarrow> bool \<Rightarrow> server \<Rightarrow> server" where
  "reconcileConnections ev due s =
     (let pending = srv_config s; (anyConnected, s1) = foldl (reconcileOne ev) (False, s) pending in
      if anyConnected \<and> due then reapOrphanSyncs ev pending s1 else s1)"

text \<open>
  One goroutine of \<^verbatim>\<open>restore\<close>, after the manager has restored the connection: it stops at the first error.
\<close>

fun restoreSyncs :: "server_env \<Rightarrow> string \<Rightarrow> SynchronizationIntent list \<Rightarrow> server \<Rightarrow> server_error option \<times> server" where
  "restoreSyncs ev name [] s = (None, s)"
| "restoreSyncs ev name (intent # intents) s =
     (case cm_EstablishSynchronization ev name intent s of
        (Inl e, s1) \<Rightarrow> (Some e, s1)
      | (Inr _, s1) \<Rightarrow> restoreSyncs ev name intents s1)"

definition restorePortForwards :: "server_env \<Rightarrow> ConnectionConfig \<Rightarrow> server \<Rightarrow> server" where
  "restorePortForwards ev conf s =
     (if length (cc_Ports conf) = 0 then s
      else
        (case connection (srv_mgr s) (cc_Name conf) True of
           Inl _ \<Rightarrow> s
         | Inr c \<Rightarrow> srv_reconcilePortForwards ev c conf s))"

definition restoreSpec :: "server_env \<Rightarrow> ConnectionConfig \<Rightarrow> server \<Rightarrow> server_error option \<times> server" where
  "restoreSpec ev conf s =
     (case cm_UpdateForwardCommands (cc_Name conf) (desiredForwards conf) (srv_mgr s) of
        Inl e \<Rightarrow> (Some (MgrFailed e), s)
      | Inr m \<Rightarrow>
          (case restoreSyncs ev (cc_Name conf) (cc_Synchronizations conf) (s\<lparr>srv_mgr := m\<rparr>) of
             (Some e, s1) \<Rightarrow> (Some e, s1)
           | (None, s1) \<Rightarrow> (None, restorePortForwards ev conf s1)))"

subsection \<open>Requests by connection name\<close>

text \<open>The handlers look the connection up, and pass its name on to the operation, which looks it up again.\<close>

definition viaConnection :: "string \<Rightarrow> (string \<Rightarrow> server \<Rightarrow> server_error option \<times> server) \<Rightarrow> server \<Rightarrow> server_error option \<times> server" where
  "viaConnection connName f s =
     (case connection (srv_mgr s) connName True of
        Inl e \<Rightarrow> (Some (MgrFailed e), s)
      | Inr c \<Rightarrow> f (cn_name (srv_conn s c)) s)"

definition UpdateConnectionForwardCommands ::
    "server_env \<Rightarrow> string \<Rightarrow> string list \<Rightarrow> bool \<Rightarrow> server \<Rightarrow> server_error option \<times> server" where
  "UpdateConnectionForwardCommands ev connName commands prefixCommands =
     viaConnection connName
       (UpdateForwardCommands ev
         (map (\<lambda>cmd. \<lparr>fi_Name = cmd, fi_Prefix = prefixCommands, fi_Global = False\<rparr>) commands))"

definition RemoveConnectionForwardCommands ::
    "server_env \<Rightarrow> string \<Rightarrow> string list \<Rightarrow> server \<Rightarrow> server_error option \<times> server" where
  "RemoveConnectionForwardCommands ev connName commands = viaConnection connName (RemoveForwardCommands ev commands)"

definition UpdateConnectionEnvForward ::
    "server_env \<Rightarrow> string \<Rightarrow> string list \<Rightarrow> server \<Rightarrow> server_error option \<times> server" where
  "UpdateConnectionEnvForward ev connName names = viaConnection connName (UpdateEnvForward ev names)"

definition RemoveConnectionEnvForward ::
    "server_env \<Rightarrow> string \<Rightarrow> string list \<Rightarrow> server \<Rightarrow> server_error option \<times> server" where
  "RemoveConnectionEnvForward ev connName names = viaConnection connName (RemoveEnvForward ev names)"

definition SetConnectionForwardAgent ::
    "server_env \<Rightarrow> string \<Rightarrow> bool \<Rightarrow> server \<Rightarrow> server_error option \<times> server" where
  "SetConnectionForwardAgent ev connName enabled = viaConnection connName (SetForwardAgent ev enabled)"

definition GetConnectionEnvForward :: "string \<Rightarrow> server \<Rightarrow> server_error + string list" where
  "GetConnectionEnvForward connName s =
     (case connection (srv_mgr s) connName True of
        Inl e \<Rightarrow> Inl (MgrFailed e)
      | Inr c \<Rightarrow> Inr (cn_envFwdList (srv_conn s c)))"

text \<open>
  What happens to the server: a request, a tick of the loop, the end of an initialization, which brings the
  manager as it is then, or anything else that happens to the live state.
\<close>

datatype request =
    ForwardCommands string "string list" bool
  | UnforwardCommands string "string list"
  | ForwardEnv string "string list"
  | UnforwardEnv string "string list"
  | ForwardTheAgent string bool
  | SyncFiles string string SynchronizationIntent
  | Connected ConnectionManager nat string bool
  | Disconnect string
  | ChangeRoots string string string
  | ForwardPorts string "ExplicitPortForwardSpec option list"
  | UnforwardPorts string "ExplicitPortForwardSpec option list"
  | Tick bool
  | Live ConnectionManager "nat \<Rightarrow> port_daemon" "nat \<Rightarrow> agent_sys" "sync_session list"

fun serve :: "server \<Rightarrow> server_env \<times> request \<Rightarrow> server" where
  "serve s (ev, ForwardCommands name cmds pre) = snd (UpdateConnectionForwardCommands ev name cmds pre s)"
| "serve s (ev, UnforwardCommands name cmds) = snd (RemoveConnectionForwardCommands ev name cmds s)"
| "serve s (ev, ForwardEnv name names) = snd (UpdateConnectionEnvForward ev name names s)"
| "serve s (ev, UnforwardEnv name names) = snd (RemoveConnectionEnvForward ev name names s)"
| "serve s (ev, ForwardTheAgent name enabled) = snd (SetConnectionForwardAgent ev name enabled s)"
| "serve s (ev, SyncFiles identity name req) = snd (SyncFilesToConnection ev identity name req s)"
| "serve s (ev, Connected m c localRoot background) = recordConnection ev c localRoot background (s\<lparr>srv_mgr := m\<rparr>)"
| "serve s (ev, Disconnect name) = snd (RemoveConnection ev name s)"
| "serve s (ev, ChangeRoots name localRoot remoteRoot) = snd (UpdateConnectionRoots ev name localRoot remoteRoot s)"
| "serve s (ev, ForwardPorts name ports) = snd (AddPortForwards ev name ports s)"
| "serve s (ev, UnforwardPorts name ports) = snd (RemovePortForwards ev name ports s)"
| "serve s (ev, Tick due) = reconcileConnections ev due s"
| "serve s (ev, Live m ports agents sessions) =
     s\<lparr>srv_mgr := m, srv_ports := ports, srv_agents := agents, srv_sessions := sessions\<rparr>"

definition serveAll :: "server \<Rightarrow> (server_env \<times> request) list \<Rightarrow> server" where
  "serveAll s reqs = foldl serve s reqs"

subsection \<open>How requests change the configuration\<close>

text \<open>The connection whose entry a request changes: it is looked up by the name of the request, and then by its own.\<close>

definition target :: "server \<Rightarrow> string \<Rightarrow> nat \<Rightarrow> bool" where
  "target s name c \<longleftrightarrow>
     connection (srv_mgr s) name True = Inr c \<or>
     (\<exists>c'. connection (srv_mgr s) name True = Inr c' \<and> connection (srv_mgr s) (cn_name (srv_conn s c')) True = Inr c)"

text \<open>
  Every request leaves configuration and file alone, or changes the configuration in one way and then persists it.
\<close>

definition updated :: "server \<Rightarrow> string \<Rightarrow> (nat \<Rightarrow> ConnectionConfig \<Rightarrow> ConnectionConfig) \<Rightarrow> root_config set" where
  "updated s name f = {updateEntry (cn_name (srv_conn s c)) (f c) (srv_config s) |c. target s name c}"

fun configChange :: "request \<Rightarrow> server \<Rightarrow> root_config set" where
  "configChange (ForwardCommands name cmds pre) s =
     updated s name (\<lambda>_. addForwards (map (\<lambda>cmd. \<lparr>fi_Name = cmd, fi_Prefix = pre, fi_Global = False\<rparr>) cmds))"
| "configChange (UnforwardCommands name cmds) s = updated s name (\<lambda>_. dropForwards cmds)"
| "configChange (ForwardEnv name names) s =
     updated s name (\<lambda>c conf. conf\<lparr>cc_EnvForward :=
       cc_EnvForward conf @ computeMissingEnvForward names (cn_envFwdList (srv_conn s c))\<rparr>)"
| "configChange (UnforwardEnv name names) s =
     updated s name (\<lambda>_ conf. conf\<lparr>cc_EnvForward := filter (\<lambda>x. x \<notin> set names) (cc_EnvForward conf)\<rparr>)"
| "configChange (ForwardTheAgent name enabled) s = updated s name (\<lambda>_ conf. conf\<lparr>cc_ForwardAgent := enabled\<rparr>)"
| "configChange (SyncFiles identity name req) s =
     {updateEntry n (\<lambda>conf. conf\<lparr>cc_Synchronizations := Synchronizations conn\<rparr>) (srv_config s) |n c conn ev intent r ss.
        connection (srv_mgr s) name True = Inr c \<and>
        EstablishSynchronization (ev_sync (ev :: server_env)) (fst (ev_closes ev)) (snd (ev_closes ev)) (srv_conn s c)
          (srv_sessions s) intent = (r, conn, ss)}"
| "configChange (Connected m c localRoot background) s =
     {srv_config s @
       [\<lparr>cc_Name = cn_name (cm_conn m c), cc_Destination = dm_destination (cm_daemon m (cn_daemon (cm_conn m c))),
         cc_LocalRoot = localRoot, cc_RemoteRoot = cn_remoteRoot (cm_conn m c), cc_Forward = [],
         cc_PrefixForward = [], cc_Synchronizations = [], cc_Background = background, cc_Ports = [],
         cc_ForwardAgent = False, cc_EnvForward = []\<rparr>]}"
| "configChange (Disconnect name) s = {filter (\<lambda>cc. cc_Name cc \<noteq> name) (srv_config s)}"
| "configChange (ChangeRoots name localRoot remoteRoot) s =
     updated s name (\<lambda>_ conf. let c1 = (if localRoot \<noteq> '''' then conf\<lparr>cc_LocalRoot := localRoot\<rparr> else conf)
                             in if remoteRoot \<noteq> '''' then c1\<lparr>cc_RemoteRoot := remoteRoot\<rparr> else c1)"
| "configChange (ForwardPorts name ports) s =
     updated s name (\<lambda>_. addPortSpecs (map (\<lambda>p. PortForwardSpec_String (PortForwardSpecFromProto p)) ports))"
| "configChange (UnforwardPorts name ports) s =
     updated s name (\<lambda>_ conf. conf\<lparr>cc_Ports :=
       filter (\<lambda>p. p \<notin> (\<lambda>p. PortForwardSpec_String (PortForwardSpecFromProto p)) ` set ports) (cc_Ports conf)\<rparr>)"
| "configChange (Tick due) s = {}"
| "configChange (Live m ports agents sessions) s = {}"

definition same_record :: "server \<Rightarrow> server \<Rightarrow> bool" where
  "same_record s s' \<longleftrightarrow> srv_config s' = srv_config s \<and> srv_file s' = srv_file s"

lemma same_record_simps [simp]:
  "same_record s s" "same_record s (s'\<lparr>srv_mgr := m\<rparr>) = same_record s s'"
  "same_record s (s'\<lparr>srv_ports := p\<rparr>) = same_record s s'" "same_record s (s'\<lparr>srv_agents := a\<rparr>) = same_record s s'"
  "same_record s (s'\<lparr>srv_sessions := x\<rparr>) = same_record s s'"
  by (simp_all add: same_record_def)

lemma same_record_trans: "same_record s t \<Longrightarrow> same_record t u \<Longrightarrow> same_record s u"
  by (simp add: same_record_def)

lemma same_record_foldl: "(\<And>s x. same_record s (f s x)) \<Longrightarrow> same_record s (foldl f s xs)"
  by (induction xs arbitrary: s) (auto intro: same_record_trans)

lemma establish_same_record: "same_record s (snd (cm_EstablishSynchronization ev name intent s))"
  by (simp add: cm_EstablishSynchronization_def split: sum.split prod.split)

lemma reconcileSyncs_same_record: "same_record s (reconcileSyncs ev c conf s)"
  by (simp add: reconcileSyncs_def same_record_foldl establish_same_record)

lemma apply_same_record: "same_record s (applyConnectionSpec ev c conf s)"
proof -
  have fwd: "same_record s (reconcileForwardCommands c conf s)" for s
    by (simp add: reconcileForwardCommands_def Let_def)
  have env: "same_record s (reconcileEnvForward c conf s)" for s
    by (simp add: reconcileEnvForward_def Let_def)
  have ports: "same_record s (srv_reconcilePortForwards ev c conf s)" for s
    by (simp add: srv_reconcilePortForwards_def Let_def)
  have agents: "same_record s (reconcileAgentForward c conf s)" for s
    by (simp add: reconcileAgentForward_def Let_def)
  show ?thesis
    unfolding applyConnectionSpec_def
    by (meson fwd env ports agents reconcileSyncs_same_record same_record_trans)
qed

lemma reconcile_same_record: "same_record s (reconcileConnections ev due s)"
proof -
  have one: "same_record (snd acc) (snd (reconcileOne ev acc conf))" for acc conf
    by (simp add: reconcileOne_def apply_same_record split: prod.split sum.split)
  have "same_record (snd acc) (snd (foldl (reconcileOne ev) acc confs))" for acc confs
  proof (induction confs arbitrary: acc)
    case (Cons conf confs)
    from same_record_trans [OF one Cons.IH] show ?case
      by simp
  qed simp
  from this [of "(False, s)" "srv_config s"] show ?thesis
    by (auto simp: reconcileConnections_def reapOrphanSyncs_def Let_def split: prod.split)
qed

definition recorded_change :: "server_env \<Rightarrow> root_config set \<Rightarrow> server \<Rightarrow> server \<Rightarrow> bool" where
  "recorded_change ev confs s s' \<longleftrightarrow>
     same_record s s' \<or>
     (srv_config s' \<in> confs \<and> srv_file s' = snd (Persist (ev_marshal ev) (ev_write ev) (srv_config s') (srv_file s)))"

lemma recordChange_recorded:
  "same_record s t \<Longrightarrow> updateEntry name f (srv_config s) \<in> confs \<Longrightarrow> recorded_change ev confs s (recordChange ev name f t)"
  by (simp add: recorded_change_def recordChange_def persistConfig_def same_record_def)

lemma recorded_same: "same_record s s' \<Longrightarrow> recorded_change ev confs s s'"
  by (simp add: recorded_change_def)

lemma SetRoots_name: "SetRoots conn localRoot remoteRoot = Inr conn' \<Longrightarrow> cn_name conn' = cn_name conn"
  by (auto simp: SetRoots_def Let_def split: if_splits)

lemmas recorded_simps = viaConnection_def updated_def target_def Let_def recorded_same

lemma serve_recorded: "recorded_change ev (configChange r s) s (serve s (ev, r))"
proof (cases r)
  case (ForwardCommands name cmds pre)
  then show ?thesis
    by (auto simp: UpdateConnectionForwardCommands_def UpdateForwardCommands_def recorded_simps
        split: sum.split intro!: recordChange_recorded)
next
  case (UnforwardCommands name cmds)
  then show ?thesis
    by (auto simp: RemoveConnectionForwardCommands_def RemoveForwardCommands_def recorded_simps
        split: sum.split intro!: recordChange_recorded)
next
  case (ForwardEnv name names)
  then show ?thesis
    by (auto simp: UpdateConnectionEnvForward_def UpdateEnvForward_def recorded_simps
        split: sum.split option.split intro!: recordChange_recorded)
next
  case (UnforwardEnv name names)
  then show ?thesis
    by (auto simp: RemoveConnectionEnvForward_def RemoveEnvForward_def recorded_simps
        split: sum.split intro!: recordChange_recorded)
next
  case (ForwardTheAgent name enabled)
  then show ?thesis
    by (auto simp: SetConnectionForwardAgent_def SetForwardAgent_def recorded_simps
        split: sum.split intro!: recordChange_recorded)
next
  case (SyncFiles identity name req)
  show ?thesis
  proof (cases "syncRequestIntent ev identity name req s")
    case (Inl e)
    then show ?thesis
      by (simp add: SyncFiles SyncFilesToConnection_def recorded_same)
  next
    case (Inr intent)
    obtain x t where est: "cm_EstablishSynchronization ev name intent s = (x, t)"
      by fastforce
    then have same: "same_record s t"
      using establish_same_record [of s ev name intent] by simp
    have rec: "recorded_change ev (configChange r s) s (snd (UpdateSynchronizations ev name t))"
      if ok: "x = Inr shadowed" for shadowed
    proof -
      obtain c conn ss y where c: "connection (srv_mgr s) name True = Inr c"
          "EstablishSynchronization (ev_sync ev) (fst (ev_closes ev)) (snd (ev_closes ev)) (srv_conn s c)
             (srv_sessions s) intent = (y, conn, ss)" "srv_mgr t = set_conn c conn (srv_mgr s)"
        using est ok by (auto simp: cm_EstablishSynchronization_def split: sum.splits prod.splits)
      have "c' = c \<and> srv_conn t c' = conn" if "connection (srv_mgr t) name True = Inr c'" for c'
        using c that by (auto simp: connection_def Let_def split: option.splits if_splits)
      then show ?thesis
        using SyncFiles same c(1,2)
        by (fastforce simp: UpdateSynchronizations_def recorded_same split: sum.split intro!: recordChange_recorded)
    qed
    show ?thesis
      using rec same by (cases x) (auto simp: SyncFiles SyncFilesToConnection_def Inr est recorded_same
          split: prod.split option.split)
  qed
next
  case (Connected m c localRoot background)
  then show ?thesis
    by (simp add: recordConnection_def persistConfig_def recorded_change_def)
next
  case (Disconnect name)
  then show ?thesis
    by (auto simp: RemoveConnection_def persistConfig_def recorded_change_def split: sum.split)
next
  case (ChangeRoots name localRoot remoteRoot)
  then show ?thesis
    by (auto simp: UpdateConnectionRoots_def recorded_simps split: sum.split intro!: recordChange_recorded
        dest!: SetRoots_name)
next
  case (ForwardPorts name ports)
  then show ?thesis
    by (auto simp: AddPortForwards_def recorded_simps comp_def split: sum.split prod.split option.split
        intro!: recordChange_recorded)
next
  case (UnforwardPorts name ports)
  then show ?thesis
    by (auto simp: RemovePortForwards_def recorded_simps image_image split: sum.split prod.split
        intro!: recordChange_recorded)
next
  case (Tick due)
  then show ?thesis
    by (simp add: recorded_same reconcile_same_record)
next
  case (Live m ports agents sessions)
  then show ?thesis
    by (simp add: recorded_same)
qed

end
