(* ===== verification/ServerReconcile.thy ===== *)
theory ServerReconcile
  imports ServerConfig
begin

text \<open>
  What the requests of the local server and its reconciliation loop achieve: the file always holds a valid
  configuration, the configuration stays valid under requests that name nothing twice and is stuck after one that
  forwards a command twice, and a tick brings a connection to what its entry asks for. The last sections follow
  one server through a removal of a port and through the reaping of sessions.
\<close>

subsection \<open>What the file holds\<close>

text \<open>The file is missing or holds a valid configuration, as long as no write is cut short.\<close>

definition file_valid :: "(root_config \<Rightarrow> string option) \<Rightarrow> server \<Rightarrow> bool" where
  "file_valid marshal s \<longleftrightarrow>
     (\<forall>t. srv_file s = Some t \<longrightarrow> (\<exists>conf. validate conf = None \<and> marshal conf = Some t))"

definition whole_writes :: "(root_config \<Rightarrow> string option) \<Rightarrow> (server_env \<times> request) list \<Rightarrow> bool" where
  "whole_writes marshal reqs \<longleftrightarrow> (\<forall>(ev, r) \<in> set reqs. ev_marshal ev = marshal \<and> (\<forall>t. ev_write ev \<noteq> CutShort t))"

lemma serve_file_valid:
  assumes "file_valid marshal s" and "ev_marshal ev = marshal" and "\<forall>t. ev_write ev \<noteq> CutShort t"
  shows "file_valid marshal (serve s (ev, r))"
proof -
  have "srv_file (serve s (ev, r)) = srv_file s \<or>
      (\<exists>conf md. validate conf = None \<and> marshal conf = Some md \<and> srv_file (serve s (ev, r)) = Some md)"
    using serve_recorded [of ev r s] assms(2,3) persist_file [of marshal "ev_write ev" "srv_config (serve s (ev, r))" "srv_file s"]
    by (auto simp: recorded_change_def same_record_def)
  then show ?thesis
    using assms(1) by (auto simp: file_valid_def)
qed

lemma serveAll_file_valid:
  "file_valid marshal s \<Longrightarrow> whole_writes marshal reqs \<Longrightarrow> file_valid marshal (serveAll s reqs)"
  unfolding serveAll_def
  by (induction reqs arbitrary: s) (auto simp: whole_writes_def intro!: serve_file_valid)

subsection \<open>When a configuration stays valid\<close>

lemma updateEntry_names: "(\<And>conf. cc_Name (f conf) = cc_Name conf) \<Longrightarrow> map cc_Name (updateEntry name f confs) = map cc_Name confs"
  by (induction confs) auto

lemma updateEntry_set:
  "conf \<in> set (updateEntry name f confs) \<Longrightarrow> conf \<in> set confs \<or> (\<exists>old \<in> set confs. cc_Name old = name \<and> conf = f old)"
  by (induction confs) (auto split: if_splits)

lemma updateEntry_valid:
  assumes "validate confs = None" and "\<And>conf. cc_Name (f conf) = cc_Name conf"
    and "\<And>conf. conf \<in> set confs \<Longrightarrow> cc_Name conf = name \<Longrightarrow> conn_valid conf \<Longrightarrow> conn_valid (f conf)"
  shows "validate (updateEntry name f confs) = None"
proof -
  have "conn_valid conf" if "conf \<in> set (updateEntry name f confs)" for conf
    using updateEntry_set [OF that] assms(1,3) by (auto simp: validate_None)
  then show ?thesis
    using assms(1,2) by (simp add: validate_None updateEntry_names)
qed

definition modes_ok :: "Connection \<Rightarrow> bool" where
  "modes_ok conn \<longleftrightarrow> (\<forall>e \<in> snd ` set (cn_synchronizations conn).
     validateSyncModes (as_defaultFileMode e) (as_defaultDirectoryMode e) = None)"

lemma beta_modes: "syncBetaConfiguration i = Inr b \<Longrightarrow> validateSyncModes (si_DefaultFileMode i) (si_DefaultDirectoryMode i) = None"
  by (auto simp: syncBetaConfiguration_def syncModesConfiguration_def validateSyncModes_def split: sum.splits if_splits)

lemma recordSync_modes:
  assumes "recordSync env cl conn ss f e = (r, conn', ss')" and "modes_ok conn"
    and "validateSyncModes (as_defaultFileMode e) (as_defaultDirectoryMode e) = None"
  shows "modes_ok conn'"
proof -
  have "snd ` set (AList.update f e xs) \<subseteq> insert e (snd ` set xs)" for xs
    by (induction xs) auto
  then show ?thesis
    using assms by (fastforce simp: recordSync_def cn_Close_def modes_ok_def Let_def split: if_splits)
qed

lemma establishPrimary_modes:
  assumes "establishPrimary env c1 c2 conn ss i = (r, conn', ss')" and ok: "modes_ok conn"
  shows "modes_ok conn'"
proof (cases "syncBetaConfiguration i")
  case (Inl e)
  then show ?thesis
    using assms by (simp add: establishPrimary_def Let_def)
next
  case (Inr b)
  have valid: "validateSyncModes (si_DefaultFileMode i) (si_DefaultDirectoryMode i) = None"
    using beta_modes [OF Inr] .
  show ?thesis
    using assms(1) ok valid
    by (auto simp: establishPrimary_def Let_def Inr split: if_splits sum.splits option.splits prod.splits
        elim!: recordSync_modes)
qed

lemma flip_modes:
  assumes "applyGitReplicaFlip env c1 conn ss i ex = (r, conn', ss')" and "modes_ok conn"
    and "validateSyncModes (as_defaultFileMode ex) (as_defaultDirectoryMode ex) = None"
  shows "modes_ok conn'"
  using assms
  by (auto simp: applyGitReplicaFlip_def Let_def split: if_splits sum.splits option.splits prod.splits
      elim!: recordSync_modes)

lemma EstablishSynchronization_modes:
  assumes "EstablishSynchronization env c1 c2 conn ss i = (r, conn', ss')" and ok: "modes_ok conn"
  shows "modes_ok conn'"
proof -
  have ex: "validateSyncModes (as_defaultFileMode ex) (as_defaultDirectoryMode ex) = None"
    if "map_of (cn_synchronizations conn) f = Some ex" for f ex
    using ok map_of_SomeD [OF that] by (force simp: modes_ok_def)
  show ?thesis
    using assms
    by (auto simp: EstablishSynchronization_def Let_def split: sum.splits option.splits if_splits
        elim!: establishPrimary_modes flip_modes dest: ex)
qed

lemma modes_ok_Synchronizations:
  "modes_ok conn \<Longrightarrow> i \<in> set (Synchronizations conn) \<Longrightarrow>
   validateSyncModes (si_DefaultFileMode i) (si_DefaultDirectoryMode i) = None"
  by (force simp: modes_ok_def Synchronizations_def)

text \<open>Connections are registered under their own names.\<close>

definition names_ok :: "server \<Rightarrow> bool" where
  "names_ok s \<longleftrightarrow> (\<forall>(key, c) \<in> set (cm_connections (srv_mgr s)). cn_name (srv_conn s c) = key)"

lemma target_name:
  assumes "names_ok s" and "target s name c"
  shows "connection (srv_mgr s) name True = Inr c \<and> cn_name (srv_conn s c) = name"
proof -
  have key: "cn_name (srv_conn s c) = n" if "connection (srv_mgr s) n True = Inr c" for n c
    using that assms(1) by (force simp: connection_def names_ok_def Let_def split: option.splits if_splits dest: map_of_SomeD)
  show ?thesis
    using assms(2) key unfolding target_def by metis
qed

text \<open>
  Requests that name nothing twice: commands that are not forwarded yet, environment names for a connection that
  has all those of its entry, a connection under a new name, a synchronisation of a connection with valid modes.
\<close>

fun clean :: "server \<Rightarrow> request \<Rightarrow> bool" where
  "clean s (ForwardCommands name cmds pre) \<longleftrightarrow>
     distinct cmds \<and> (\<forall>conf \<in> set (srv_config s). cc_Name conf = name \<longrightarrow>
       set cmds \<inter> set (if pre then cc_PrefixForward conf else cc_Forward conf) = {})"
| "clean s (ForwardEnv name names) \<longleftrightarrow>
     distinct names \<and> (\<forall>conf \<in> set (srv_config s). \<forall>c. cc_Name conf = name \<longrightarrow>
       connection (srv_mgr s) name True = Inr c \<longrightarrow> set (cc_EnvForward conf) \<subseteq> set (cn_envFwdList (srv_conn s c)))"
| "clean s (SyncFiles identity name req) \<longleftrightarrow> (\<forall>c. connection (srv_mgr s) name True = Inr c \<longrightarrow> modes_ok (srv_conn s c))"
| "clean s (Connected m c localRoot background) \<longleftrightarrow>
     cn_name (cm_conn m c) \<noteq> '''' \<and> dm_destination (cm_daemon m (cn_daemon (cm_conn m c))) \<noteq> '''' \<and>
     cn_name (cm_conn m c) \<notin> cc_Name ` set (srv_config s)"
| "clean s _ \<longleftrightarrow> True"

lemma updated_valid:
  assumes "confs \<in> updated s name f" and "names_ok s" and "validate (srv_config s) = None"
    and "\<And>c conf. cc_Name (f c conf) = cc_Name conf"
    and "\<And>c conf. connection (srv_mgr s) name True = Inr c \<Longrightarrow> conf \<in> set (srv_config s) \<Longrightarrow> cc_Name conf = name \<Longrightarrow>
           conn_valid conf \<Longrightarrow> conn_valid (f c conf)"
  shows "validate confs = None"
proof -
  obtain c where c: "target s name c" "confs = updateEntry (cn_name (srv_conn s c)) (f c) (srv_config s)"
    using assms(1) by (auto simp: updated_def)
  then have "connection (srv_mgr s) name True = Inr c" "cn_name (srv_conn s c) = name"
    using target_name [OF assms(2)] by blast+
  then show ?thesis
    unfolding c(2) using assms(3-5) by (intro updateEntry_valid) auto
qed

lemma configChange_valid:
  assumes "confs \<in> configChange r s" and "names_ok s" and "validate (srv_config s) = None" and "clean s r"
  shows "validate confs = None"
proof (cases r)
  case (ForwardCommands name cmds pre)
  show ?thesis
    using assms(1,4) unfolding ForwardCommands configChange.simps
    by (elim updated_valid [OF _ assms(2,3)])
      (auto simp: addForwards_def conn_valid_def filter_map comp_def split: if_splits)
next
  case (ForwardEnv name names)
  show ?thesis
    using assms(1,4) unfolding ForwardEnv configChange.simps
    by (elim updated_valid [OF _ assms(2,3)]) (auto simp: conn_valid_def computeMissingEnvForward_def)
next
  case (SyncFiles identity name req)
  then obtain n c conn ev intent x ss where n: "confs = updateEntry n (\<lambda>conf. conf\<lparr>cc_Synchronizations := Synchronizations conn\<rparr>) (srv_config s)"
      "connection (srv_mgr s) name True = Inr c"
      "EstablishSynchronization (ev_sync (ev :: server_env)) (fst (ev_closes ev)) (snd (ev_closes ev)) (srv_conn s c)
          (srv_sessions s) intent = (x, conn, ss)"
    using assms(1) by auto
  have "modes_ok conn"
    using EstablishSynchronization_modes [OF n(3)] n(2) assms(4) SyncFiles by simp
  then show ?thesis
    unfolding n(1) using assms(3)
    by (intro updateEntry_valid) (auto simp: conn_valid_def dest: modes_ok_Synchronizations)
next
  case (Connected m c localRoot background)
  then show ?thesis
    using assms(1,3,4) by (auto simp: validate_None conn_valid_def)
next
  case (Disconnect name)
  then show ?thesis
    using assms(1,3) by (auto simp: validate_None distinct_map_filter)
qed (use assms(1) in \<open>auto elim!: updated_valid [OF _ assms(2,3)] simp: conn_valid_def dropForwards_def addPortSpecs_def Let_def\<close>)

subsection \<open>An entry that stays invalid\<close>

text \<open>An entry of \<open>name\<close> lists command \<open>cmd\<close> twice.\<close>

definition listed_twice :: "string \<Rightarrow> string \<Rightarrow> root_config \<Rightarrow> bool" where
  "listed_twice name cmd confs \<longleftrightarrow> (\<exists>conf \<in> set confs. cc_Name conf = name \<and> 2 \<le> count_list (cc_Forward conf) cmd)"

lemma count_list_distinct: "distinct xs \<Longrightarrow> count_list xs x \<le> 1"
  by (induction xs) (auto simp: count_list_0_iff)

lemma listed_twice_invalid: "listed_twice name cmd confs \<Longrightarrow> validate confs \<noteq> None"
proof
  assume "listed_twice name cmd confs" "validate confs = None"
  then obtain conf :: ConnectionConfig where "distinct (cc_Forward conf)" "2 \<le> count_list (cc_Forward conf) cmd"
    unfolding listed_twice_def validate_None conn_valid_def by blast
  then show False
    using count_list_distinct [of "cc_Forward conf" cmd] by simp
qed

lemma updateEntry_keeps_twice:
  assumes "listed_twice name cmd confs" and "\<And>conf. cc_Name (f conf) = cc_Name conf"
    and "\<And>conf. count_list (cc_Forward conf) cmd \<le> count_list (cc_Forward (f conf)) cmd"
  shows "listed_twice name cmd (updateEntry n f confs)"
proof -
  have "\<exists>conf' \<in> set (updateEntry n f confs). cc_Name conf' = cc_Name conf \<and>
      count_list (cc_Forward conf) cmd \<le> count_list (cc_Forward conf') cmd" if "conf \<in> set confs" for conf
    using that assms(2,3) by (induction confs) auto
  then show ?thesis
    using assms(1) unfolding listed_twice_def by (metis order_trans)
qed

text \<open>The request takes the command back, or the connection.\<close>

fun gives_up :: "string \<Rightarrow> string \<Rightarrow> request \<Rightarrow> bool" where
  "gives_up name cmd (UnforwardCommands n cmds) \<longleftrightarrow> cmd \<in> set cmds"
| "gives_up name cmd (Disconnect n) \<longleftrightarrow> n = name"
| "gives_up name cmd _ \<longleftrightarrow> False"

lemma count_list_filter_in: "P x \<Longrightarrow> count_list (filter P xs) x = count_list xs x"
  by (induction xs) auto

lemma configChange_keeps_twice:
  assumes "confs \<in> configChange r s" and "listed_twice name cmd (srv_config s)" and "\<not> gives_up name cmd r"
  shows "listed_twice name cmd confs"
proof (cases r)
  case (Connected m c localRoot background)
  then show ?thesis
    using assms by (auto simp: listed_twice_def)
next
  case (Disconnect n)
  then show ?thesis
    using assms by (auto simp: listed_twice_def)
qed (use assms in \<open>auto simp: updated_def addForwards_def dropForwards_def addPortSpecs_def Let_def count_list_filter_in
       intro!: updateEntry_keeps_twice\<close>)

lemma serve_keeps_twice:
  assumes "listed_twice name cmd (srv_config s)" and "\<not> gives_up name cmd r"
  shows "listed_twice name cmd (srv_config (serve s (ev, r))) \<and> srv_file (serve s (ev, r)) = srv_file s"
proof -
  have "listed_twice name cmd (srv_config (serve s (ev, r)))"
    using serve_recorded [of ev r s] configChange_keeps_twice [OF _ assms] assms(1)
    by (auto simp: recorded_change_def same_record_def)
  then show ?thesis
    using serve_recorded [of ev r s] persist_invalid [OF listed_twice_invalid]
    by (auto simp: recorded_change_def same_record_def)
qed

lemma serveAll_keeps_twice:
  "listed_twice name cmd (srv_config s) \<Longrightarrow> \<forall>(ev, r) \<in> set reqs. \<not> gives_up name cmd r \<Longrightarrow>
   listed_twice name cmd (srv_config (serveAll s reqs)) \<and> srv_file (serveAll s reqs) = srv_file s"
  unfolding serveAll_def
proof (induction reqs arbitrary: s)
  case (Cons x reqs)
  obtain ev r where x: "x = (ev, r)"
    by fastforce
  from Cons.prems x have "listed_twice name cmd (srv_config (serve s x)) \<and> srv_file (serve s x) = srv_file s"
    using serve_keeps_twice by auto
  with Cons.IH [of "serve s x"] Cons.prems(2) show ?case
    by simp
qed simp

subsection \<open>Properties\<close>


text \<open>
  C15. A valid configuration stays valid under every request that names nothing twice: commands that are not
  forwarded yet, environment names when the connection has those of its entry, a connection under a new name, a
  synchronisation with valid modes, and any other request at all. So a server that only gets such requests can
  always persist its configuration.
\<close>

theorem clean_requests_keep_the_config_valid:
  assumes "validate (srv_config s) = None" and "names_ok s" and "clean s r"
  shows "validate (srv_config (serve s (ev, r))) = None"
  using serve_recorded [of ev r s] configChange_valid [OF _ assms(2,1,3)] assms(1)
  by (auto simp: recorded_change_def same_record_def)

text \<open>
  C38. Forwarding a command that is forwarded already is accepted, and from then on nothing is persisted: whatever
  the server serves for any connection, the file stays as it was, until that command is taken back or its
  connection is removed.
\<close>

theorem repeated_forward_stops_persistence:
  assumes "UpdateForwardCommands ev commands dest s = (None, s1)"
    and "\<lparr>fi_Name = cmd, fi_Prefix = False, fi_Global = False\<rparr> \<in> set commands"
    and "connection (srv_mgr s) dest True = Inr c" and "cn_name (srv_conn s c) = name"
    and "srv_config s = before @ conf # after" and "\<forall>b \<in> set before. cc_Name b \<noteq> name" and "cc_Name conf = name"
    and "cmd \<in> set (cc_Forward conf)"
    and "\<forall>(ev', r) \<in> set later. \<not> gives_up name cmd r"
  shows "srv_file (serveAll s1 later) = srv_file s \<and> validate (srv_config (serveAll s1 later)) \<noteq> None"
proof -
  have upd: "updateEntry name f (before @ conf # after) = before @ f conf # after" for f
    using assms(6,7) by (induction before) auto
  obtain m where s1: "s1 = recordChange ev name (addForwards commands) (s\<lparr>srv_mgr := m\<rparr>)"
    using assms(1,3,4) by (auto simp: UpdateForwardCommands_def split: sum.splits)
  have "0 < count_list (cc_Forward conf) cmd"
    using assms(8) by (metis count_list_0_iff gr0I)
  moreover have "0 < count_list (map fi_Name (filter (\<lambda>i. \<not> fi_Prefix i) commands)) cmd"
    using assms(2) by (force simp: count_list_0_iff intro!: gr0I)
  ultimately have twice: "listed_twice name cmd (srv_config s1)"
    using assms(5,7) by (simp add: s1 recordChange_def persistConfig_def upd listed_twice_def addForwards_def)
  have "srv_file s1 = srv_file s"
    using persist_invalid [OF listed_twice_invalid [OF twice]] by (simp add: s1 recordChange_def persistConfig_def)
  then show ?thesis
    using serveAll_keeps_twice [OF twice assms(9)] listed_twice_invalid by auto
qed

subsection \<open>Live state after a reconciliation\<close>

text \<open>The fields that no synchronisation touches.\<close>

definition conn_frame :: "Connection \<Rightarrow> Connection \<Rightarrow> bool" where
  "conn_frame conn conn' \<longleftrightarrow>
     cn_name conn' = cn_name conn \<and> cn_daemon conn' = cn_daemon conn \<and>
     cn_fwdList conn' = cn_fwdList conn \<and> cn_envFwdList conn' = cn_envFwdList conn"

lemma conn_frame_refl [simp]: "conn_frame conn conn"
  by (simp add: conn_frame_def)

lemma conn_frame_trans: "conn_frame a b \<Longrightarrow> conn_frame b c \<Longrightarrow> conn_frame a c"
  by (simp add: conn_frame_def)

lemma recordSync_conn_frame: "recordSync env cl conn ss f e = (r, conn', ss') \<Longrightarrow> conn_frame conn conn'"
  by (auto simp: recordSync_def cn_Close_def conn_frame_def Let_def split: if_splits)

lemma EstablishSynchronization_frame:
  assumes "EstablishSynchronization env c1 c2 conn ss i = (r, conn', ss')"
  shows "conn_frame conn conn'"
proof -
  have primary: "conn_frame conn conn'" if "establishPrimary env c1 c2 conn ss i = (r, conn', ss')" for i
    using that
    by (auto simp: establishPrimary_def Let_def split: if_splits sum.splits option.splits prod.splits
        dest!: recordSync_conn_frame intro: conn_frame_trans)
  have flip: "conn_frame conn conn'" if "applyGitReplicaFlip env c1 conn ss i ex = (r, conn', ss')" for i ex
    using that
    by (auto simp: applyGitReplicaFlip_def Let_def split: if_splits sum.splits option.splits prod.splits
        dest!: recordSync_conn_frame)
  show ?thesis
    using assms
    by (auto simp: EstablishSynchronization_def Let_def split: sum.splits option.splits if_splits dest: primary flip)
qed

definition live_frame :: "server \<Rightarrow> server \<Rightarrow> bool" where
  "live_frame s s' \<longleftrightarrow>
     srv_ports s' = srv_ports s \<and> srv_agents s' = srv_agents s \<and> (\<forall>c. conn_frame (srv_conn s c) (srv_conn s' c))"

lemma establish_live_frame: "live_frame s (snd (cm_EstablishSynchronization ev name intent s))"
  by (auto simp: cm_EstablishSynchronization_def live_frame_def split: sum.split prod.split
      dest: EstablishSynchronization_frame)

lemma reconcileSyncs_live_frame: "live_frame s (reconcileSyncs ev c conf s)"
proof -
  have "live_frame t (foldl (\<lambda>s i. snd (cm_EstablishSynchronization ev n i s)) t is)" for t n "is"
  proof (induction "is" arbitrary: t)
    case (Cons i "is")
    show ?case
      using Cons.IH [of "snd (cm_EstablishSynchronization ev n i t)"] establish_live_frame [of t ev n i]
      by (auto simp: live_frame_def intro: conn_frame_trans)
  qed (simp add: live_frame_def)
  then show ?thesis
    by (simp add: reconcileSyncs_def)
qed

lemma explicit_simps:
  "pd_explicitPorts (snd (startPortForward foreign info opts d)) = pd_explicitPorts d"
  "pd_explicitPorts (dropForward k f d) = pd_explicitPorts d"
  "pd_explicitPorts (cancelForward f d) = pd_explicitPorts d"
  by (simp_all add: startPortForward_def dropForward_def forgetForward_def cancelForward_def stopForward_def Let_def)

lemma explicit_kept:
  assumes "map_of (pd_explicitPorts d) key \<noteq> None"
  shows "map_of (pd_explicitPorts (snd (AddExplicitPortForward foreign spec d))) key \<noteq> None"
proof (cases "addExplicitBegin spec d")
  case (AddDone d1)
  then show ?thesis
    using assms
    by (auto simp: AddExplicitPortForward_def addExplicitBegin_def Let_def update_conv' split: if_splits option.splits)
next
  case (AddStart k info localPort d1)
  then have "map_of (pd_explicitPorts d) k = None" "pd_explicitPorts d1 = AList.update k spec (pd_explicitPorts d)"
    by (auto simp: addExplicitBegin_def Let_def explicit_simps split: if_splits option.splits)
  moreover obtain fwd d2 where st: "startPortForward foreign info (localPort, True) d1 = (fwd, d2)"
    by fastforce
  moreover have "pd_explicitPorts d2 = pd_explicitPorts d1"
    using explicit_simps(1) [of foreign info "(localPort, True)" d1] st by simp
  ultimately show ?thesis
    using assms
    by (auto simp: AddExplicitPortForward_def AddStart addExplicitEnd_def explicit_simps update_conv' delete_conv')
qed

lemma addPortText_kept:
  "map_of (pd_explicitPorts d) key \<noteq> None \<Longrightarrow>
   map_of (pd_explicitPorts (foldl (addPortText foreign) d texts)) key \<noteq> None"
proof (induction texts arbitrary: d)
  case (Cons t texts)
  have "map_of (pd_explicitPorts (addPortText foreign d t)) key \<noteq> None"
    using Cons.prems explicit_kept [of d key foreign] by (auto simp: addPortText_def split: sum.split)
  from Cons.IH [OF this] show ?case
    by simp
qed simp

text \<open>The forwarded commands and names of a connection after the first two steps.\<close>

lemma forwards_after:
  "cn_fwdList (srv_conn (reconcileForwardCommands c conf s) c') =
     cn_fwdList (srv_conn s c') @
       (if c' = c then computeMissingForwardCommands (desiredForwards conf) (cn_fwdList (srv_conn s c)) else [])"
  "cn_envFwdList (srv_conn (reconcileForwardCommands c conf s) c') = cn_envFwdList (srv_conn s c')"
  by (auto simp: reconcileForwardCommands_def cn_UpdateForwardCommands_def Let_def)

lemma env_after:
  "cn_envFwdList (srv_conn (reconcileEnvForward c conf s) c') =
     cn_envFwdList (srv_conn s c') @
       (if c' = c then computeMissingEnvForward (cc_EnvForward conf) (cn_envFwdList (srv_conn s c)) else [])"
  "cn_fwdList (srv_conn (reconcileEnvForward c conf s) c') = cn_fwdList (srv_conn s c')"
  by (auto simp: reconcileEnvForward_def cn_UpdateEnvForward_def Let_def)

lemma ports_agents_after:
  "srv_mgr (srv_reconcilePortForwards ev c conf s) = srv_mgr s"
  "srv_mgr (reconcileAgentForward c conf s) = srv_mgr s"
  "srv_agents (srv_reconcilePortForwards ev c conf s) = srv_agents s"
  "srv_ports (reconcileAgentForward c conf s) = srv_ports s"
  by (simp_all add: srv_reconcilePortForwards_def reconcileAgentForward_def Let_def)

lemma apply_forwards:
  "cn_fwdList (srv_conn (applyConnectionSpec ev c conf s) c') =
     cn_fwdList (srv_conn s c') @
       (if c' = c then computeMissingForwardCommands (desiredForwards conf) (cn_fwdList (srv_conn s c)) else [])"
  "cn_envFwdList (srv_conn (applyConnectionSpec ev c conf s) c') =
     cn_envFwdList (srv_conn s c') @
       (if c' = c then computeMissingEnvForward (cc_EnvForward conf) (cn_envFwdList (srv_conn s c)) else [])"
  using reconcileSyncs_live_frame [of "reconcileEnvForward c conf (reconcileForwardCommands c conf s)" ev c conf]
  by (auto simp: applyConnectionSpec_def ports_agents_after live_frame_def conn_frame_def forwards_after env_after)

lemma agents_after:
  fixes conf :: ConnectionConfig
  assumes "d = cn_daemon (srv_conn s c)" and "a = as_daemon (srv_agents (reconcileAgentForward c conf s) d)"
  shows "if cc_ForwardAgent conf then ag_closed a \<or> map_of (ag_forwards a) (cn_name (srv_conn s c)) \<noteq> None
         else map_of (ag_forwards a) (cn_name (srv_conn s c)) = None"
  unfolding assms
  by (auto simp: reconcileAgentForward_def startAgentForward_def tryBeginAgentForward_def stopAgentForward_def
      endAgentForward_def update_conv' delete_conv' Let_def split: option.split prod.split if_splits)

lemma apply_identity:
  "cn_daemon (srv_conn (applyConnectionSpec ev c conf s) c') = cn_daemon (srv_conn s c')"
  "cn_name (srv_conn (applyConnectionSpec ev c conf s) c') = cn_name (srv_conn s c')"
  using reconcileSyncs_live_frame [of "reconcileEnvForward c conf (reconcileForwardCommands c conf s)" ev c conf]
  by (auto simp: applyConnectionSpec_def ports_agents_after live_frame_def conn_frame_def reconcileEnvForward_def
      reconcileForwardCommands_def cn_UpdateEnvForward_def cn_UpdateForwardCommands_def Let_def)


subsection \<open>A server with one connection\<close>

definition exEntry :: ConnectionConfig where
  "exEntry =
     \<lparr>cc_Name = ''c'', cc_Destination = ''ssh://h'', cc_LocalRoot = ''/w'', cc_RemoteRoot = '''', cc_Forward = [],
      cc_PrefixForward = [], cc_Synchronizations = [], cc_Background = False, cc_Ports = [], cc_ForwardAgent = False,
      cc_EnvForward = []\<rparr>"

definition exManager :: ConnectionManager where
  "exManager = (NewConnectionManager None)\<lparr>
     cm_connections := [(''c'', 0)], cm_conn := (\<lambda>_. newConnection 0 ''c'' ''/w'' '''' False),
     cm_daemon := (\<lambda>_. nilDaemon\<lparr>dm_destination := ''ssh://h'', dm_state := ConnectionStateConnected\<rparr>)\<rparr>"

definition exServer :: "ConnectionConfig \<Rightarrow> server" where
  "exServer entry =
     \<lparr>srv_config = [entry], srv_file = None, srv_mgr = exManager, srv_ports = (\<lambda>_. newPortDaemon),
      srv_agents = (\<lambda>_. agent_start), srv_sessions = []\<rparr>"

text \<open>The first bytes stand for the hash of a string, and a tilde for the home directory.\<close>

definition exSync :: sync_env where
  "exSync =
     sample_env\<lparr>se_sha256 := map of_char, se_create := (\<lambda>_. Some ''s1''), se_exec := (\<lambda>_. Some ''/home/p'')\<rparr>"

definition exEnv :: server_env where
  "exEnv =
     \<lparr>ev_marshal = (\<lambda>conf. Some (concat (map cc_Name conf))), ev_write = Written,
      ev_path = \<lparr>pe_evalSymlinks = Some, pe_getwd = Some ''/'', pe_writeOk = True\<rparr>,
      ev_foreign = (\<lambda>_ _. False), ev_sync = exSync, ev_closes = (False, False)\<rparr>"

definition exSpec :: PortForwardSpec where
  "exSpec = \<lparr>ps_RemotePort = 8080, ps_LocalPort = 3000, ps_Protocol = ''tcp''\<rparr>"

definition exPlain :: PortForwardSpec where
  "exPlain = \<lparr>ps_RemotePort = 8080, ps_LocalPort = 8080, ps_Protocol = ''tcp''\<rparr>"

definition exForwarded :: "nat \<Rightarrow> port_daemon" where
  "exForwarded i =
     \<lparr>pd_closed = False,
      pd_portForwards = [(''tcp:8080'', \<lparr>pf_id = i, pf_remotePort = 8080, pf_localPort = 3000, pf_protocol = ''tcp'',
                           pf_conflict = False, pf_conflictReason = '''', pf_explicit = True\<rparr>)],
      pd_explicitPorts = [(''tcp:8080'', exSpec)], pd_sockets = [((False, 3000), i)], pd_relays = [i], pd_nextId = i + 1\<rparr>"

lemma exSpec_texts:
  "portForwardKey ''tcp'' 8080 = ''tcp:8080''" "PortForwardSpec_String exSpec = ''3000:8080''"
  "PortForwardSpec_String exPlain = ''8080''"
  by (simp_all add: portForwardKey_def PortForwardSpec_String_def exSpec_def exPlain_def protocol_defs utoa.simps digit_char_def
      char_of_eq_iff)

lemma exSpec_parses: "ParsePortSpec ''3000:8080'' = Inr exSpec"
proof -
  have "valid_spec exSpec"
    by (simp add: valid_spec_def valid_port_def protocol_defs exSpec_def)
  then show ?thesis
    using ParsePortSpec_String [of exSpec] by (simp only: exSpec_texts)
qed

lemma ex_add: "AddExplicitPortForward (\<lambda>_ _. False) exSpec (newPortDaemon\<lparr>pd_nextId := i\<rparr>) = (None, exForwarded i)"
  using exSpec_texts(1)
  by (simp add: AddExplicitPortForward_def addExplicitBegin_def startPortForward_def addExplicitEnd_def newPortDaemon_def
      exForwarded_def probePortConflict_def listenFails_def ownSocket_def EffectiveLocalPort_def EffectiveProtocol_def
      ProtocolTCP_def ProtocolUDP_def exSpec_def Let_def)

lemma ex_remove: "RemoveExplicitPortForward exPlain (exForwarded i) = (True, newPortDaemon\<lparr>pd_nextId := i + 1\<rparr>)"
  using exSpec_texts(1)
  by (simp add: RemoveExplicitPortForward_def exForwarded_def newPortDaemon_def exPlain_def EffectiveProtocol_def
      dropForward_def forgetForward_def cancelForward_def stopForward_def Let_def)

lemma ex_proto: "PortForwardSpecFromProto (Some (ToProto spec)) = spec"
  by (simp add: PortForwardSpecFromProto_def ToProto_def)

lemma ex_connection:
  "cm_connections m = [(''c'', 0)] \<Longrightarrow> cn_closed (cm_conn m 0) = False \<Longrightarrow>
   dm_state (cm_daemon m (cn_daemon (cm_conn m 0))) = ConnectionStateConnected \<Longrightarrow> connection m ''c'' safely = Inr 0"
  by (simp add: connection_def cn_State_def Let_def)

lemma exManager_simps [simp]:
  "connection exManager ''c'' safely = Inr 0" "cm_connections exManager = [(''c'', 0)]"
  "cm_conn exManager i = newConnection 0 ''c'' ''/w'' '''' False"
  "cm_daemon exManager d = nilDaemon\<lparr>dm_destination := ''ssh://h'', dm_state := ConnectionStateConnected\<rparr>"
  by (simp_all add: connection_def cn_State_def newConnection_def exManager_def NewConnectionManager_def)

text \<open>The three states: with the forward, after it was taken back, and after the next tick.\<close>

lemma ex_ports_added:
  "AddPortForwards exEnv ''c'' [Some (ToProto exSpec)] (exServer exEntry) =
     (None, (exServer (exEntry\<lparr>cc_Ports := [''3000:8080'']\<rparr>))\<lparr>srv_file := Some ''c'', srv_ports := (\<lambda>_. newPortDaemon)(0 := exForwarded 0)\<rparr>)"
proof -
  have add: "AddExplicitPortForward (\<lambda>_ _. False) exSpec newPortDaemon = (None, exForwarded 0)"
    using ex_add [of 0] by (simp add: newPortDaemon_def)
  have valid: "validate [exEntry\<lparr>cc_Ports := ports\<rparr>] = None" for ports
    by (simp add: validate_None conn_valid_def exEntry_def)
  show ?thesis
    by (simp add: AddPortForwards_def exServer_def exEnv_def newConnection_def ex_proto add recordChange_def persistConfig_def
        Persist_def valid addPortSpecs_def exSpec_texts Let_def) (simp add: exEntry_def)
qed

lemma exPlain_parses: "ParsePortSpec ''8080'' = Inr exPlain"
proof -
  have "valid_spec exPlain"
    by (simp add: valid_spec_def valid_port_def protocol_defs exPlain_def)
  then show ?thesis
    using ParsePortSpec_String [of exPlain] by (simp only: exSpec_texts)
qed

definition exAfter :: "(nat \<Rightarrow> port_daemon) \<Rightarrow> server" where
  "exAfter ports = (exServer (exEntry\<lparr>cc_Ports := [''3000:8080'']\<rparr>))\<lparr>srv_file := Some ''c'', srv_ports := ports\<rparr>"

lemma exEntry_valid: "validate [exEntry\<lparr>cc_Ports := ports\<rparr>] = None"
  by (simp add: validate_None conn_valid_def exEntry_def)

lemma ex_ports_removed:
  "RemovePortForwards exEnv ''c'' [Some (ToProto exPlain)] (exAfter ((\<lambda>_. newPortDaemon)(0 := exForwarded 0))) =
     (Inr [], exAfter ((\<lambda>_. newPortDaemon)(0 := newPortDaemon\<lparr>pd_nextId := 1\<rparr>)))"
proof -
  have "cc_Name (exEntry\<lparr>cc_Ports := ports\<rparr>) = ''c''" for ports
    by (simp add: exEntry_def)
  then show ?thesis
    using ex_remove [of 0] exEntry_valid
    by (simp add: RemovePortForwards_def exAfter_def exServer_def exEnv_def newConnection_def ex_proto exSpec_texts
        recordChange_def persistConfig_def Persist_def)
qed

lemma srv_ex_reconciled:
  "srv_ports (reconcileConnections exEnv due (exAfter ((\<lambda>_. newPortDaemon)(0 := newPortDaemon\<lparr>pd_nextId := 1\<rparr>)))) 0 =
     exForwarded 1"
  using ex_add [of 1] exSpec_parses
  by (simp add: reconcileConnections_def reconcileOne_def exAfter_def exServer_def exEntry_def newConnection_def cn_State_def
      applyConnectionSpec_def reconcileForwardCommands_def reconcileEnvForward_def reconcileSyncs_def
      computeMissingForwardCommands_def computeMissingEnvForward_def computeMissingSyncs_def desiredForwards_def
      canonicalizeSyncIntentConfigs_def srv_reconcilePortForwards_def reconcileAgentForward_def addPortText_def
      reapOrphanSyncs_def exEnv_def Let_def)


subsection \<open>A synchronisation into the home directory\<close>

definition exIntent :: "string \<Rightarrow> SynchronizationIntent" where
  "exIntent to = \<lparr>si_FromLocal = ''/w'', si_ToRemote = to, si_SyncGit = False, si_SyncInclude = [],
                  si_DefaultFileMode = '''', si_DefaultDirectoryMode = ''''\<rparr>"

definition exSynced :: ConnectionConfig where
  "exSynced = exEntry\<lparr>cc_Synchronizations := [exIntent ''~/p'']\<rparr>"

definition exSession :: sync_session where
  "exSession =
     \<lparr>ss_id = ''s1'', ss_name = syncSessionName (map of_char) ''c'' (exIntent ''/home/p''), ss_paused = False,
      ss_ignores = [], ss_fileMode = 420, ss_dirMode = 493, ss_alpha = ''/w'', ss_host = ''c'', ss_beta = ''/home/p'',
      ss_replica = False\<rparr>"

definition exActive :: Connection where
  "exActive = (newConnection 0 ''c'' ''/w'' '''' False)\<lparr>cn_synchronizations :=
     [(''/w'', \<lparr>as_destination = ''/home/p'', as_closeFunc = Some (PauseSession ''s1''), as_syncGit = False,
                as_gitCloseFunc = None, as_defaultFileMode = '''', as_defaultDirectoryMode = '''',
                as_syncInclude = []\<rparr>)]\<rparr>"

lemma ex_clean: "canonicalizeSyncFromLocal ''/w'' ''/w'' = Inr ''/w''"
  by (simp add: canonicalizeSyncFromLocal_def IsAbs_def PathJoin_def cleanStep_def render_def Dir_def Let_def)

lemma ex_established:
  "EstablishSynchronization exSync False False (newConnection 0 ''c'' ''/w'' '''' False) [] (exIntent ''~/p'') =
     (Inr [], exActive, [exSession])"
  by (simp add: EstablishSynchronization_def exSync_def sample_env_def exIntent_def newConnection_def ex_clean exActive_def
      exSession_def inheritIntent_def establishPrimary_def Let_def syncDefaultFileMode_def syncDefaultDirectoryMode_def
      syncBetaConfiguration_def syncModesConfiguration_def establishSession_def findExistingSessionByName_def
      createSession_def recordSync_def applySyncIncludes_def shadowedSyncIncludes_def
      TrimSuffix_def HasSuffix_def TrimSpace_def IsSpace_def IsAbs_def)

lemma ex_established_again:
  "EstablishSynchronization exSync False False exActive ss (exIntent ''~/p'') = (Inr [], exActive, ss)"
  by (simp add: EstablishSynchronization_def exSync_def sample_env_def exIntent_def newConnection_def ex_clean exActive_def
      inheritIntent_def inheritModesInto_def configMatches_def syncModesCompatible_def syncIncludesCompatible_def Let_def
      TrimSuffix_def HasSuffix_def TrimSpace_def IsSpace_def IsAbs_def)

lemma ex_names:
  "syncSessionName (map of_char) ''c'' (exIntent ''/home/p'') = ''graft-63002f77002f686f6d65''"
  "syncSessionName (map of_char) ''c'' (exIntent ''~/p'') = ''graft-63002f77007e2f70''"
  by code_simp+

text \<open>The server once the synchronisation is up, with the sessions that are left.\<close>

definition exRunning :: "(nat \<Rightarrow> agent_sys) \<Rightarrow> sync_session list \<Rightarrow> server" where
  "exRunning agents ss =
     (exServer exSynced)\<lparr>srv_mgr := set_conn 0 exActive exManager, srv_agents := agents, srv_sessions := ss\<rparr>"

lemma exRunning_agents: "(exRunning agents ss)\<lparr>srv_agents := agents'\<rparr> = exRunning agents' ss"
  by (simp add: exRunning_def exServer_def)

lemma srv_ex_restored: "snd (restoreSpec exEnv exSynced (exServer exSynced)) = exRunning (\<lambda>_. agent_start) [exSession]"
  using ex_established
  by (simp add: restoreSpec_def cm_UpdateForwardCommands_def updateConnection_def exServer_def exSynced_def exEntry_def
      desiredForwards_def cn_UpdateForwardCommands_def cm_EstablishSynchronization_def exEnv_def restorePortForwards_def
      exRunning_def connection_def cn_State_def newConnection_def exActive_def)

lemma ex_missing:
  "computeMissingSyncs (canonicalizeSyncIntentConfigs ''/w'' [exIntent ''~/p'']) (Synchronizations exActive) = [exIntent ''~/p'']"
  using ex_clean
  by (simp add: computeMissingSyncs_def canonicalizeSyncIntentConfigs_def Synchronizations_def exActive_def newConnection_def
      exIntent_def)

lemma ex_reestablish:
  "cm_EstablishSynchronization exEnv ''c'' (exIntent ''~/p'') (exRunning agents ss) = (Inr [], exRunning agents ss)"
  using ex_established_again [of ss]
  by (simp add: cm_EstablishSynchronization_def exRunning_def exServer_def exEnv_def connection_def cn_State_def)
    (simp add: exActive_def newConnection_def)

lemma ex_applied: "\<exists>agents'. applyConnectionSpec exEnv 0 exSynced (exRunning agents ss) = exRunning agents' ss"
proof -
  let ?s = "exRunning agents ss"
  have "reconcileForwardCommands 0 exSynced ?s = ?s" "reconcileEnvForward 0 exSynced ?s = ?s"
    by (simp_all add: reconcileForwardCommands_def reconcileEnvForward_def exSynced_def exEntry_def desiredForwards_def
        computeMissingForwardCommands_def computeMissingEnvForward_def)
  moreover have "srv_conn ?s 0 = exActive"
    by (simp add: exRunning_def)
  then have "reconcileSyncs exEnv 0 exSynced ?s = ?s"
    using ex_missing ex_reestablish by (simp add: reconcileSyncs_def) (simp add: exSynced_def exEntry_def)
  moreover have "srv_reconcilePortForwards exEnv 0 exSynced ?s = ?s"
    by (simp add: srv_reconcilePortForwards_def exSynced_def exEntry_def Let_def)
  ultimately show ?thesis
    by (auto simp: applyConnectionSpec_def reconcileAgentForward_def Let_def exRunning_agents)
qed

lemma ex_ticked:
  "\<exists>agents'. reconcileConnections exEnv due (exRunning agents ss) =
     exRunning agents' (if due then filter (\<lambda>s. \<not> (isGraftSyncName (ss_name s) \<and> ss_name s \<noteq> ''graft-63002f77007e2f70'')) ss else ss)"
proof -
  obtain agents' where agents: "applyConnectionSpec exEnv 0 exSynced (exRunning agents ss) = exRunning agents' ss"
    using ex_applied by blast
  have "connection (srv_mgr (exRunning agents ss)) (cc_Name exSynced) False = Inr 0"
    by (simp add: exRunning_def connection_def exSynced_def exEntry_def)
  moreover have "fst (cn_State (\<lambda>d. (dm_state (cm_daemon (srv_mgr (exRunning agents ss)) d), '''')) (srv_conn (exRunning agents ss) 0)) =
      ConnectionStateConnected"
    by (simp add: exRunning_def cn_State_def exActive_def newConnection_def)
  ultimately have one: "reconcileOne exEnv (False, exRunning agents ss) exSynced = (True, exRunning agents' ss)"
    by (simp add: reconcileOne_def agents)
  have names: "expectedSyncSessionNames (map of_char) [exSynced] = [''graft-63002f77007e2f70'']"
    using ex_clean ex_names(2)
    by (simp add: expectedSyncSessionNames_def exSynced_def exEntry_def canonicalizeSyncIntentConfigs_def exIntent_def)
  have env: "se_list (ev_sync exEnv)" "se_terminate (ev_sync exEnv) i" "se_sha256 (ev_sync exEnv) = map of_char" for i
    by (simp_all add: exEnv_def exSync_def sample_env_def)
  have "srv_config (exRunning agents ss) = [exSynced]"
    by (simp add: exRunning_def exServer_def)
  then have "reconcileConnections exEnv due (exRunning agents ss) =
      (if due then reapOrphanSyncs exEnv [exSynced] (exRunning agents' ss) else exRunning agents' ss)"
    by (simp add: reconcileConnections_def one)
  also have "reapOrphanSyncs exEnv [exSynced] (exRunning agents' ss) =
      exRunning agents' (filter (\<lambda>s. \<not> (isGraftSyncName (ss_name s) \<and> ss_name s \<noteq> ''graft-63002f77007e2f70'')) ss)"
    by (simp add: reapOrphanSyncs_def env names) (simp add: exRunning_def)
  finally show ?thesis
    by auto
qed


subsection \<open>Witnesses\<close>

definition exMarshal :: "root_config \<Rightarrow> string option" where
  "exMarshal conf = (if conf = [exEntry] then Some ''c'' else None)"

definition exUnmarshal :: "string \<Rightarrow> root_config option" where
  "exUnmarshal t = (if t = ''c'' then Some [exEntry] else None)"


lemma exServer_names: "names_ok (exServer entry)"
  by (simp add: names_ok_def exServer_def newConnection_def)

theorem clean_requests_keep_the_config_valid_witness:
  "clean (exServer exEntry) (ForwardCommands ''c'' [''go''] False) \<and> names_ok (exServer exEntry) \<and>
   validate (srv_config (exServer exEntry)) = None \<and>
   validate (srv_config (serve (exServer exEntry) (exEnv, ForwardCommands ''c'' [''go''] False))) = None"
proof -
  have valid: "validate (srv_config (exServer exEntry)) = None"
    using exEntry_valid [of "[]"] by (simp add: exServer_def exEntry_def)
  have clean: "clean (exServer exEntry) (ForwardCommands ''c'' [''go''] False)"
    by (simp add: exServer_def exEntry_def)
  from clean_requests_keep_the_config_valid [OF valid exServer_names clean] valid clean exServer_names show ?thesis
    by blast
qed

theorem repeated_forward_stops_persistence_witness:
  "\<exists>s1. UpdateForwardCommands exEnv [\<lparr>fi_Name = ''go'', fi_Prefix = False, fi_Global = False\<rparr>] ''c''
           (exServer (exEntry\<lparr>cc_Forward := [''go'']\<rparr>)) = (None, s1) \<and>
        srv_file (serveAll s1 [(exEnv, ForwardTheAgent ''c'' True)]) = None \<and>
        validate (srv_config (serveAll s1 [(exEnv, ForwardTheAgent ''c'' True)])) \<noteq> None"
proof -
  let ?s = "exServer (exEntry\<lparr>cc_Forward := [''go'']\<rparr>)"
  let ?cmds = "[\<lparr>fi_Name = ''go'', fi_Prefix = False, fi_Global = False\<rparr>]"
  have "fst (UpdateForwardCommands exEnv ?cmds ''c'' ?s) = None"
    by (simp add: UpdateForwardCommands_def cm_UpdateForwardCommands_def updateConnection_def exServer_def newConnection_def
        Let_def)
  then obtain s1 where s1: "UpdateForwardCommands exEnv ?cmds ''c'' ?s = (None, s1)"
    by (metis prod.collapse)
  have "srv_file (serveAll s1 [(exEnv, ForwardTheAgent ''c'' True)]) = srv_file ?s \<and>
      validate (srv_config (serveAll s1 [(exEnv, ForwardTheAgent ''c'' True)])) \<noteq> None"
    by (rule repeated_forward_stops_persistence [OF s1, of "''go''" 0 "''c''" "[]" "exEntry\<lparr>cc_Forward := [''go'']\<rparr>" "[]"])
      (simp_all add: exServer_def newConnection_def exEntry_def)
  then show ?thesis
    using s1 by (auto simp: exServer_def)
qed

end
