(* ===== verification/LspProxy.thy ===== *)
theory LspProxy
  imports PathUtil "HOL-Library.AList" "HOL-Library.Multiset"
begin

text \<open>
  The proxy between an editor and a language server on the remote host
  (\<^verbatim>\<open>pkg/local_client_commands_lsp.go\<close>): the rewriting of paths and URIs in both directions, the documents that
  exist on the remote side only and are served under a scheme of their own, and the bookkeeping of requests
  in flight. JSON values are a datatype; parsing and printing of JSON and URLs, and the local file system, are
  arguments.
\<close>

subsection \<open>Data\<close>

datatype json = JNull | JBool bool | JNum string | JStr string | JArr "json list" | JObj "(string \<times> json) list"

text \<open>A parsed URL: the parts the proxy looks at, and the rest.\<close>

record url =
  ul_Scheme :: string
  ul_Host :: string
  ul_Path :: string
  ul_Rest :: string

record url_lib =
  ur_parse :: "string \<Rightarrow> url option"
  ur_string :: "url \<Rightarrow> string"

record PathRemapping =
  pr_FromPrefix :: string
  pr_ToPrefix :: string

text \<open>The pointer to the flag whether the client fetches contents may be nil.\<close>

record lspRewriterArgs =
  la_Executable :: string
  la_ConnectionName :: string
  la_ClientSupportsContent :: "bool option"
  la_Remappings :: "PathRemapping list"

definition graftURIScheme :: string where
  "graftURIScheme = ''graft''"

definition fileURIScheme :: string where
  "fileURIScheme = ''file''"

definition methodInitialize :: string where
  "methodInitialize = ''initialize''"

definition methodTextDocumentContent :: string where
  "methodTextDocumentContent = ''workspace/textDocumentContent''"

definition EqualFold :: "string \<Rightarrow> string \<Rightarrow> bool" where
  "EqualFold s t \<longleftrightarrow> ToLower s = ToLower t"

subsection \<open>Names of remote files\<close>

definition lastSegment :: "string \<Rightarrow> string \<times> string" where
  "lastSegment path =
     (rev (dropWhile (\<lambda>c. c \<noteq> slash) (rev path)), rev (takeWhile (\<lambda>c. c \<noteq> slash) (rev path)))"

definition Ext :: "string \<Rightarrow> string" where
  "Ext path =
     (let base = snd (lastSegment path) in
      if CHR ''.'' \<in> set base then CHR ''.'' # rev (takeWhile (\<lambda>c. c \<noteq> CHR ''.'') (rev base)) else '''')"

definition CutSuffix :: "string \<Rightarrow> string \<Rightarrow> string option" where
  "CutSuffix s suf = (if HasSuffix s suf then Some (take (length s - length suf) s) else None)"

definition decorateRemotePathSegment :: "string \<Rightarrow> string \<Rightarrow> string" where
  "decorateRemotePathSegment path connectionName =
     (let (dir, name) = lastSegment path; marker = ''@'' @ connectionName; ext = Ext name; stem = TrimSuffix name ext in
      if name = '''' then path
      else if stem = '''' then dir @ name @ marker
      else dir @ stem @ marker @ ext)"

definition stripRemotePathSegment :: "string \<Rightarrow> string \<Rightarrow> string" where
  "stripRemotePathSegment path connectionName =
     (let (dir, name) = lastSegment path; marker = ''@'' @ connectionName; ext = Ext name; stem = TrimSuffix name ext in
      case CutSuffix stem marker of
        Some (c # cs) \<Rightarrow> dir @ (c # cs) @ ext
      | _ \<Rightarrow> (case CutSuffix name marker of Some stem1 \<Rightarrow> dir @ stem1 | None \<Rightarrow> path))"

subsection \<open>Rewriting\<close>

definition pathBoundaryOK :: "string \<Rightarrow> bool" where
  "pathBoundaryOK rest \<longleftrightarrow> rest = '''' \<or> HasPrefix rest ''/''"

text \<open>The loop over the remappings: the first whose prefix fits.\<close>

fun remap :: "bool \<Rightarrow> PathRemapping list \<Rightarrow> string \<Rightarrow> string option" where
  "remap forRemote [] path = None"
| "remap forRemote (m # ms) path =
     (let (src, dst) = (if forRemote then (pr_FromPrefix m, pr_ToPrefix m) else (pr_ToPrefix m, pr_FromPrefix m)) in
      case CutPrefix path src of
        None \<Rightarrow> remap forRemote ms path
      | Some rest \<Rightarrow> if pathBoundaryOK rest then Some (PathJoin [dst, rest]) else remap forRemote ms path)"

definition rewriteGlob :: "lspRewriterArgs \<Rightarrow> bool \<Rightarrow> json \<Rightarrow> json" where
  "rewriteGlob args forRemote v =
     (case v of
        JStr s \<Rightarrow> (case remap forRemote (la_Remappings args) s of None \<Rightarrow> v | Some p \<Rightarrow> JStr p)
      | _ \<Rightarrow> v)"

text \<open>\<open>exists\<close> tells whether a path exists locally.\<close>

definition rewriteURL :: "(string \<Rightarrow> bool) \<Rightarrow> lspRewriterArgs \<Rightarrow> bool \<Rightarrow> url \<Rightarrow> url option" where
  "rewriteURL exists args forRemote u =
     (if forRemote \<and> ul_Scheme u = graftURIScheme then
        if \<not> EqualFold (ul_Host u) (la_ConnectionName args) then None
        else Some (u\<lparr>ul_Scheme := fileURIScheme, ul_Host := '''',
                     ul_Path := stripRemotePathSegment (ul_Path u) (la_ConnectionName args)\<rparr>)
      else if ul_Scheme u \<noteq> fileURIScheme then None
      else
        (case remap forRemote (la_Remappings args) (ul_Path u) of
           Some p \<Rightarrow> Some (u\<lparr>ul_Path := p\<rparr>)
         | None \<Rightarrow>
             if \<not> forRemote \<and> la_ConnectionName args \<noteq> '''' \<and> la_ClientSupportsContent args = Some True
                \<and> \<not> exists (ul_Path u)
             then Some (u\<lparr>ul_Scheme := graftURIScheme, ul_Host := la_ConnectionName args,
                          ul_Path := decorateRemotePathSegment (ul_Path u) (la_ConnectionName args)\<rparr>)
             else None))"

definition rewriteURI :: "url_lib \<Rightarrow> (string \<Rightarrow> bool) \<Rightarrow> lspRewriterArgs \<Rightarrow> bool \<Rightarrow> json \<Rightarrow> json" where
  "rewriteURI lib exists args forRemote v =
     (case v of
        JStr s \<Rightarrow>
          (case Option.bind (ur_parse lib s) (rewriteURL exists args forRemote) of
             None \<Rightarrow> v
           | Some u \<Rightarrow> JStr (ur_string lib u))
      | _ \<Rightarrow> v)"

fun rewriteLocalRemoteURIs ::
    "url_lib \<Rightarrow> (string \<Rightarrow> bool) \<Rightarrow> lspRewriterArgs \<Rightarrow> bool \<Rightarrow> json \<Rightarrow> json" where
  "rewriteLocalRemoteURIs lib exists args forRemote (JArr vs) =
     JArr (map (rewriteLocalRemoteURIs lib exists args forRemote) vs)"
| "rewriteLocalRemoteURIs lib exists args forRemote (JObj kvs) =
     JObj (map (\<lambda>(k, v).
       (k, if k = ''globPattern'' then rewriteGlob args forRemote v
           else if k \<in> {''uri'', ''rootUri'', ''scopeUri'', ''targetUri'', ''target''}
           then rewriteURI lib exists args forRemote v
           else rewriteLocalRemoteURIs lib exists args forRemote v)) kvs)"
| "rewriteLocalRemoteURIs lib exists args forRemote v = v"

subsection \<open>Capabilities and contents\<close>

definition field :: "string \<Rightarrow> json \<Rightarrow> json option" where
  "field k v = (case v of JObj kvs \<Rightarrow> map_of kvs k | _ \<Rightarrow> None)"

definition schemesOf :: "json option \<Rightarrow> json list" where
  "schemesOf existing =
     (case Option.bind existing (field ''schemes'') of Some (JArr schemes) \<Rightarrow> schemes | _ \<Rightarrow> [])"

definition injectTextDocumentContentCapability :: "json \<Rightarrow> json" where
  "injectTextDocumentContentCapability result =
     (case result of
        JObj res \<Rightarrow>
          (case map_of res ''capabilities'' of
             Some (JObj caps) \<Rightarrow>
               let workspace = (case map_of caps ''workspace'' of Some (JObj w) \<Rightarrow> w | _ \<Rightarrow> []);
                   existing = schemesOf (map_of workspace ''textDocumentContent'');
                   schemes = (if JStr graftURIScheme \<in> set existing then existing else existing @ [JStr graftURIScheme]);
                   provider = JObj [(''schemes'', JArr schemes)];
                   caps1 = AList.update ''workspace'' (JObj (AList.update ''textDocumentContent'' provider workspace)) caps
               in JObj (AList.update ''capabilities'' (JObj (AList.update ''textDocumentContentProvider'' provider caps1)) res)
           | _ \<Rightarrow> result)
      | _ \<Rightarrow> result)"

definition clientDeclaresTextDocumentContent :: "json \<Rightarrow> bool" where
  "clientDeclaresTextDocumentContent params \<longleftrightarrow>
     Option.bind (Option.bind (field ''capabilities'' params) (field ''workspace'')) (field ''textDocumentContent'') \<noteq> None"

definition paramsURIScheme :: "url_lib \<Rightarrow> json option \<Rightarrow> string" where
  "paramsURIScheme lib params =
     (case Option.bind params (field ''uri'') of
        Some (JStr s) \<Rightarrow> (case ur_parse lib s of None \<Rightarrow> '''' | Some u \<Rightarrow> ul_Scheme u)
      | _ \<Rightarrow> '''')"

definition connectionNameIsURIHostSafe :: "url_lib \<Rightarrow> string \<Rightarrow> bool" where
  "connectionNameIsURIHostSafe lib name \<longleftrightarrow>
     name \<noteq> '''' \<and>
     (case ur_parse lib (ur_string lib \<lparr>ul_Scheme = graftURIScheme, ul_Host = name, ul_Path = ''/probe'', ul_Rest = ''''\<rparr>) of
        None \<Rightarrow> False
      | Some u \<Rightarrow> EqualFold (ul_Host u) name)"

datatype lsp_error =
    ParamsNotJSON
  | ParamsNotMap
  | URINotString
  | URINotParsed
  | UnsupportedScheme string
  | OtherConnection string string
  | RemoteReadFailed
  | PathHasNUL
  | NotWritten
  | ServerError string
  | ServerGone

text \<open>\<open>readFile\<close> reads a file on the remote side.\<close>

definition handleTextDocumentContent ::
    "url_lib \<Rightarrow> lspRewriterArgs \<Rightarrow> (string \<Rightarrow> string option) \<Rightarrow> json \<Rightarrow> lsp_error + json" where
  "handleTextDocumentContent lib args readFile params =
     (case params of
        JObj kvs \<Rightarrow>
          (case map_of kvs ''uri'' of
             Some (JStr s) \<Rightarrow>
               (case ur_parse lib s of
                  None \<Rightarrow> Inl URINotParsed
                | Some u \<Rightarrow>
                    if ul_Scheme u \<noteq> graftURIScheme then Inl (UnsupportedScheme (ul_Scheme u))
                    else if \<not> EqualFold (ul_Host u) (la_ConnectionName args)
                    then Inl (OtherConnection (ul_Host u) (la_ConnectionName args))
                    else
                      (case readFile (stripRemotePathSegment (ul_Path u) (la_ConnectionName args)) of
                         None \<Rightarrow> Inl RemoteReadFailed
                       | Some text \<Rightarrow> Inr (JObj [(''text'', JStr text)])))
           | _ \<Rightarrow> Inl URINotString)
      | _ \<Rightarrow> Inl ParamsNotMap)"

definition remoteReadCommand :: "string \<Rightarrow> string \<Rightarrow> lsp_error + string list \<times> string" where
  "remoteReadCommand connectionName path =
     (if CHR 0x00 \<in> set path then Inl PathHasNUL
      else Inr ([''run'', ''--to'', connectionName, ''xargs'', ''-0'', ''cat'', ''--''], path @ [CHR 0x00]))"

definition isGraftDocumentEdit :: "url_lib \<Rightarrow> string \<Rightarrow> json \<Rightarrow> bool" where
  "isGraftDocumentEdit lib m params \<longleftrightarrow>
     m \<in> {''textDocument/didChange'', ''textDocument/didSave'', ''textDocument/willSave'', ''textDocument/willSaveWaitUntil''} \<and>
     paramsURIScheme lib (field ''textDocument'' params) = graftURIScheme"

subsection \<open>Names of remote files come back\<close>

lemma scan_to:
  "c \<notin> set xs \<Longrightarrow> takeWhile (\<lambda>x. x \<noteq> c) (xs @ c # ys) = xs" "c \<notin> set xs \<Longrightarrow> dropWhile (\<lambda>x. x \<noteq> c) (xs @ c # ys) = c # ys"
  "c \<notin> set xs \<Longrightarrow> takeWhile (\<lambda>x. x \<noteq> c) xs = xs" "c \<notin> set xs \<Longrightarrow> dropWhile (\<lambda>x. x \<noteq> c) xs = []"
  by (induction xs) auto

lemma lastSegment_append: "slash \<notin> set name \<Longrightarrow> lastSegment (dir @ slash # name) = (dir @ [slash], name)"
  by (simp add: lastSegment_def scan_to)

lemma lastSegment_name: "slash \<notin> set name \<Longrightarrow> lastSegment name = ([], name)"
  by (simp add: lastSegment_def scan_to)

lemma lastSegment_split:
  "\<exists>dir name. lastSegment path = (dir, name) \<and> path = dir @ name \<and> slash \<notin> set name \<and> (dir = [] \<or> last dir = slash)"
proof -
  have "path = rev (dropWhile (\<lambda>c. c \<noteq> slash) (rev path)) @ rev (takeWhile (\<lambda>c. c \<noteq> slash) (rev path))"
    by (metis rev_append rev_rev_ident takeWhile_dropWhile_id)
  moreover have "slash \<notin> set (takeWhile (\<lambda>c. c \<noteq> slash) (rev path))"
    by (auto dest: set_takeWhileD)
  moreover have "dropWhile (\<lambda>c. c \<noteq> slash) (rev path) = [] \<or> hd (dropWhile (\<lambda>c. c \<noteq> slash) (rev path)) = slash"
    using hd_dropWhile [of "\<lambda>c. c \<noteq> slash" "rev path"] by blast
  ultimately show ?thesis
    by (auto simp: lastSegment_def last_rev)
qed

lemma lastSegment_dir: "dir = [] \<or> last dir = slash \<Longrightarrow> slash \<notin> set name \<Longrightarrow> lastSegment (dir @ name) = (dir, name)"
  using lastSegment_append [of name "butlast dir"] lastSegment_name [of name]
  by (cases "dir = []") (auto, metis append.assoc append_Cons append_Nil append_butlast_last_id)

text \<open>The extension of a name, and its stem.\<close>

lemma Ext_cases:
  assumes "slash \<notin> set name"
  shows "(Ext name = '''' \<and> CHR ''.'' \<notin> set name) \<or>
         (\<exists>stem e. name = stem @ CHR ''.'' # e \<and> CHR ''.'' \<notin> set e \<and> Ext name = CHR ''.'' # e)"
proof (cases "CHR ''.'' \<in> set name")
  case True
  then obtain stem e where "name = stem @ CHR ''.'' # e" "CHR ''.'' \<notin> set e"
    by (meson split_list_last)
  then show ?thesis
    using assms lastSegment_name [OF assms] by (auto simp: Ext_def scan_to)
next
  case False
  then show ?thesis
    using lastSegment_name [OF assms] by (simp add: Ext_def)
qed

lemma Ext_dot: "slash \<notin> set stem \<Longrightarrow> slash \<notin> set e \<Longrightarrow> CHR ''.'' \<notin> set e \<Longrightarrow> Ext (stem @ CHR ''.'' # e) = CHR ''.'' # e"
  using lastSegment_name [of "stem @ CHR ''.'' # e"] by (simp add: Ext_def scan_to)

lemma CutSuffix_append [simp]: "CutSuffix (a @ b) b = Some a"
  by (simp add: CutSuffix_def HasSuffix_def)

text \<open>A marker that is not at the end of a string without its last part is not found there.\<close>

lemma no_marker_before_dot:
  assumes "CHR ''@'' \<notin> set conn" and "conn = c1 @ CHR ''.'' # c2"
  shows "CutSuffix (name @ ''@'' @ c1) (''@'' @ conn) = None"
proof -
  have "\<not> HasSuffix (name @ ''@'' @ c1) (''@'' @ conn)"
  proof
    assume "HasSuffix (name @ ''@'' @ c1) (''@'' @ conn)"
    then obtain t where "name @ ''@'' @ c1 = t @ ''@'' @ conn"
      by (auto simp: HasSuffix_iff)
    then have "rev c1 @ CHR ''@'' # rev name = rev conn @ CHR ''@'' # rev t"
      by (metis append_Cons append_Nil append_assoc rev.simps(2) rev_append)
    then have "takeWhile (\<lambda>x. x \<noteq> CHR ''@'') (rev c1 @ CHR ''@'' # rev name) =
        takeWhile (\<lambda>x. x \<noteq> CHR ''@'') (rev conn @ CHR ''@'' # rev t)"
      by simp
    moreover have "CHR ''@'' \<notin> set (rev c1)" "CHR ''@'' \<notin> set (rev conn)"
      using assms by auto
    ultimately have "rev c1 = rev conn"
      using scan_to(1) [of "CHR ''@''" "rev c1" "rev name"] scan_to(1) [of "CHR ''@''" "rev conn" "rev t"] by simp
    then show False
      using assms(2) by auto
  qed
  then show ?thesis
    by (simp add: CutSuffix_def)
qed

lemma strip_plain:
  assumes dir: "dir = [] \<or> last dir = slash" and "slash \<notin> set (name @ conn)" and "CHR ''@'' \<notin> set conn" and "name \<noteq> []"
    and "CHR ''.'' \<notin> set name \<or> (\<exists>e. name = CHR ''.'' # e \<and> CHR ''.'' \<notin> set e)"
  shows "stripRemotePathSegment (dir @ name @ ''@'' @ conn) conn = dir @ name"
proof -
  let ?n = "name @ ''@'' @ conn"
  have seg: "lastSegment (dir @ ?n) = (dir, ?n)"
    using assms(2) by (intro lastSegment_dir [OF dir]) auto
  have second: "CutSuffix ?n (''@'' @ conn) = Some name"
    by (rule CutSuffix_append)
  consider (dots) c1 c2 where "conn = c1 @ CHR ''.'' # c2" "CHR ''.'' \<notin> set c2" | (none) "CHR ''.'' \<notin> set conn"
    by (meson split_list_last)
  then show ?thesis
  proof cases
    case dots
    have "Ext ?n = CHR ''.'' # c2"
      using Ext_dot [of "name @ ''@'' @ c1" c2] assms(2) dots by auto
    then have "TrimSuffix ?n (Ext ?n) = name @ ''@'' @ c1"
      using TrimSuffix_append [of "name @ ''@'' @ c1" "CHR ''.'' # c2"] dots(1) by simp
    then show ?thesis
      using no_marker_before_dot [OF assms(3) dots(1), of name] second seg
      by (simp add: stripRemotePathSegment_def Let_def)
  next
    case none
    show ?thesis
    proof (cases "CHR ''.'' \<in> set name")
      case True
      then obtain e where e: "name = CHR ''.'' # e" "CHR ''.'' \<notin> set e"
        using assms(5) by blast
      have "Ext ?n = ?n"
        using Ext_dot [of "[]" "e @ ''@'' @ conn"] assms(2) e none by auto
      then have "TrimSuffix ?n (Ext ?n) = []"
        using TrimSuffix_append [of "[]" ?n] by simp
      then show ?thesis
        using second seg by (simp add: stripRemotePathSegment_def CutSuffix_def HasSuffix_def Let_def)
    next
      case False
      then have ext: "Ext ?n = []"
        using lastSegment_name [of ?n] assms(2) none by (simp add: Ext_def)
      then have "TrimSuffix ?n (Ext ?n) = ?n"
        using TrimSuffix_append [of ?n "[]"] by simp
      then show ?thesis
        using second seg assms(4) ext by (cases name) (simp_all add: stripRemotePathSegment_def Let_def)
    qed
  qed
qed

lemma strip_decorate:
  assumes "slash \<notin> set conn" and "CHR ''@'' \<notin> set conn"
  shows "stripRemotePathSegment (decorateRemotePathSegment path conn) conn = path"
proof -
  obtain dir name where seg: "lastSegment path = (dir, name)" "path = dir @ name" "slash \<notin> set name" "dir = [] \<or> last dir = slash"
    using lastSegment_split by blast
  show ?thesis
  proof (cases "name = []")
    case True
    then show ?thesis
      using seg by (simp add: decorateRemotePathSegment_def stripRemotePathSegment_def CutSuffix_def HasSuffix_def Ext_def
          TrimSuffix_def lastSegment_name)
  next
    case False
    from Ext_cases [OF seg(3)] show ?thesis
    proof (elim disjE conjE exE)
      assume ext: "Ext name = []" "CHR ''.'' \<notin> set name"
      then have "decorateRemotePathSegment path conn = dir @ name @ ''@'' @ conn"
        using False TrimSuffix_append [of name "[]"] by (simp add: decorateRemotePathSegment_def seg(1))
      then show ?thesis
        using strip_plain [OF seg(4), of name conn] seg(2,3) assms False ext(2) by simp
    next
      fix stem e
      assume ext: "name = stem @ CHR ''.'' # e" "CHR ''.'' \<notin> set e" "Ext name = CHR ''.'' # e"
      have trim: "TrimSuffix name (Ext name) = stem"
        by (simp add: ext(1,3) ext(3) [unfolded ext(1)])
      show ?thesis
      proof (cases "stem = []")
        case True
        then have "decorateRemotePathSegment path conn = dir @ name @ ''@'' @ conn"
          using False trim by (simp add: decorateRemotePathSegment_def seg(1))
        then show ?thesis
          using strip_plain [OF seg(4), of name conn] seg(2,3) assms False ext True by simp
      next
        case ne: False
        let ?n = "stem @ ''@'' @ conn @ CHR ''.'' # e"
        have dec: "decorateRemotePathSegment path conn = dir @ ?n"
          using False ne trim ext(3) by (simp add: decorateRemotePathSegment_def seg(1))
        have "lastSegment (dir @ ?n) = (dir, ?n)"
          using seg(3) ext(1) assms(1) by (intro lastSegment_dir [OF seg(4)]) auto
        moreover have extn: "Ext ?n = CHR ''.'' # e"
          using Ext_dot [of "stem @ ''@'' @ conn" e] seg(3) ext(1,2) assms(1) by simp
        moreover have "TrimSuffix ?n (CHR ''.'' # e) = stem @ ''@'' @ conn"
          using TrimSuffix_append [of "stem @ ''@'' @ conn" "CHR ''.'' # e"] by simp
        moreover have "CutSuffix (stem @ ''@'' @ conn) (''@'' @ conn) = Some stem"
          by (rule CutSuffix_append)
        ultimately have "stripRemotePathSegment (dir @ ?n) conn = dir @ stem @ CHR ''.'' # e"
          using ne by (cases stem) (simp_all add: stripRemotePathSegment_def Let_def)
        then show ?thesis
          unfolding dec by (simp add: seg(2) ext(1))
      qed
    qed
  qed
qed

subsection \<open>Remapped paths come back\<close>

definition clean_path :: "string \<Rightarrow> bool" where
  "clean_path p \<longleftrightarrow> IsAbs p \<and> Clean p = p"

definition clean_dir :: "string \<Rightarrow> bool" where
  "clean_dir p \<longleftrightarrow> clean_path p \<and> p \<noteq> ''/''"

lemma pathBoundaryOK_iff: "pathBoundaryOK rest \<longleftrightarrow> rest = [] \<or> hd rest = slash"
  by (cases rest) (auto simp: pathBoundaryOK_def HasPrefix_def)

lemma Join_cut: "Join [slash] (c # cs) = c @ concat (map ((#) slash) cs)"
  by (induction cs arbitrary: c) auto

lemma clean_path_names: "clean_path p \<Longrightarrow> \<exists>ns. list_all simple_name ns \<and> p = slash # Join [slash] ns"
proof -
  assume p: "clean_path p"
  then obtain rooted stack where stack: "clean_stack rooted stack" "p = render rooted (rev stack)"
    using Clean_stack [of p] by (auto simp: clean_path_def)
  have rooted
  proof (rule ccontr)
    assume rel: "\<not> rooted"
    show False
    proof (cases "rev stack")
      case Nil
      then show ?thesis
        using p rel stack(2) by (simp add: clean_path_def IsAbs_def render_def)
    next
      case (Cons x xs)
      then have "x \<in> set stack"
        by (metis list.set_intros(1) set_rev)
      then have "slash \<notin> set x" "x \<noteq> []"
        using clean_stack_parts [OF stack(1)] by auto
      then show ?thesis
        using p rel stack(2) Cons Join_cut [of x xs] by (cases x) (auto simp: clean_path_def IsAbs_def render_def)
    qed
  qed
  then show ?thesis
    using stack unfolding clean_stack_def render_def by (intro exI [of _ "rev stack"]) auto
qed

lemma PathJoin_cut:
  assumes "list_all simple_name bs" and "bs \<noteq> []" and "list_all simple_name cs"
  shows "PathJoin [slash # Join [slash] bs, concat (map ((#) slash) cs)] = slash # Join [slash] (bs @ cs)"
proof -
  have "Join [slash] [slash # Join [slash] bs, concat (map ((#) slash) cs)] = slash # Join [slash] (bs @ [] # cs)"
    using Join_append [of bs "[] # cs" "[slash]"] Join_cut [of "[]" cs] assms(2) by simp
  moreover have "\<forall>c \<in> set (bs @ [] # cs). slash \<notin> set c"
    using assms by (auto simp: list_all_iff simple_name_def)
  moreover have "foldl (cleanStep True) [] (bs @ [] # cs) = rev (bs @ cs)"
    using foldl_simple [of bs True "[]"] foldl_simple [of cs True "rev bs"] assms by simp
  ultimately show ?thesis
    using Clean_rooted_parts [of "bs @ [] # cs"] by (simp add: PathJoin_def render_def)
qed

lemma PathJoin_moves:
  assumes "clean_dir a" and "clean_dir b" and "clean_path (a @ rest)" and "pathBoundaryOK rest"
  shows "PathJoin [b, rest] = b @ rest" and "clean_path (b @ rest)"
proof -
  obtain as bs ps where names: "list_all simple_name as" "a = slash # Join [slash] as" "list_all simple_name bs"
      "b = slash # Join [slash] bs" "list_all simple_name ps" "a @ rest = slash # Join [slash] ps"
    using assms clean_path_names unfolding clean_dir_def by metis
  have ne: "as \<noteq> []" "bs \<noteq> []"
    using assms(1,2) names by (auto simp: clean_dir_def)
  have "rest = '''' \<or> hd rest = slash"
    using assms(4) by (simp add: pathBoundaryOK_iff)
  then obtain cs where cs: "ps = as @ cs" "rest = concat (map ((#) slash) cs)"
    using slash_prefix_names [OF names(5,1) ne(1), of rest] names(2,6) by auto
  have simple: "list_all simple_name cs"
    using names(5) cs(1) by simp
  show "PathJoin [b, rest] = b @ rest"
    using PathJoin_cut [OF names(3) ne(2) simple] Join_slash_append [OF ne(2), of cs] by (simp add: names(4) cs(2))
  moreover have "PathJoin [b, rest] = Clean (b @ slash # rest)"
    using names(4) by (simp add: PathJoin_def)
  ultimately have "Clean (b @ rest) = b @ rest"
    using Clean_idem by metis
  then show "clean_path (b @ rest)"
    using names(4) by (simp add: clean_path_def IsAbs_def del: Clean.simps)
qed

lemma CutPrefix_iff: "CutPrefix path pre = Some rest \<longleftrightarrow> path = pre @ rest"
  by (auto simp: CutPrefix_def HasPrefix_iff)

lemma remap_Cons:
  "remap forRemote (m # ms) path =
     (case CutPrefix path (if forRemote then pr_FromPrefix m else pr_ToPrefix m) of
        Some rest \<Rightarrow>
          if pathBoundaryOK rest then Some (PathJoin [if forRemote then pr_ToPrefix m else pr_FromPrefix m, rest])
          else remap forRemote ms path
      | None \<Rightarrow> remap forRemote ms path)"
  by (simp split: option.split)

declare remap.simps(2) [simp del]

lemma remap_Some:
  assumes "remap forRemote ms path = Some p"
  shows "\<exists>m \<in> set ms. \<exists>rest. path = (if forRemote then pr_FromPrefix m else pr_ToPrefix m) @ rest \<and> pathBoundaryOK rest \<and>
           p = PathJoin [if forRemote then pr_ToPrefix m else pr_FromPrefix m, rest]"
  using assms
proof (induction ms)
  case (Cons m ms)
  then show ?case
    unfolding remap_Cons CutPrefix_iff [symmetric] by (fastforce split: option.splits if_split_asm)
qed simp

lemma remap_None:
  "remap forRemote ms path = None \<longleftrightarrow>
   (\<forall>m \<in> set ms. \<not> under path (if forRemote then pr_FromPrefix m else pr_ToPrefix m))"
proof (induction ms)
  case (Cons m ms)
  have "under path pre \<longleftrightarrow> (\<exists>rest. CutPrefix path pre = Some rest \<and> pathBoundaryOK rest)" for pre
    by (simp add: under_iff CutPrefix_iff pathBoundaryOK_iff)
  then show ?case
    using Cons.IH unfolding remap_Cons by (auto split: option.split)
qed simp

text \<open>
  The remappings are between clean directories, and no local one lies in another.
\<close>

definition remaps_ok :: "PathRemapping list \<Rightarrow> bool" where
  "remaps_ok ms \<longleftrightarrow>
     (\<forall>m \<in> set ms. clean_dir (pr_FromPrefix m) \<and> clean_dir (pr_ToPrefix m)) \<and>
     (\<forall>m \<in> set ms. \<forall>m' \<in> set ms. m \<noteq> m' \<longrightarrow> \<not> under (pr_FromPrefix m) (pr_FromPrefix m'))"

lemma remap_back:
  assumes "remaps_ok ms" and "clean_path path" and "remap False ms path = Some q"
  shows "remap True ms q = Some path \<and> clean_path q"
proof -
  obtain m rest where m: "m \<in> set ms" "path = pr_ToPrefix m @ rest" "pathBoundaryOK rest" "q = PathJoin [pr_FromPrefix m, rest]"
    using remap_Some [OF assms(3)] by auto
  have dirs: "clean_dir (pr_ToPrefix m)" "clean_dir (pr_FromPrefix m)"
    using assms(1) m(1) by (auto simp: remaps_ok_def)
  have q: "q = pr_FromPrefix m @ rest" "clean_path q"
    using PathJoin_moves [OF dirs, of rest] assms(2) m by simp_all
  have inside: "under q (pr_FromPrefix m)"
    using q(1) m(3) by (auto simp: under_iff pathBoundaryOK_iff)
  then have "remap True ms q \<noteq> None"
    using m(1) by (auto simp: remap_None)
  then obtain p where p: "remap True ms q = Some p"
    by blast
  then obtain m' rest' where m': "m' \<in> set ms" "q = pr_FromPrefix m' @ rest'" "pathBoundaryOK rest'"
      "p = PathJoin [pr_ToPrefix m', rest']"
    using remap_Some [OF p] by auto
  have "under q (pr_FromPrefix m')"
    using m'(2,3) by (auto simp: under_iff pathBoundaryOK_iff)
  then have same: "m' = m"
    using dirs.container_unique [of "set ms" pr_FromPrefix m' m q] inside m(1) m'(1) assms(1)
    unfolding remaps_ok_def by blast
  have "PathJoin [pr_ToPrefix m, rest] = path"
    using PathJoin_moves(1) [OF dirs(2,1), of rest] q m(2,3) by simp
  then show ?thesis
    using p m'(2,4) same q by simp
qed

subsection \<open>URIs come back\<close>

text \<open>
  What the proxy relies on of the URL library: a file URL, or one of the proxy's own scheme with the name of the
  connection as its host, is read back as it was printed, up to the parts the proxy does not look at.
\<close>

definition reads_back :: "url_lib \<Rightarrow> string \<Rightarrow> bool" where
  "reads_back lib conn \<longleftrightarrow>
     (\<forall>u. ul_Scheme u \<in> {fileURIScheme, graftURIScheme} \<and> ul_Host u \<in> {'''', conn} \<and> IsAbs (ul_Path u) \<longrightarrow>
        (\<exists>rest. ur_parse lib (ur_string lib u) = Some (u\<lparr>ul_Rest := rest\<rparr>)))"

lemma reads_backD:
  assumes "reads_back lib conn" and "ul_Scheme u \<in> {fileURIScheme, graftURIScheme}" and "ul_Host u \<in> {'''', conn}"
    and "IsAbs (ul_Path u)"
  obtains rest where "ur_parse lib (ur_string lib u) = Some (u\<lparr>ul_Rest := rest\<rparr>)"
  using assms unfolding reads_back_def by blast

lemma decorate_IsAbs: "IsAbs path \<Longrightarrow> IsAbs (decorateRemotePathSegment path conn)"
proof -
  assume abs: "IsAbs path"
  obtain dir name where seg: "lastSegment path = (dir, name)" "path = dir @ name" "slash \<notin> set name"
    using lastSegment_split by blast
  then have "dir \<noteq> []" "hd dir = slash"
    using abs by (cases dir; cases name; auto simp: IsAbs_def)+
  then show ?thesis
    using abs seg(1,2) by (auto simp: decorateRemotePathSegment_def IsAbs_def Let_def)
qed

lemma minted_comes_back:
  assumes lib: "reads_back lib conn" and args: "la_ConnectionName args = conn"
    and conn: "slash \<notin> set conn" "CHR ''@'' \<notin> set conn"
    and u: "ul_Scheme u = fileURIScheme" "ul_Host u = ''''" "IsAbs (ul_Path u)"
  defines "v \<equiv> u\<lparr>ul_Scheme := graftURIScheme, ul_Host := conn, ul_Path := decorateRemotePathSegment (ul_Path u) conn\<rparr>"
  shows "\<exists>s rest. rewriteURI lib exists args True (JStr (ur_string lib v)) = JStr s \<and> ur_parse lib s = Some (u\<lparr>ul_Rest := rest\<rparr>)"
    and "handleTextDocumentContent lib args readFile (JObj [(''uri'', JStr (ur_string lib v))]) =
      (case readFile (ul_Path u) of None \<Rightarrow> Inl RemoteReadFailed | Some t \<Rightarrow> Inr (JObj [(''text'', JStr t)]))"
proof -
  have "ul_Scheme v \<in> {fileURIScheme, graftURIScheme}" "ul_Host v \<in> {'''', conn}" "IsAbs (ul_Path v)"
    using u(3) decorate_IsAbs by (simp_all add: v_def)
  then obtain r where parse: "ur_parse lib (ur_string lib v) = Some (v\<lparr>ul_Rest := r\<rparr>)"
    using reads_backD [OF lib] by metis
  define w where "w = u\<lparr>ul_Rest := r\<rparr>"
  have strip: "stripRemotePathSegment (ul_Path v) conn = ul_Path u"
    using strip_decorate [OF conn] by (simp add: v_def)
  have "v\<lparr>ul_Rest := r, ul_Scheme := fileURIScheme, ul_Host := '''', ul_Path := ul_Path u\<rparr> = w"
    using u by (cases u) (simp add: v_def w_def)
  then have "rewriteURL exists args True (v\<lparr>ul_Rest := r\<rparr>) = Some w"
    using strip by (simp add: rewriteURL_def args EqualFold_def) (simp add: v_def)
  then have "rewriteURI lib exists args True (JStr (ur_string lib v)) = JStr (ur_string lib w)"
    by (simp add: rewriteURI_def parse)
  moreover obtain r' where "ur_parse lib (ur_string lib w) = Some (w\<lparr>ul_Rest := r'\<rparr>)"
    using reads_backD [OF lib, of w] u by (auto simp: w_def)
  ultimately show "\<exists>s rest. rewriteURI lib exists args True (JStr (ur_string lib v)) = JStr s \<and>
      ur_parse lib s = Some (u\<lparr>ul_Rest := rest\<rparr>)"
    by (auto simp: w_def)
  show "handleTextDocumentContent lib args readFile (JObj [(''uri'', JStr (ur_string lib v))]) =
      (case readFile (ul_Path u) of None \<Rightarrow> Inl RemoteReadFailed | Some t \<Rightarrow> Inr (JObj [(''text'', JStr t)]))"
    using strip by (simp add: handleTextDocumentContent_def parse args EqualFold_def) (simp add: v_def)
qed

lemma remapped_comes_back:
  assumes lib: "reads_back lib conn" and "remaps_ok (la_Remappings args)"
    and u: "ul_Scheme u = fileURIScheme" "ul_Host u = ''''" "clean_path (ul_Path u)"
    and q: "remap False (la_Remappings args) (ul_Path u) = Some q"
  shows "\<exists>s rest. rewriteURI lib exists args True (JStr (ur_string lib (u\<lparr>ul_Path := q\<rparr>))) = JStr s \<and>
           ur_parse lib s = Some (u\<lparr>ul_Rest := rest\<rparr>)"
proof -
  have returns: "remap True (la_Remappings args) q = Some (ul_Path u)" "clean_path q"
    using remap_back [OF assms(2) u(3) q] by blast+
  obtain r where parse: "ur_parse lib (ur_string lib (u\<lparr>ul_Path := q\<rparr>)) = Some (u\<lparr>ul_Path := q, ul_Rest := r\<rparr>)"
    using reads_backD [OF lib, of "u\<lparr>ul_Path := q\<rparr>"] u returns(2) by (auto simp: clean_path_def)
  have "rewriteURL exists args True (u\<lparr>ul_Path := q, ul_Rest := r\<rparr>) = Some (u\<lparr>ul_Rest := r\<rparr>)"
    using u returns(1) by (simp add: rewriteURL_def fileURIScheme_def graftURIScheme_def)
  then have "rewriteURI lib exists args True (JStr (ur_string lib (u\<lparr>ul_Path := q\<rparr>))) = JStr (ur_string lib (u\<lparr>ul_Rest := r\<rparr>))"
    by (simp add: rewriteURI_def parse)
  moreover obtain r' where "ur_parse lib (ur_string lib (u\<lparr>ul_Rest := r\<rparr>)) = Some (u\<lparr>ul_Rest := r'\<rparr>)"
    using reads_backD [OF lib, of "u\<lparr>ul_Rest := r\<rparr>"] u by (auto simp: clean_path_def)
  ultimately show ?thesis
    by auto
qed

subsection \<open>Properties\<close>


definition exLib :: url_lib where
  "exLib =
     \<lparr>ur_parse = (\<lambda>s. case Cut (CHR '':'') s of
         Some (scheme, rest) \<Rightarrow>
           if HasPrefix rest ''//''
           then Some \<lparr>ul_Scheme = scheme, ul_Host = takeWhile (\<lambda>c. c \<noteq> slash) (drop 2 rest),
                      ul_Path = dropWhile (\<lambda>c. c \<noteq> slash) (drop 2 rest), ul_Rest = ''''\<rparr>
           else None
       | None \<Rightarrow> None),
      ur_string = (\<lambda>u. ul_Scheme u @ ''://'' @ ul_Host u @ ul_Path u)\<rparr>"

lemma exLib_reads_back: "slash \<notin> set conn \<Longrightarrow> reads_back exLib conn"
  unfolding reads_back_def
proof (intro allI impI)
  fix u :: url
  assume conn: "slash \<notin> set conn"
    and u: "ul_Scheme u \<in> {fileURIScheme, graftURIScheme} \<and> ul_Host u \<in> {'''', conn} \<and> IsAbs (ul_Path u)"
  then obtain p where p: "ul_Path u = slash # p"
    by (cases "ul_Path u") (auto simp: IsAbs_def)
  have "slash \<notin> set (ul_Host u)"
    using u conn by auto
  then have "takeWhile (\<lambda>c. c \<noteq> slash) (ul_Host u @ ul_Path u) = ul_Host u"
      "dropWhile (\<lambda>c. c \<noteq> slash) (ul_Host u @ ul_Path u) = ul_Path u"
    by (simp_all add: p scan_to)
  moreover have "Cut (CHR '':'') (ul_Scheme u @ '':'' @ rest) = Some (ul_Scheme u, rest)" for rest
    using u by (auto simp: fileURIScheme_def graftURIScheme_def)
  from this [of "''//'' @ ul_Host u @ ul_Path u"]
  have "Cut (CHR '':'') (ur_string exLib u) = Some (ul_Scheme u, ''//'' @ ul_Host u @ ul_Path u)"
    by (simp add: exLib_def)
  ultimately show "\<exists>rest. ur_parse exLib (ur_string exLib u) = Some (u\<lparr>ul_Rest := rest\<rparr>)"
    by (cases u) (auto simp: exLib_def HasPrefix_def)
qed

definition exArgs :: lspRewriterArgs where
  "exArgs = \<lparr>la_Executable = ''gopls'', la_ConnectionName = ''box'', la_ClientSupportsContent = Some True,
             la_Remappings = [\<lparr>pr_FromPrefix = ''/w'', pr_ToPrefix = ''/home/w''\<rparr>]\<rparr>"


subsection \<open>Requests in flight\<close>

text \<open>
  The state of a binding: whether the editor fetches contents, the channels of the requests that wait for the
  server, by request identifier, what the channels hold, the goroutines that wait on a channel, those that serve
  contents, what was written to the server, and the answers the editor got. The identifiers of the requests that
  are answered asynchronously are a ghost. A notification has no identifier.
\<close>

record lsp_request =
  rq_ID :: "string option"
  rq_Method :: string
  rq_Params :: string

record lsp_state =
  lp_supports :: bool
  lp_inflight :: "(string \<times> nat) list"
  lp_next :: nat
  lp_chans :: "(nat \<times> (lsp_error + json)) list"
  lp_waiting :: "(nat \<times> string \<times> string) list"
  lp_serving :: "(string \<times> json) list"
  lp_sent :: "(string option \<times> string \<times> json) list"
  lp_replies :: "(string \<times> (lsp_error + json)) list"
  lp_gone :: bool
  lp_asked :: "string list"

datatype answer = Failed lsp_error | NoAnswer | Later

text \<open>What the outside is: the two libraries, the local file system, and the remote files.\<close>

record lsp_env =
  le_url :: url_lib
  le_unmarshal :: "string \<Rightarrow> json option"
  le_exists :: "string \<Rightarrow> bool"
  le_readFile :: "string \<Rightarrow> string option"

definition withSupport :: "lspRewriterArgs \<Rightarrow> lsp_state \<Rightarrow> lspRewriterArgs" where
  "withSupport args s = args\<lparr>la_ClientSupportsContent := Some (lp_supports s)\<rparr>"

text \<open>The handler of the editor's messages; \<open>written\<close> tells whether the message could be written to the server.\<close>

definition handleClient ::
    "lsp_env \<Rightarrow> lspRewriterArgs \<Rightarrow> bool \<Rightarrow> lsp_request \<Rightarrow> lsp_state \<Rightarrow> answer \<times> lsp_state" where
  "handleClient env args written req s =
     (case le_unmarshal env (rq_Params req) of
        None \<Rightarrow> (Failed ParamsNotJSON, s)
      | Some params \<Rightarrow>
          let s1 = (if rq_Method req = methodInitialize \<and> clientDeclaresTextDocumentContent params
                    then s\<lparr>lp_supports := True\<rparr> else s) in
          if isGraftDocumentEdit (le_url env) (rq_Method req) params then (NoAnswer, s1)
          else if rq_Method req = methodTextDocumentContent \<and> paramsURIScheme (le_url env) (Some params) = graftURIScheme then
            (case rq_ID req of
               None \<Rightarrow> (NoAnswer, s1)
             | Some i \<Rightarrow> (Later, s1\<lparr>lp_serving := lp_serving s1 @ [(i, params)], lp_asked := i # lp_asked s1\<rparr>))
          else
            let params1 = rewriteLocalRemoteURIs (le_url env) (le_exists env) (withSupport args s1) True params;
                message = (rq_ID req, rq_Method req, params1) in
            (case rq_ID req of
               None \<Rightarrow> if written then (NoAnswer, s1\<lparr>lp_sent := lp_sent s1 @ [message]\<rparr>) else (Failed NotWritten, s1)
             | Some i \<Rightarrow>
                 let s2 = s1\<lparr>lp_inflight := AList.update i (lp_next s1) (lp_inflight s1), lp_next := lp_next s1 + 1\<rparr> in
                 if written
                 then (Later, s2\<lparr>lp_sent := lp_sent s2 @ [message], lp_asked := i # lp_asked s2,
                                 lp_waiting := lp_waiting s2 @ [(lp_next s1, i, rq_Method req)]\<rparr>)
                 else (Failed NotWritten, s2\<lparr>lp_inflight := AList.delete i (lp_inflight s2)\<rparr>)))"

text \<open>A response of the server: its error, or its result before it is parsed.\<close>

definition handleServerResponse ::
    "lsp_env \<Rightarrow> lspRewriterArgs \<Rightarrow> string \<Rightarrow> string + string \<Rightarrow> lsp_state \<Rightarrow> lsp_state" where
  "handleServerResponse env args i response s =
     (case map_of (lp_inflight s) i of
        None \<Rightarrow> s
      | Some ch \<Rightarrow>
          let s1 = s\<lparr>lp_inflight := AList.delete i (lp_inflight s)\<rparr> in
          (case response of
             Inl e \<Rightarrow> s1\<lparr>lp_chans := (ch, Inl (ServerError e)) # lp_chans s1\<rparr>
           | Inr raw \<Rightarrow>
               (case le_unmarshal env raw of
                  None \<Rightarrow> s1
                | Some result \<Rightarrow>
                    s1\<lparr>lp_chans := (ch, Inr (rewriteLocalRemoteURIs (le_url env) (le_exists env) (withSupport args s1) False
                                              result)) # lp_chans s1\<rparr>)))"

text \<open>The answer a goroutine gives when its channel has a value.\<close>

definition answerOf :: "lspRewriterArgs \<Rightarrow> lsp_state \<Rightarrow> string \<Rightarrow> lsp_error + json \<Rightarrow> lsp_error + json" where
  "answerOf args s m v =
     (case v of
        Inl e \<Rightarrow> Inl e
      | Inr result \<Rightarrow>
          Inr (if m = methodInitialize \<and> la_ConnectionName args \<noteq> '''' \<and> lp_supports s
               then injectTextDocumentContentCapability result else result))"

definition reply :: "string \<Rightarrow> lsp_error + json \<Rightarrow> lsp_state \<Rightarrow> lsp_state" where
  "reply i v s = s\<lparr>lp_replies := (i, v) # lp_replies s\<rparr>"

text \<open>
  The steps of a binding. A client does not use an identifier again before it has the answer, and the framing
  library hands a result on when it is JSON. When the server has ended, no response is read any more and every goroutine that waits may give up.
\<close>

inductive lsp_step :: "lsp_env \<Rightarrow> lspRewriterArgs \<Rightarrow> lsp_state \<Rightarrow> lsp_state \<Rightarrow> bool" for env args where
  message: "(\<forall>i. rq_ID req = Some i \<longrightarrow> i \<notin> (fst \<circ> snd) ` set (lp_waiting s) \<union> fst ` set (lp_serving s)) \<Longrightarrow>
    lsp_step env args s (snd (handleClient env args written req s))"
| response: "\<not> lp_gone s \<Longrightarrow> (\<forall>raw. r = Inr raw \<longrightarrow> le_unmarshal env raw \<noteq> None) \<Longrightarrow>
    lsp_step env args s (handleServerResponse env args i r s)"
| answered: "lp_waiting s = xs @ (ch, i, m) # ys \<Longrightarrow> map_of (lp_chans s) ch = Some v \<Longrightarrow>
    lsp_step env args s (reply i (answerOf args s m v) (s\<lparr>lp_waiting := xs @ ys\<rparr>))"
| given_up: "lp_gone s \<Longrightarrow> lp_waiting s = xs @ (ch, i, m) # ys \<Longrightarrow>
    lsp_step env args s (reply i (Inl ServerGone) (s\<lparr>lp_waiting := xs @ ys\<rparr>))"
| served: "lp_serving s = xs @ (i, params) # ys \<Longrightarrow>
    lsp_step env args s (reply i (handleTextDocumentContent (le_url env) args (le_readFile env) params) (s\<lparr>lp_serving := xs @ ys\<rparr>))"
| ended: "lsp_step env args s (s\<lparr>lp_gone := True\<rparr>)"

definition lsp_start :: lsp_state where
  "lsp_start = \<lparr>lp_supports = False, lp_inflight = [], lp_next = 0, lp_chans = [], lp_waiting = [], lp_serving = [],
                lp_sent = [], lp_replies = [], lp_gone = False, lp_asked = []\<rparr>"

subsection \<open>Every request is answered once, with its own response\<close>

text \<open>
  The requests asked for are those answered and those that are worked on. Before the server ends, the table of
  channels has the waiting requests that have no response yet; channels are not shared.
\<close>

definition accounts :: "lsp_state \<Rightarrow> bool" where
  "accounts s \<longleftrightarrow>
     mset (lp_asked s) = mset (map fst (lp_replies s)) + mset (map (fst \<circ> snd) (lp_waiting s)) + mset (map fst (lp_serving s))"

definition chan_inv ::
    "(string \<times> nat) list \<Rightarrow> nat \<Rightarrow> (nat \<times> (lsp_error + json)) list \<Rightarrow> (nat \<times> string \<times> string) list \<Rightarrow> bool" where
  "chan_inv inflight n chans waiting \<longleftrightarrow>
     distinct (map (fst \<circ> snd) waiting) \<and> distinct (map fst waiting) \<and> distinct (map fst inflight) \<and>
     (\<forall>w \<in> set waiting. fst w < n) \<and> (\<forall>c \<in> set chans. fst c < n) \<and>
     (\<forall>i ch. (i, ch) \<in> set inflight \<longrightarrow> (\<exists>m. (ch, i, m) \<in> set waiting) \<and> ch \<notin> fst ` set chans) \<and>
     (\<forall>ch i m. (ch, i, m) \<in> set waiting \<longrightarrow> (i, ch) \<in> set inflight \<or> ch \<in> fst ` set chans)"

definition channels_ok :: "lsp_state \<Rightarrow> bool" where
  "channels_ok s \<longleftrightarrow> lp_gone s \<or> chan_inv (lp_inflight s) (lp_next s) (lp_chans s) (lp_waiting s)"

text \<open>What a message of the client does to the state.\<close>

definition took_note :: "lsp_state \<Rightarrow> lsp_state \<Rightarrow> bool" where
  "took_note s t \<longleftrightarrow>
     lp_inflight t = lp_inflight s \<and> lp_next t = lp_next s \<and> lp_chans t = lp_chans s \<and> lp_waiting t = lp_waiting s \<and>
     lp_serving t = lp_serving s \<and> lp_replies t = lp_replies s \<and> lp_gone t = lp_gone s \<and> lp_asked t = lp_asked s"

lemma handleClient_cases:
  obtains (noted) t where "took_note s t" "snd (handleClient env args written req s) = t"
  | (content) t i params where "took_note s t" "rq_ID req = Some i"
      "snd (handleClient env args written req s) = t\<lparr>lp_serving := lp_serving s @ [(i, params)], lp_asked := i # lp_asked s\<rparr>"
  | (unwritten) t i where "took_note s t" "rq_ID req = Some i"
      "snd (handleClient env args written req s) =
         t\<lparr>lp_inflight := AList.delete i (lp_inflight s), lp_next := lp_next s + 1\<rparr>"
  | (forwarded) t i where "took_note s t" "rq_ID req = Some i"
      "snd (handleClient env args written req s) =
         t\<lparr>lp_inflight := AList.update i (lp_next s) (lp_inflight s), lp_next := lp_next s + 1,
           lp_waiting := lp_waiting s @ [(lp_next s, i, rq_Method req)], lp_asked := i # lp_asked s\<rparr>"
proof -
  have del: "AList.delete i (AList.update i x m) = AList.delete i m" for i :: string and x :: nat and m
    by (induction m) auto
  show thesis
  proof (cases "le_unmarshal env (rq_Params req)")
    case None
    then show ?thesis
      by (intro noted [of s]) (simp_all add: took_note_def handleClient_def)
  next
    case params: (Some params)
    define s1 where "s1 = (if rq_Method req = methodInitialize \<and> clientDeclaresTextDocumentContent params
        then s\<lparr>lp_supports := True\<rparr> else s)"
    have s1: "took_note s s1"
      by (simp add: s1_def took_note_def)
    define msg where "msg = (rq_ID req, rq_Method req,
        rewriteLocalRemoteURIs (le_url env) (le_exists env) (withSupport args s1) True params)"
    have s2: "took_note s (s1\<lparr>lp_sent := lp_sent s1 @ [msg]\<rparr>)"
      using s1 by (simp add: took_note_def)
    show ?thesis
    proof (cases "rq_ID req")
      case None
      then have "took_note s (snd (handleClient env args written req s))"
        using s1 s2 by (simp add: handleClient_def params s1_def [symmetric] msg_def Let_def)
      then show ?thesis
        by (intro noted) auto
    next
      case (Some i)
      have eq: "snd (handleClient env args written req s) =
          (if isGraftDocumentEdit (le_url env) (rq_Method req) params then s1
           else if rq_Method req = methodTextDocumentContent \<and> paramsURIScheme (le_url env) (Some params) = graftURIScheme
           then s1\<lparr>lp_serving := lp_serving s1 @ [(i, params)], lp_asked := i # lp_asked s1\<rparr>
           else if written
           then s1\<lparr>lp_inflight := AList.update i (lp_next s1) (lp_inflight s1), lp_next := lp_next s1 + 1,
                   lp_sent := lp_sent s1 @ [msg], lp_asked := i # lp_asked s1,
                   lp_waiting := lp_waiting s1 @ [(lp_next s1, i, rq_Method req)]\<rparr>
           else s1\<lparr>lp_inflight := AList.delete i (lp_inflight s1), lp_next := lp_next s1 + 1\<rparr>)"
        using Some params by (simp add: handleClient_def s1_def [symmetric] msg_def Let_def del)
      note fields = s1 [unfolded took_note_def]
      show ?thesis
      proof (cases "isGraftDocumentEdit (le_url env) (rq_Method req) params")
        case True
        then show ?thesis
          using eq s1 by (intro noted) simp_all
      next
        case edit: False
        show ?thesis
        proof (cases "rq_Method req = methodTextDocumentContent \<and> paramsURIScheme (le_url env) (Some params) = graftURIScheme")
          case True
          then show ?thesis
            using eq edit fields s1 Some by (intro content [of s1 i params]) simp_all
        next
          case other: False
          show ?thesis
          proof (cases written)
            case True
            then show ?thesis
              using eq edit other fields s2 Some
              by (intro forwarded [of "s1\<lparr>lp_sent := lp_sent s1 @ [msg]\<rparr>" i]) auto
          next
            case False
            then show ?thesis
              using eq edit other fields s1 Some by (intro unwritten [of s1 i]) auto
          qed
        qed
      qed
    qed
  qed
qed

lemma response_frame:
  "lp_waiting (handleServerResponse env args i r s) = lp_waiting s" "lp_serving (handleServerResponse env args i r s) = lp_serving s"
  "lp_replies (handleServerResponse env args i r s) = lp_replies s" "lp_asked (handleServerResponse env args i r s) = lp_asked s"
  "lp_next (handleServerResponse env args i r s) = lp_next s" "lp_gone (handleServerResponse env args i r s) = lp_gone s"
  by (simp_all add: handleServerResponse_def Let_def split: option.split sum.split)

lemma accounts_step: "lsp_step env args s t \<Longrightarrow> accounts s \<Longrightarrow> accounts t"
proof (induction rule: lsp_step.induct)
  case (message req s written)
  show ?case
    by (cases rule: handleClient_cases [of s env args written req])
      (use message in \<open>auto simp: accounts_def took_note_def\<close>)
qed (auto simp: accounts_def response_frame reply_def)

lemma set_delete: "set (AList.delete i m) = {x \<in> set m. fst x \<noteq> i}"
  by (auto simp: AList.delete_eq)

lemma update_fresh_key: "i \<notin> fst ` set m \<Longrightarrow> AList.update i x m = m @ [(i, x)]"
  by (induction m) auto

lemma chan_invD:
  assumes "chan_inv inflight n chans waiting"
  shows "(i, ch) \<in> set inflight \<Longrightarrow> \<exists>m. (ch, i, m) \<in> set waiting"
    and "(i, ch) \<in> set inflight \<Longrightarrow> ch \<notin> fst ` set chans"
    and "(ch, i, m) \<in> set waiting \<Longrightarrow> (i, ch) \<in> set inflight \<or> ch \<in> fst ` set chans"
    and "distinct (map (fst \<circ> snd) waiting)" and "distinct (map fst waiting)" and "distinct (map fst inflight)"
    and "w \<in> set waiting \<Longrightarrow> fst w < n" and "c \<in> set chans \<Longrightarrow> fst c < n"
  using assms unfolding chan_inv_def by meson+

lemma inflight_waits: "chan_inv inflight n chans waiting \<Longrightarrow> fst ` set inflight \<subseteq> (fst \<circ> snd) ` set waiting"
proof
  fix i
  assume inv: "chan_inv inflight n chans waiting" and "i \<in> fst ` set inflight"
  then obtain ch where "(i, ch) \<in> set inflight"
    by auto
  then obtain m where "(ch, i, m) \<in> set waiting"
    using chan_invD(1) [OF inv] by blast
  from imageI [OF this, of "fst \<circ> snd"] show "i \<in> (fst \<circ> snd) ` set waiting"
    by simp
qed

lemma chan_unwritten:
  assumes "chan_inv inflight n chans waiting" and "i \<notin> (fst \<circ> snd) ` set waiting"
  shows "chan_inv (AList.delete i inflight) (n + 1) chans waiting"
proof -
  have "i \<notin> fst ` set inflight"
    using inflight_waits [OF assms(1)] assms(2) by blast
  then have "AList.delete i inflight = inflight"
    by (simp add: AList.delete_eq filter_id_conv) force
  then show ?thesis
    using assms(1) by (auto simp: chan_inv_def less_Suc_eq)
qed

lemma chan_forwarded:
  assumes inv: "chan_inv inflight n chans waiting" and new: "i \<notin> (fst \<circ> snd) ` set waiting"
  shows "chan_inv (AList.update i n inflight) (n + 1) chans (waiting @ [(n, i, m)])"
proof -
  have i: "i \<notin> fst ` set inflight"
    using inflight_waits [OF inv] new by blast
  have n: "n \<notin> fst ` set chans" "n \<notin> fst ` set waiting"
    using chan_invD(7,8) [OF inv] by (metis imageE less_irrefl)+
  have "distinct (map (fst \<circ> snd) (waiting @ [(n, i, m)]))" "distinct (map fst (waiting @ [(n, i, m)]))"
    "distinct (map fst (inflight @ [(i, n)]))"
    using chan_invD(4-6) [OF inv] new n(2) i by simp_all
  moreover have "(\<forall>w \<in> set (waiting @ [(n, i, m)]). fst w < n + 1) \<and> (\<forall>c \<in> set chans. fst c < n + 1)"
    using chan_invD(7,8) [OF inv] by (simp add: less_SucI)
  moreover have "(\<exists>m'. (ch, j, m') \<in> set (waiting @ [(n, i, m)])) \<and> ch \<notin> fst ` set chans"
    if j: "(j, ch) \<in> set (inflight @ [(i, n)])" for j ch
  proof (cases "(j, ch) \<in> set inflight")
    case True
    then show ?thesis
      using chan_invD(1,2) [OF inv True] by auto
  next
    case False
    then show ?thesis
      using j n by auto
  qed
  moreover have "(j, ch) \<in> set (inflight @ [(i, n)]) \<or> ch \<in> fst ` set chans"
    if j: "(ch, j, m') \<in> set (waiting @ [(n, i, m)])" for ch j m'
    using j chan_invD(3) [OF inv, of ch j m'] by auto
  ultimately show ?thesis
    unfolding chan_inv_def update_fresh_key [OF i] by blast
qed

lemma chan_delivered:
  assumes inv: "chan_inv inflight n chans waiting" and i: "(i, ch) \<in> set inflight"
  shows "chan_inv (AList.delete i inflight) n ((ch, v) # chans) waiting"
proof -
  obtain m where m: "(ch, i, m) \<in> set waiting"
    using chan_invD(1) [OF inv i] by blast
  have other: "ch' \<noteq> ch" if j: "(j, ch') \<in> set inflight" "j \<noteq> i" for j ch'
  proof
    assume "ch' = ch"
    moreover obtain m' where "(ch', j, m') \<in> set waiting"
      using chan_invD(1) [OF inv j(1)] by blast
    ultimately show False
      using eq_key_imp_eq_value [OF chan_invD(5) [OF inv] m, of "(j, m')"] j(2) by simp
  qed
  have less: "ch < n"
    using chan_invD(7) [OF inv m] by simp
  have same: "ch' = ch" if "(i, ch') \<in> set inflight" for ch'
    using eq_key_imp_eq_value [OF chan_invD(6) [OF inv] that i] .
  have "distinct (map fst (AList.delete i inflight))" "\<forall>c \<in> set ((ch, v) # chans). fst c < n"
    using chan_invD(6,8) [OF inv] less by (simp_all add: distinct_delete)
  moreover have "(\<exists>m'. (ch', j, m') \<in> set waiting) \<and> ch' \<notin> fst ` set ((ch, v) # chans)"
    if "(j, ch') \<in> set (AList.delete i inflight)" for j ch'
    using that chan_invD(1,2) [OF inv, of j ch'] other [of j ch'] by (simp add: set_delete)
  moreover have "(j, ch') \<in> set (AList.delete i inflight) \<or> ch' \<in> fst ` set ((ch, v) # chans)"
    if "(ch', j, m') \<in> set waiting" for ch' j m'
    using chan_invD(3) [OF inv that] same [of ch'] by (auto simp: set_delete)
  ultimately show ?thesis
    using chan_invD(4,5,7) [OF inv] unfolding chan_inv_def by blast
qed

lemma chan_answered:
  assumes inv: "chan_inv inflight n chans (xs @ (ch, i, m) # ys)" and ch: "ch \<in> fst ` set chans"
  shows "chan_inv inflight n chans (xs @ ys)"
proof -
  have "(\<exists>m'. (ch', j, m') \<in> set (xs @ ys)) \<and> ch' \<notin> fst ` set chans" if j: "(j, ch') \<in> set inflight" for j ch'
    using chan_invD(1,2) [OF inv j] ch by auto
  moreover have "(j, ch') \<in> set inflight \<or> ch' \<in> fst ` set chans" if "(ch', j, m') \<in> set (xs @ ys)" for ch' j m'
    using chan_invD(3) [OF inv, of ch' j m'] that by auto
  moreover have "distinct (map (fst \<circ> snd) (xs @ ys))" "distinct (map fst (xs @ ys))"
    using chan_invD(4,5) [OF inv] by auto
  moreover have "\<forall>w \<in> set (xs @ ys). fst w < n" "\<forall>c \<in> set chans. fst c < n"
    using chan_invD(7,8) [OF inv] by auto
  ultimately show ?thesis
    using chan_invD(6) [OF inv] unfolding chan_inv_def by blast
qed

lemma handleClient_gone: "lp_gone (snd (handleClient env args written req s)) = lp_gone s"
  by (cases rule: handleClient_cases [of s env args written req]) (simp_all add: took_note_def)

lemma response_channels:
  "handleServerResponse env args i r s = s \<or>
   (\<exists>ch v. (i, ch) \<in> set (lp_inflight s) \<and> lp_inflight (handleServerResponse env args i r s) = AList.delete i (lp_inflight s) \<and>
           lp_chans (handleServerResponse env args i r s) = (ch, v) # lp_chans s)"
  if "\<forall>raw. r = Inr raw \<longrightarrow> le_unmarshal env raw \<noteq> None"
proof (cases "map_of (lp_inflight s) i")
  case None
  then show ?thesis
    by (simp add: handleServerResponse_def)
next
  case (Some ch)
  then show ?thesis
    using that map_of_SomeD [OF Some] by (cases r) (auto simp: handleServerResponse_def Let_def)
qed

lemma channels_step: "lsp_step env args s t \<Longrightarrow> channels_ok s \<Longrightarrow> channels_ok t"
proof (induction rule: lsp_step.induct)
  case (message req s written)
  then have "lp_gone s \<or> chan_inv (lp_inflight s) (lp_next s) (lp_chans s) (lp_waiting s)"
    by (simp add: channels_ok_def)
  then show ?case
  proof (elim disjE)
    assume inv: "chan_inv (lp_inflight s) (lp_next s) (lp_chans s) (lp_waiting s)"
    show ?thesis
    proof (cases rule: handleClient_cases [of s env args written req])
      case (unwritten t i)
      then show ?thesis
        using chan_unwritten [OF inv, of i] message(1) by (auto simp: channels_ok_def took_note_def)
    next
      case (forwarded t i)
      then show ?thesis
        using chan_forwarded [OF inv, of i "rq_Method req"] message(1) by (auto simp: channels_ok_def took_note_def)
    qed (use inv in \<open>simp_all add: channels_ok_def took_note_def\<close>)
  qed (simp add: channels_ok_def handleClient_gone)
next
  case (response s r i)
  then show ?case
    using response_channels [of r env args i s] chan_delivered [of "lp_inflight s" "lp_next s" "lp_chans s" "lp_waiting s" i]
    by (auto simp: channels_ok_def response_frame)
next
  case (answered s xs ch i m ys v)
  have "ch \<in> fst ` set (lp_chans s)"
    using map_of_SomeD [OF answered(2)] by force
  then show ?case
    using answered(1,3) chan_answered [of "lp_inflight s" "lp_next s" "lp_chans s" xs ch i m ys]
    by (auto simp: channels_ok_def reply_def)
qed (simp_all add: channels_ok_def reply_def)

interpretation lsp_runs: preserved "lsp_step env args" "\<lambda>s. accounts s \<and> channels_ok s" for env args
  by unfold_locales (blast intro: accounts_step channels_step)

lemma waiting_gets_its_response:
  assumes inv: "channels_ok s" and w: "(ch, i, m) \<in> set (lp_waiting s)" and "\<not> lp_gone s" and "map_of (lp_chans s) ch = None"
    and raw: "le_unmarshal env raw = Some result"
  shows "map_of (lp_chans (handleServerResponse env args i (Inr raw) s)) ch =
    Some (Inr (rewriteLocalRemoteURIs (le_url env) (le_exists env) (withSupport args s) False result))"
proof -
  have inv: "chan_inv (lp_inflight s) (lp_next s) (lp_chans s) (lp_waiting s)"
    using assms(1,3) by (simp add: channels_ok_def)
  have "ch \<notin> fst ` set (lp_chans s)"
    using assms(4) by (simp add: map_of_eq_None_iff)
  then have "map_of (lp_inflight s) i = Some ch"
    using chan_invD(3) [OF inv w] chan_invD(6) [OF inv] by simp
  then show ?thesis
    using raw by (simp add: handleServerResponse_def Let_def withSupport_def)
qed


definition exLspEnv :: lsp_env where
  "exLspEnv = \<lparr>le_url = exLib, le_unmarshal = (\<lambda>s. if s = '''' then None else Some (JObj [(''uri'', JStr ''file:///home/w/a.go'')])),
            le_exists = (\<lambda>_. False), le_readFile = (\<lambda>_. None)\<rparr>"

definition exAsked :: lsp_state where
  "exAsked = snd (handleClient exLspEnv exArgs True \<lparr>rq_ID = Some ''7'', rq_Method = ''hover'', rq_Params = ''{}''\<rparr> lsp_start)"


end
