(* ===== verification/Spec2Isabelle.thy ===== *)
theory Spec2Isabelle
  imports AttachProtocol Identity RemoteDaemon ManagerRoots SessionManager ServerReconcile LspProxy
begin

text \<open>
  \<^bold>\<open>A verification development of graft.\<close> Graft runs commands on remote machines as if they were local. A daemon
  on the user's machine keeps \<^emph>\<open>connections\<close> to remote hosts, installs a second daemon there, forwards commands and
  ports, and keeps directories synchronised. The theories below model the components under \<^verbatim>\<open>src/pkg\<close> as
  functions on records and prove what makes each of them correct.

  \<^bold>\<open>Conventions.\<close> A Go struct is a record, an enumeration or a set of error values a datatype, a \<^verbatim>\<open>uint64\<close> a
  \<^typ>\<open>64 word\<close>, a Go map an association list, a pointer a number into a heap. What a method does while it holds a
  mutex is one function. Concurrency is an inductive step relation over such functions, and its properties hold for
  every interleaving (\<open>r\<^sup>*\<^sup>*\<close>). The operating system, random numbers, hash functions, the mutagen library and
  the remote end of an RPC are arguments of the functions that use them. Errors are values of sum types. Functions
  that may wait return the channel generation they wait on instead of blocking.

  \<^bold>\<open>Foundations.\<close>
  \<^item> \<open>Prelude\<close>: lists, words and channels shared by all theories.
  \<^item> \<open>GoStrings\<close>, \<open>GoPath\<close>: the functions of Go's \<^verbatim>\<open>strings\<close>, \<^verbatim>\<open>strconv\<close> and \<^verbatim>\<open>path/filepath\<close> the sources call.
    \<open>Clean\<close> is the stack machine of the library; its results are normal forms.

  \<^bold>\<open>Commands and their output.\<close>
  \<^item> \<open>OutputRing\<close> (\<^verbatim>\<open>output_ring.go\<close>): the buffer between a command and its readers, one function per critical
    section. The evicting ring refines the tail of the stream that was written, the lossless one never drops a byte
    that was not confirmed; no wake-up is lost, channels are closed at most once. The locales \<open>replay_buffer\<close> and
    \<open>lossless_buffer\<close> are what readers rely on, and both are interpreted on the ring.
  \<^item> \<open>LocalCommand\<close> (\<^verbatim>\<open>running_command_local.go\<close>, \<^verbatim>\<open>runtime.go\<close>): signals, stdin, wiring of streams, shell command
    lines.
  \<^item> \<open>CommandRegistry\<close> (\<^verbatim>\<open>command_registry.go\<close>): managed commands, attachments, kill timers and escalation, the drain,
    the reaper, the state file and the clean-up after a crash. Time is an argument; a run is a list of events.
  \<^item> \<open>AttachProtocol\<close> (\<^verbatim>\<open>server_grpc_command.go\<close>, \<^verbatim>\<open>running_command_remote.go\<close>): both ends of a command stream
    composed with registry and rings, with breaks and re-attachment at any point. What a client has received is a
    prefix of what the command wrote, without gaps or repetitions, across any number of re-attachments; an exit status
    means that everything was received.

  \<^bold>\<open>Hosts, paths, ports.\<close>
  \<^item> \<open>PathUtil\<close> (\<^verbatim>\<open>utils.go\<close>): path prefixes, the directories and sockets of a daemon, line buffering. The locale
    \<open>containment\<close> is what overlap checks and look-ups need of directories; it is interpreted on \<open>under\<close>.
  \<^item> \<open>Identity\<close> (\<^verbatim>\<open>identity.go\<close>), \<open>Version\<close> (\<^verbatim>\<open>version.go\<close>), \<open>Gitignore\<close> (\<^verbatim>\<open>gitignore.go\<close>).
  \<^item> \<open>PortSpec\<close> (\<^verbatim>\<open>port_spec.go\<close>) and \<open>PortScan\<close> (\<^verbatim>\<open>port_scan_linux.go\<close>): port specifications and the search for the
    listening ports of a process tree. The breadth-first search is a total function: a visited process is never queued
    again, which bounds the queue by the finite process table.

  \<^bold>\<open>Connections.\<close>
  \<^item> \<open>Connection\<close> (\<^verbatim>\<open>connection.go\<close>, \<^verbatim>\<open>connection_state.go\<close>): the connection record and the mapping of working
    directories.
  \<^item> \<open>Synchronization\<close> (\<^verbatim>\<open>synchronization.go\<close>, \<^verbatim>\<open>connection.go\<close>): synchronisation intents and how they are established
    on mutagen sessions. Active source directories never overlap; establishing twice is establishing once.
  \<^item> \<open>ConnectionManager\<close> (\<^verbatim>\<open>connection_manager.go\<close>): the tables of connections and daemons, and the calls
    \<^verbatim>\<open>initialize\<close> and \<^verbatim>\<open>remove\<close> cut at their critical sections. \<open>ManagerRefs\<close> shows when reference counts cover the
    connections and the run in which they do not; \<open>ManagerRoots\<close> that a directory selects at most one connection.
  \<^item> \<open>SessionManager\<close> (\<^verbatim>\<open>session.go\<close>, \<^verbatim>\<open>session_manager.go\<close>, \<^verbatim>\<open>server_grpc_session.go\<close>, \<^verbatim>\<open>shim.go\<close>): shell sessions, the
    connection each of them uses, and the shims in its directory. After a reconciliation the shims are exactly the
    forwarded commands; pruning follows the directories. The locale \<open>connection_table\<close> is what sessions need of the
    manager, and is interpreted on it.

  \<^bold>\<open>Remote daemons.\<close>
  \<^item> \<open>PortForward\<close>, \<open>AgentForward\<close>, \<open>RemoteDaemon\<close> (\<^verbatim>\<open>remote_daemon.go\<close>): the forwards a user asks for and those found
    by the scan, with the sockets they hold; the slot of the agent forward and its workers; discovery, installation,
    initialization, reconnection and closing. Each is a step relation over the functions of its critical sections.
    Open sockets are those of the table, a slot has at most one worker, a daemon has at most one connection and none
    after it was closed.

  \<^bold>\<open>The local server.\<close>
  \<^item> \<open>Config\<close> (\<^verbatim>\<open>config.go\<close>), \<open>EnvForward\<close> (\<^verbatim>\<open>local_client_commands.go\<close>): the configuration and its file; which
    environment variables a command takes along, with Go's \<^verbatim>\<open>path.Match\<close>.
  \<^item> \<open>ServerConfig\<close>, \<open>ServerReconcile\<close> (\<^verbatim>\<open>server.go\<close>, \<^verbatim>\<open>server_grpc_connection.go\<close>, \<^verbatim>\<open>server_grpc_port_forward.go\<close>): the
    requests that change the configuration and the loop that makes connections follow it, over the manager, ports,
    agents and synchronisations of the other theories. The file always reloads; requests that name nothing twice
    keep the configuration valid; one tick reaches what the configuration asks for.
  \<^item> \<open>LspProxy\<close> (\<^verbatim>\<open>local_client_commands_lsp.go\<close>): the proxy of a language server. Names of remote files come back;
    every request is answered once, with its own response.

  \<^bold>\<open>Interleavings.\<close> The locale \<open>preserved\<close> of \<open>Prelude\<close> lifts an invariant from the steps of a relation to its runs;
  it is interpreted on the steps of port forwards, agent workers, the life of a daemon and the language server proxy.

  \<^bold>\<open>Bounds and fuel.\<close> No function takes fuel. Loops are structural or have a termination proof; a loop that waits
  is one function per pass, and that it ends is proved for the steps of its environment that end it.

  \<^bold>\<open>Not modelled.\<close> Generated protocol code, SSH and Docker clients, the mutagen library apart from its
  permission checks, byte relays between two sockets, terminal handling, service installation, downloads and logging:
  their behaviour is that of the operating system or of libraries the sources only call. Of the server, the start-up
  and the handlers that only read are left out.
\<close>

end
